(* ===== verification/Prelude.thy ===== *)
theory Prelude
  imports Main "HOL-Library.Word"
begin

section \<open>Shared types, results, and the big-endian codec\<close>

text \<open>
  What every theory of the development uses: the machine types, the result type of a
  Rust operation (a value, an error, or a panic), the state-and-result functions that
  stand for code which reads from a buffer or a stream through \<^verbatim>\<open>&mut\<close>, the
  big-endian integer encodings of the wire formats, the interface of a prefix codec
  (a locale, with what every such codec satisfies), and the records of the outside
  services the code is handed (randomness).
\<close>

unbundle bit_operations_syntax

subsection \<open>Machine types\<close>

type_synonym u8 = "8 word"
type_synonym u16 = "16 word"
type_synonym u32 = "32 word"
type_synonym u128 = "128 word"

text \<open>
  A byte buffer (\<^verbatim>\<open>Vec<u8>\<close>, \<^verbatim>\<open>&[u8]\<close>, \<^verbatim>\<open>Bytes\<close>,
  \<^verbatim>\<open>BytesMut\<close>) is the list of its bytes. \<^verbatim>\<open>usize\<close> is \<open>nat\<close>;
  where the code's arithmetic on it can exceed 64 bits the wrap-around is written out.
\<close>

type_synonym bytes = "u8 list"

abbreviation usize_limit :: nat where
  "usize_limit \<equiv> 2 ^ 64"

named_theorems wire_simps \<open>how encoders and decoders act on concrete buffers\<close>
named_theorems res_simps \<open>results of sequenced operations\<close>

subsection \<open>Results\<close>

text \<open>
  \<^verbatim>\<open>Result<T, E>\<close>, with one more case: the operation panics. Panics are part of the
  model (slices out of range, \<^verbatim>\<open>expect\<close>, reads past the end of a buffer).
\<close>

datatype ('e, 'a) res = Ok 'a | Err 'e | Panic

fun map_err :: "('e \<Rightarrow> 'f) \<Rightarrow> ('e, 'a) res \<Rightarrow> ('f, 'a) res" where
  "map_err f (Ok x) = Ok x"
| "map_err f (Err e) = Err (f e)"
| "map_err f Panic = Panic"

fun bind_res :: "('e, 'a) res \<Rightarrow> ('a \<Rightarrow> ('e, 'b) res) \<Rightarrow> ('e, 'b) res" where
  "bind_res (Ok x) f = f x"
| "bind_res (Err e) f = Err e"
| "bind_res Panic f = Panic"

lemma bind_res_eq_Ok [res_simps]: "bind_res m f = Ok y \<longleftrightarrow> (\<exists>x. m = Ok x \<and> f x = Ok y)"
  by (cases m) auto

lemma bind_res_eq_Panic [res_simps]:
  "bind_res m f = Panic \<longleftrightarrow> m = Panic \<or> (\<exists>x. m = Ok x \<and> f x = Panic)"
  by (cases m) auto

lemma map_err_eq_Ok [simp]: "map_err f r = Ok x \<longleftrightarrow> r = Ok x"
  by (cases r) auto

lemma map_err_eq_Panic [simp]: "map_err f r = Panic \<longleftrightarrow> r = Panic"
  by (cases r) auto

text \<open>
  Code that works on a mutable buffer or stream: from the state to a result and the new
  state. The \<^verbatim>\<open>?\<close> operator is \<open>bind\<close>: an error ends the computation and
  leaves the state as it is at that point.
\<close>

type_synonym ('s, 'e, 'a) stm = "'s \<Rightarrow> ('e, 'a) res \<times> 's"

definition ret :: "'a \<Rightarrow> ('s, 'e, 'a) stm" where
  "ret x s = (Ok x, s)"

definition throw :: "'e \<Rightarrow> ('s, 'e, 'a) stm" where
  "throw e s = (Err e, s)"

definition panic :: "('s, 'e, 'a) stm" where
  "panic s = (Panic, s)"

definition bind :: "('s, 'e, 'a) stm \<Rightarrow> ('a \<Rightarrow> ('s, 'e, 'b) stm) \<Rightarrow> ('s, 'e, 'b) stm" where
  "bind m f s = (case m s of
      (Ok x, t) \<Rightarrow> f x t
    | (Err e, t) \<Rightarrow> (Err e, t)
    | (Panic, t) \<Rightarrow> (Panic, t))"

definition lift_res :: "('e, 'a) res \<Rightarrow> ('s, 'e, 'a) stm" where
  "lift_res r s = (r, s)"

lemma ret_simps [simp, res_simps]: "ret x s = (Ok x, s)"
  by (simp add: ret_def)

lemma throw_simps [simp, res_simps]: "throw e s = (Err e, s)"
  by (simp add: throw_def)

lemma panic_simps [simp, res_simps]: "panic s = (Panic, s)"
  by (simp add: panic_def)

lemma lift_res_simps [simp, res_simps]: "lift_res r s = (r, s)"
  by (simp add: lift_res_def)

lemma bind_Ok [res_simps]: "m s = (Ok x, t) \<Longrightarrow> bind m f s = f x t"
  by (simp add: bind_def)

lemma bind_Err [res_simps]: "m s = (Err e, t) \<Longrightarrow> bind m f s = (Err e, t)"
  by (simp add: bind_def)

lemma bind_Panic [res_simps]: "m s = (Panic, t) \<Longrightarrow> bind m f s = (Panic, t)"
  by (simp add: bind_def)

lemma bind_ret [simp]: "bind (ret x) f = f x"
  by (rule ext) (simp add: bind_def)

lemma bind_eq_Ok:
  "bind m f s = (Ok y, u) \<longleftrightarrow> (\<exists>x t. m s = (Ok x, t) \<and> f x t = (Ok y, u))"
  by (auto simp: bind_def split: prod.splits res.splits)

lemma bind_eq_Panic:
  "bind m f s = (Panic, u) \<longleftrightarrow> m s = (Panic, u) \<or> (\<exists>x t. m s = (Ok x, t) \<and> f x t = (Panic, u))"
  by (auto simp: bind_def split: prod.splits res.splits)

lemma guard_OkD: "(if c then throw e else m) s = (Ok x, t) \<longleftrightarrow> \<not> c \<and> m s = (Ok x, t)"
  by simp

text \<open>
  \<open>panic_free m s\<close>: running \<open>m\<close> from \<open>s\<close> does not panic. The rules follow the
  structure of the code, so that a decoder's guards discharge its reads one by one.
\<close>

definition panic_free :: "('s, 'e, 'a) stm \<Rightarrow> 's \<Rightarrow> bool" where
  "panic_free m s \<longleftrightarrow> fst (m s) \<noteq> Panic"

named_theorems panic_free_intros \<open>why a computation does not panic\<close>

lemma panic_free_ret [panic_free_intros]: "panic_free (ret x) s"
  and panic_free_throw [panic_free_intros]: "panic_free (throw e) s"
  by (simp_all add: panic_free_def)

lemma panic_free_bind [panic_free_intros]:
  assumes "panic_free m s" and "\<And>x t. m s = (Ok x, t) \<Longrightarrow> panic_free (f x) t"
  shows "panic_free (bind m f) s"
  using assms by (auto simp: panic_free_def bind_def split: prod.splits res.splits)

lemma panic_free_if [panic_free_intros]:
  "(c \<Longrightarrow> panic_free a s) \<Longrightarrow> (\<not> c \<Longrightarrow> panic_free b s) \<Longrightarrow> panic_free (if c then a else b) s"
  by simp

lemma panic_free_Let [panic_free_intros]:
  "(\<And>y. y = x \<Longrightarrow> panic_free (f y) s) \<Longrightarrow> panic_free (Let x f) s"
  by simp

lemma panic_free_case_option [panic_free_intros]:
  "(v = None \<Longrightarrow> panic_free a s) \<Longrightarrow> (\<And>x. v = Some x \<Longrightarrow> panic_free (f x) s) \<Longrightarrow>
   panic_free (case v of None \<Rightarrow> a | Some x \<Rightarrow> f x) s"
  by (cases v) simp_all

subsection \<open>Lists\<close>

lemma take_append_exact [simp]: "length xs = n \<Longrightarrow> take n (xs @ ys) = xs"
  by simp

lemma drop_append_exact [simp]: "length xs = n \<Longrightarrow> drop n (xs @ ys) = ys"
  by simp

lemma split_at_length:
  assumes "n \<le> length xs"
  obtains ys zs where "xs = ys @ zs" and "length ys = n"
proof
  show "xs = take n xs @ drop n xs" by simp
  show "length (take n xs) = n" using assms by simp
qed

subsection \<open>Big-endian integers\<close>

text \<open>\<open>be_bytes n x\<close> is the n-byte big-endian form of \<open>x\<close>; \<open>be_nat\<close> reads one.\<close>

primrec be_bytes :: "nat \<Rightarrow> nat \<Rightarrow> bytes" where
  "be_bytes 0 x = []"
| "be_bytes (Suc n) x = be_bytes n (x div 256) @ [of_nat (x mod 256)]"

definition be_nat :: "bytes \<Rightarrow> nat" where
  "be_nat bs = foldl (\<lambda>a b. a * 256 + unat b) 0 bs"

lemma length_be_bytes [simp]: "length (be_bytes n x) = n"
  by (induction n arbitrary: x) auto

lemma be_nat_Nil [simp]: "be_nat [] = 0"
  by (simp add: be_nat_def)

lemma be_nat_snoc [simp]: "be_nat (bs @ [b]) = be_nat bs * 256 + unat b"
  by (simp add: be_nat_def)

lemma unat_byte_lt [simp]: "unat (b :: u8) < 256"
  using unsigned_less [of b, where ?'a = nat] by simp

lemma be_nat_lt: "be_nat bs < 256 ^ length bs"
proof (induction bs rule: rev_induct)
  case Nil
  then show ?case by simp
next
  case (snoc b bs)
  have "be_nat bs * 256 + unat b < (be_nat bs + 1) * 256"
    by (simp add: algebra_simps)
  also have "\<dots> \<le> 256 ^ length bs * 256"
    using snoc by (intro mult_le_mono1) simp
  finally show ?case by (simp add: mult.commute)
qed

lemma unat_of_nat_byte: "unat (of_nat n :: u8) = n mod 256"
  by (simp add: unat_of_nat take_bit_eq_mod)

lemma be_nat_be_bytes: "be_nat (be_bytes n x) = x mod 256 ^ n"
proof (induction n arbitrary: x)
  case 0
  then show ?case by simp
next
  case (Suc n)
  have "be_nat (be_bytes (Suc n) x) = (x div 256) mod 256 ^ n * 256 + x mod 256"
    by (simp add: Suc unat_of_nat_byte)
  also have "\<dots> = x mod (256 * 256 ^ n)"
    by (metis mod_mult2_eq mult.commute)
  finally show ?case by simp
qed

lemma be_bytes_be_nat: "be_bytes (length bs) (be_nat bs) = bs"
  by (induction bs rule: rev_induct) (simp_all add: div_mult_self3)

lemma be_bytes_be_nat_n: "length bs = n \<Longrightarrow> be_bytes n (be_nat bs) = bs"
  using be_bytes_be_nat by blast

definition be16 :: "u16 \<Rightarrow> bytes" where
  "be16 w = be_bytes 2 (unat w)"

definition of_be16 :: "bytes \<Rightarrow> u16" where
  "of_be16 bs = of_nat (be_nat bs)"

definition be32 :: "u32 \<Rightarrow> bytes" where
  "be32 w = be_bytes 4 (unat w)"

definition of_be32 :: "bytes \<Rightarrow> u32" where
  "of_be32 bs = of_nat (be_nat bs)"

definition be128 :: "u128 \<Rightarrow> bytes" where
  "be128 w = be_bytes 16 (unat w)"

definition of_be128 :: "bytes \<Rightarrow> u128" where
  "of_be128 bs = of_nat (be_nat bs)"

lemma length_be16 [simp]: "length (be16 w) = 2"
  and length_be32 [simp]: "length (be32 v) = 4"
  and length_be128 [simp]: "length (be128 u) = 16"
  by (simp_all add: be16_def be32_def be128_def)

lemma of_be16_be16 [simp]: "of_be16 (be16 w) = w"
  using unsigned_less [of w, where ?'a = nat] by (simp add: be16_def of_be16_def be_nat_be_bytes)

lemma of_be32_be32 [simp]: "of_be32 (be32 w) = w"
  using unsigned_less [of w, where ?'a = nat] by (simp add: be32_def of_be32_def be_nat_be_bytes)

lemma of_be128_be128 [simp]: "of_be128 (be128 w) = w"
  using unsigned_less [of w, where ?'a = nat] by (simp add: be128_def of_be128_def be_nat_be_bytes)

lemma be16_of_be16 [simp]: "length bs = 2 \<Longrightarrow> be16 (of_be16 bs) = bs"
  using be_nat_lt [of bs] be_bytes_be_nat_n [of bs 2]
  by (simp add: be16_def of_be16_def unat_of_nat take_bit_eq_mod)

lemma be32_of_be32 [simp]: "length bs = 4 \<Longrightarrow> be32 (of_be32 bs) = bs"
  using be_nat_lt [of bs] be_bytes_be_nat_n [of bs 4]
  by (simp add: be32_def of_be32_def unat_of_nat take_bit_eq_mod)

lemma be128_of_be128 [simp]: "length bs = 16 \<Longrightarrow> be128 (of_be128 bs) = bs"
  using be_nat_lt [of bs] be_bytes_be_nat_n [of bs 16]
  by (simp add: be128_def of_be128_def unat_of_nat take_bit_eq_mod)

lemma unat_of_be16: "length bs = 2 \<Longrightarrow> unat (of_be16 bs) = be_nat bs"
  using be_nat_lt [of bs] by (simp add: of_be16_def unat_of_nat take_bit_eq_mod)

lemma unat_of_nat_u16 [simp]: "n < 65536 \<Longrightarrow> unat (of_nat n :: u16) = n"
  by (simp add: unat_of_nat take_bit_eq_mod)

lemma unat_of_nat_u8 [simp]: "n < 256 \<Longrightarrow> unat (of_nat n :: u8) = n"
  by (simp add: unat_of_nat take_bit_eq_mod)

lemma unat_u16_lt [simp]: "unat (w :: u16) < 65536"
  using unsigned_less [of w, where ?'a = nat] by simp

end
