(* ===== verification/Codecs.thy ===== *)
theory Codecs
  imports Prelude
begin

section \<open>The contract of a wire code\<close>

text \<open>
  Two interfaces that the encoders and decoders of the program satisfy. \<open>prefix_code\<close>:
  decoding what was encoded gives it back, whatever bytes follow. \<open>stream_code\<close>: the
  decoder also stops right after the code, so a stream of codes can be read one by one.
  Both are used for values within the bounds \<open>wf\<close>. The lemmas of the locales hold for
  every code of the program by interpretation.
\<close>

locale prefix_code =
  fixes enc :: "'a \<Rightarrow> bytes" and decode :: "bytes \<Rightarrow> ('e, 'a) res" and wf :: "'a \<Rightarrow> bool"
  assumes decode_enc: "wf x \<Longrightarrow> decode (enc x @ rest) = Ok x"
begin

lemma decode_enc_exact: "wf x \<Longrightarrow> decode (enc x) = Ok x"
  using decode_enc [of x "[]"] by simp

lemma code_inject:
  assumes "wf x" and "wf y" and "enc x @ xs = enc y @ ys"
  shows "x = y" and "xs = ys"
proof -
  have "Ok x = (Ok y :: ('e, 'a) res)"
    using assms decode_enc [of x xs] decode_enc [of y ys] by simp
  then show "x = y" by simp
  with assms(3) show "xs = ys" by simp
qed

lemma code_prefix_free: "wf x \<Longrightarrow> wf y \<Longrightarrow> enc x = enc y @ ys \<Longrightarrow> x = y \<and> ys = []"
  using code_inject [of x y "[]" ys] by auto

end

text \<open>Reading \<open>n\<close> codes in a row.\<close>

primrec decode_many :: "(bytes \<Rightarrow> ('e, 'a) res \<times> bytes) \<Rightarrow> nat \<Rightarrow> bytes \<Rightarrow> ('e, 'a list) res \<times> bytes" where
  "decode_many dec 0 = ret []"
| "decode_many dec (Suc n) = bind dec (\<lambda>x. bind (decode_many dec n) (\<lambda>xs. ret (x # xs)))"

locale stream_code =
  fixes enc :: "'a \<Rightarrow> bytes" and dec :: "bytes \<Rightarrow> ('e, 'a) res \<times> bytes" and wf :: "'a \<Rightarrow> bool"
  assumes dec_enc: "wf x \<Longrightarrow> dec (enc x @ rest) = (Ok x, rest)"

sublocale stream_code \<subseteq> prefix_code enc "\<lambda>b. fst (dec b)" wf
  by unfold_locales (simp add: dec_enc)

context stream_code
begin

lemma decode_many_concat:
  assumes "\<forall>x \<in> set xs. wf x"
  shows "decode_many dec (length xs) (concat (map enc xs) @ rest) = (Ok xs, rest)"
  using assms
proof (induction xs)
  case (Cons x xs)
  have "dec (enc x @ concat (map enc xs) @ rest) = (Ok x, concat (map enc xs) @ rest)"
    using Cons.prems by (simp add: dec_enc)
  with Cons show ?case by (simp add: bind_def)
qed simp

lemma concat_code_inject:
  assumes "\<forall>x \<in> set xs. wf x" and "\<forall>y \<in> set ys. wf y" and "length xs = length ys"
    and "concat (map enc xs) @ us = concat (map enc ys) @ vs"
  shows "xs = ys \<and> us = vs"
proof -
  have "(Ok xs, us) = decode_many dec (length xs) (concat (map enc xs) @ us)"
    by (rule decode_many_concat [OF assms(1), symmetric])
  also have "\<dots> = (Ok ys, vs)"
    unfolding assms(3,4) by (rule decode_many_concat [OF assms(2)])
  finally show ?thesis by simp
qed

end

end
