(* ===== verification/Environment.thy ===== *)
theory Environment
  imports Prelude
begin

section \<open>What the program runs in: buffers, streams, randomness, ciphers\<close>

text \<open>
  The program's surroundings. Buffers of the bytes crate are byte lists with the
  documented reads (which panic past the end) and big-endian writes. A socket is split
  into its directions: a \<open>reader\<close> gives the bytes that will arrive and how the stream ends
  (end of file, or an error), a \<open>source\<close> gives them in the segments that single reads
  return, and a \<open>writer\<close> collects what was written and may start failing after a
  given number of bytes. Randomness, the AEAD cipher, HKDF and the other libraries whose
  code is not in the repository are records of functions, arguments of every definition
  that uses them; what the code relies on is stated as a predicate (\<open>rng_ok\<close>,
  \<open>aead_ok\<close>, \<open>hkdf_ok\<close>) that theorems assume by name.
\<close>

subsection \<open>Buffers\<close>

definition put_u8 :: "u8 \<Rightarrow> (bytes, 'e, unit) stm" where
  "put_u8 x b = (Ok (), b @ [x])"

definition put_slice :: "bytes \<Rightarrow> (bytes, 'e, unit) stm" where
  "put_slice xs b = (Ok (), b @ xs)"

definition put_u16 :: "u16 \<Rightarrow> (bytes, 'e, unit) stm" where
  "put_u16 x b = (Ok (), b @ be16 x)"

definition remaining :: "(bytes, 'e, nat) stm" where
  "remaining b = (Ok (length b), b)"

definition get_u8 :: "(bytes, 'e, u8) stm" where
  "get_u8 b = (case b of [] \<Rightarrow> (Panic, b) | x # xs \<Rightarrow> (Ok x, xs))"

definition copy_to_bytes :: "nat \<Rightarrow> (bytes, 'e, bytes) stm" where
  "copy_to_bytes n b = (if n \<le> length b then (Ok (take n b), drop n b) else (Panic, b))"

definition get_u16 :: "(bytes, 'e, u16) stm" where
  "get_u16 = bind (copy_to_bytes 2) (\<lambda>bs. ret (of_be16 bs))"

lemma put_simps [simp, wire_simps]:
  "put_u8 x b = (Ok (), b @ [x])" "put_slice xs b = (Ok (), b @ xs)"
  "put_u16 p b = (Ok (), b @ be16 p)"
  by (simp_all add: put_u8_def put_slice_def put_u16_def)

lemma remaining_simp [simp, wire_simps]: "remaining b = (Ok (length b), b)"
  by (simp add: remaining_def)

lemma get_u8_Cons [simp, wire_simps]: "get_u8 (x # xs) = (Ok x, xs)"
  by (simp add: get_u8_def)

lemma copy_to_bytes_append [simp, wire_simps]:
  "length xs = n \<Longrightarrow> copy_to_bytes n (xs @ ys) = (Ok xs, ys)"
  by (simp add: copy_to_bytes_def)

lemma get_u16_append [simp, wire_simps]: "get_u16 (be16 p @ ys) = (Ok p, ys)"
  by (simp add: get_u16_def bind_def)

lemma get_u16_exact [simp, wire_simps]: "get_u16 (be16 p) = (Ok p, [])"
  using get_u16_append [of p "[]"] by simp

lemma bind_remaining [simp, wire_simps]: "bind remaining f b = f (length b) b"
  by (simp add: bind_def)

lemma panic_free_remaining [panic_free_intros]: "panic_free remaining b"
  by (simp add: panic_free_def)

lemma panic_free_get_u8 [panic_free_intros]: "0 < length b \<Longrightarrow> panic_free get_u8 b"
  by (cases b) (simp_all add: panic_free_def)

lemma panic_free_copy [panic_free_intros]: "n \<le> length b \<Longrightarrow> panic_free (copy_to_bytes n) b"
  by (simp add: panic_free_def copy_to_bytes_def)

lemma panic_free_get_u16 [panic_free_intros]: "2 \<le> length b \<Longrightarrow> panic_free get_u16 b"
  by (simp add: panic_free_def get_u16_def bind_def copy_to_bytes_def)

text \<open>How much of the buffer a read leaves.\<close>

lemma remaining_length: "remaining b = (Ok n, c) \<longleftrightarrow> n = length b \<and> c = b"
  by auto

lemma get_u8_length: "get_u8 b = (Ok x, c) \<Longrightarrow> length b = Suc (length c)"
  by (cases b) (auto simp: get_u8_def)

lemma copy_length: "copy_to_bytes n b = (Ok x, c) \<Longrightarrow> length b = n + length c"
  by (auto simp: copy_to_bytes_def split: if_splits)

lemma get_u16_length: "get_u16 b = (Ok x, c) \<Longrightarrow> length b = 2 + length c"
  by (auto simp: get_u16_def bind_def copy_to_bytes_def split: if_splits)

lemmas read_lengths = remaining_length get_u8_length copy_length get_u16_length

text \<open>The same reads seen from a successful result: what the buffer must have held.\<close>

lemma get_u8_OkD: "get_u8 b = (Ok x, c) \<longleftrightarrow> b = x # c"
  by (cases b) (auto simp: get_u8_def)

lemma copy_OkD: "copy_to_bytes n b = (Ok x, c) \<longleftrightarrow> b = x @ c \<and> length x = n"
  by (auto simp: copy_to_bytes_def split: if_splits)

lemma get_u16_OkD: "get_u16 b = (Ok p, c) \<longleftrightarrow> b = be16 p @ c"
proof -
  have "get_u16 b = (Ok p, c) \<longleftrightarrow> (\<exists>x. b = x @ c \<and> length x = 2 \<and> of_be16 x = p)"
    by (auto simp: get_u16_def bind_eq_Ok copy_OkD)
  also have "\<dots> \<longleftrightarrow> b = be16 p @ c"
    using be16_of_be16 of_be16_be16 length_be16 by metis
  finally show ?thesis .
qed

subsection \<open>Streams\<close>

datatype io_error = UnexpectedEof | WriteZero | IoFault nat

record source =
  src_segs :: "bytes list"
  src_fault :: "io_error option"

record writer =
  wr_data :: bytes
  wr_limit :: "(nat \<times> io_error) option"

text \<open>Everything that will still arrive.\<close>

definition src_data :: "source \<Rightarrow> bytes" where
  "src_data s = concat (src_segs s)"

text \<open>A live stream never delivers an empty segment: an empty read is the end of file.\<close>

definition src_ok :: "source \<Rightarrow> bool" where
  "src_ok s \<longleftrightarrow> [] \<notin> set (src_segs s)"

definition src_of :: "bytes list \<Rightarrow> source" where
  "src_of gs = \<lparr>src_segs = gs, src_fault = None\<rparr>"

definition fresh_writer :: writer where
  "fresh_writer = \<lparr>wr_data = [], wr_limit = None\<rparr>"

fun drop_segs :: "nat \<Rightarrow> bytes list \<Rightarrow> bytes list" where
  "drop_segs n [] = []"
| "drop_segs n (g # gs) = (if n < length g then drop n g # gs else drop_segs (n - length g) gs)"

text \<open>\<^verbatim>\<open>read_exact\<close>: all the bytes asked for, or the error the stream ends with.\<close>

definition read_exact :: "nat \<Rightarrow> (source, io_error, bytes) stm" where
  "read_exact n s =
     (if n \<le> length (src_data s)
      then (Ok (take n (src_data s)), s\<lparr>src_segs := drop_segs n (src_segs s)\<rparr>)
      else (Err (case src_fault s of None \<Rightarrow> UnexpectedEof | Some e \<Rightarrow> e), s\<lparr>src_segs := []\<rparr>))"

text \<open>
  A single \<^verbatim>\<open>read\<close> into a buffer of \<open>cap\<close> bytes: at most one segment, the part that
  does not fit stays for the next read; no bytes means end of file.
\<close>

definition read_some :: "nat \<Rightarrow> (source, io_error, bytes) stm" where
  "read_some cap s =
     (case src_segs s of
        [] \<Rightarrow> ((case src_fault s of None \<Rightarrow> Ok [] | Some e \<Rightarrow> Err e), s)
      | g # gs \<Rightarrow>
          if length g \<le> cap then (Ok g, s\<lparr>src_segs := gs\<rparr>)
          else (Ok (take cap g), s\<lparr>src_segs := drop cap g # gs\<rparr>))"

definition write_all :: "bytes \<Rightarrow> (writer, io_error, unit) stm" where
  "write_all bs w =
     (case wr_limit w of
        None \<Rightarrow> (Ok (), w\<lparr>wr_data := wr_data w @ bs\<rparr>)
      | Some (k, e) \<Rightarrow>
          if length bs \<le> k
          then (Ok (), w\<lparr>wr_data := wr_data w @ bs, wr_limit := Some (k - length bs, e)\<rparr>)
          else (Err e, w\<lparr>wr_data := wr_data w @ take k bs, wr_limit := Some (0, e)\<rparr>))"

text \<open>A connection: its two directions, and the same operations on it.\<close>

record conn =
  c_in :: source
  c_out :: writer

definition on_in :: "(source, 'e, 'a) stm \<Rightarrow> (conn, 'e, 'a) stm" where
  "on_in m c = (case m (c_in c) of (r, s) \<Rightarrow> (r, c\<lparr>c_in := s\<rparr>))"

definition on_out :: "(writer, 'e, 'a) stm \<Rightarrow> (conn, 'e, 'a) stm" where
  "on_out m c = (case m (c_out c) of (r, w) \<Rightarrow> (r, c\<lparr>c_out := w\<rparr>))"

text \<open>An operation whose error the caller's error type wraps (\<^verbatim>\<open>From\<close>, \<^verbatim>\<open>map_err\<close>).\<close>

definition with_err :: "('e \<Rightarrow> 'f) \<Rightarrow> ('s, 'e, 'a) stm \<Rightarrow> ('s, 'f, 'a) stm" where
  "with_err f m s = (case m s of (r, t) \<Rightarrow> (map_err f r, t))"

definition fresh_conn :: "bytes list \<Rightarrow> conn" where
  "fresh_conn gs = \<lparr>c_in = src_of gs, c_out = fresh_writer\<rparr>"

subsection \<open>What the stream operations do\<close>

lemma with_err_eq_Ok [simp]: "with_err f m s = (Ok x, t) \<longleftrightarrow> m s = (Ok x, t)"
  by (cases "m s") (simp add: with_err_def)

lemma panic_free_with_err [panic_free_intros]: "panic_free m s \<Longrightarrow> panic_free (with_err f m) s"
  by (cases "m s") (simp add: with_err_def panic_free_def)

lemma panic_free_on_in [panic_free_intros]: "panic_free m (c_in c) \<Longrightarrow> panic_free (on_in m) c"
  by (cases "m (c_in c)") (simp add: on_in_def panic_free_def)

lemma panic_free_on_out [panic_free_intros]: "panic_free m (c_out c) \<Longrightarrow> panic_free (on_out m) c"
  by (cases "m (c_out c)") (simp add: on_out_def panic_free_def)

lemma panic_free_read_exact [panic_free_intros]: "panic_free (read_exact n) s"
  by (simp add: panic_free_def read_exact_def)

lemma panic_free_read_some [panic_free_intros]: "panic_free (read_some n) s"
  by (simp add: panic_free_def read_some_def split: list.splits option.splits)

lemma panic_free_write_all [panic_free_intros]: "panic_free (write_all bs) w"
  by (auto simp: panic_free_def write_all_def split: option.splits)

lemma src_of_simps [simp]:
  "src_segs (src_of gs) = gs" "src_fault (src_of gs) = None" "src_data (src_of gs) = concat gs"
  by (simp_all add: src_of_def src_data_def)

lemma fresh_writer_simps [simp]: "wr_data fresh_writer = []" "wr_limit fresh_writer = None"
  by (simp_all add: fresh_writer_def)

lemma fresh_conn_simps [simp]: "c_in (fresh_conn gs) = src_of gs" "c_out (fresh_conn gs) = fresh_writer"
  by (simp_all add: fresh_conn_def)

lemma concat_drop_segs: "concat (drop_segs n gs) = drop n (concat gs)"
  by (induction n gs rule: drop_segs.induct) auto

lemma length_drop_segs: "length (drop_segs n gs) \<le> length gs"
  by (induction n gs rule: drop_segs.induct) auto

lemma drop_segs_ok: "[] \<notin> set gs \<Longrightarrow> [] \<notin> set (drop_segs n gs)"
  by (induction n gs rule: drop_segs.induct) auto

lemma read_exact_Ok:
  assumes "read_exact n s = (Ok bs, s')"
  shows "src_data s = bs @ src_data s'" and "length bs = n" and "src_fault s' = src_fault s"
    and "src_ok s \<Longrightarrow> src_ok s'"
  using assms
  by (auto simp: read_exact_def src_data_def concat_drop_segs src_ok_def drop_segs_ok split: if_splits)

lemma read_exact_enough:
  assumes "src_data s = bs @ rest" and "length bs = n"
  obtains s' where "read_exact n s = (Ok bs, s')" and "src_data s' = rest"
    and "src_fault s' = src_fault s" and "src_ok s \<Longrightarrow> src_ok s'"
  using assms
  by (auto simp: read_exact_def src_data_def concat_drop_segs src_ok_def drop_segs_ok)

lemma read_exact_short:
  "length (src_data s) < n \<Longrightarrow>
   read_exact n s = (Err (case src_fault s of None \<Rightarrow> UnexpectedEof | Some e \<Rightarrow> e), s\<lparr>src_segs := []\<rparr>)"
  by (simp add: read_exact_def)

lemma read_exact_Err: "read_exact n s = (Err e, s') \<Longrightarrow> src_data s' = [] \<and> length (src_data s) < n"
  by (auto simp: read_exact_def src_data_def split: if_splits)

lemma read_exact_no_panic [simp]: "fst (read_exact n r) \<noteq> Panic"
  by (simp add: read_exact_def)

lemma read_exact_not_Panic [simp]: "read_exact n r \<noteq> (Panic, s)"
  by (simp add: read_exact_def)

lemma write_all_unlimited [simp]:
  "wr_limit w = None \<Longrightarrow> write_all bs w = (Ok (), w\<lparr>wr_data := wr_data w @ bs\<rparr>)"
  by (simp add: write_all_def)

lemma write_all_no_panic [simp]: "fst (write_all bs w) \<noteq> Panic"
  by (auto simp: write_all_def split: option.splits)

lemma write_all_Ok: "write_all bs w = (Ok u, w') \<Longrightarrow> wr_data w' = wr_data w @ bs"
  by (auto simp: write_all_def split: option.splits prod.splits if_splits)

text \<open>Whatever happens, what has been written only grows, by a prefix of the data given.\<close>

lemma write_all_prefix: "\<exists>k. wr_data (snd (write_all bs w)) = wr_data w @ take k bs"
proof (cases "wr_limit w")
  case None
  then show ?thesis by (intro exI [of _ "length bs"]) simp
next
  case (Some l)
  then show ?thesis
    by (cases l) (auto simp: write_all_def intro: exI [of _ "length bs"])
qed

text \<open>A source from which \<open>n\<close> bytes have been read.\<close>

definition advance :: "nat \<Rightarrow> source \<Rightarrow> source" where
  "advance n s = s\<lparr>src_segs := drop_segs n (src_segs s)\<rparr>"

lemma src_data_advance [simp]: "src_data (advance n s) = drop n (src_data s)"
  and src_fault_advance [simp]: "src_fault (advance n s) = src_fault s"
  by (simp_all add: advance_def src_data_def concat_drop_segs)

lemma read_exact_advance:
  "n \<le> length (src_data s) \<Longrightarrow> read_exact n s = (Ok (take n (src_data s)), advance n s)"
  by (simp add: read_exact_def advance_def)

text \<open>The measure of the loops that read: every successful read makes it smaller.\<close>

definition src_size :: "source \<Rightarrow> nat" where
  "src_size s = length (src_data s) + length (src_segs s)"

lemma read_exact_decreases:
  assumes "read_exact n s = (Ok bs, s')" and "0 < n"
  shows "src_size s' < src_size s"
proof -
  have d: "s' = s\<lparr>src_segs := drop_segs n (src_segs s)\<rparr>" "n \<le> length (src_data s)"
    using assms(1) by (auto simp: read_exact_def split: if_splits)
  then have "length (src_data s') = length (src_data s) - n"
    by (simp add: src_data_def concat_drop_segs)
  with d assms(2) length_drop_segs [of n "src_segs s"] show ?thesis
    by (simp add: src_size_def)
qed

lemma read_exact_size_le:
  "read_exact n s = (Ok bs, s') \<Longrightarrow> src_size s' \<le> src_size s"
  using length_drop_segs [of n "src_segs s"]
  by (auto simp: read_exact_def src_size_def src_data_def concat_drop_segs split: if_splits)

lemma read_some_decreases:
  assumes "read_some cap s = (Ok bs, s')" and "bs \<noteq> []"
  shows "src_size s' < src_size s"
  using assms
  by (auto simp: read_some_def src_size_def src_data_def split: list.splits if_splits option.splits)

lemma read_some_cap: "read_some cap s = (Ok bs, s') \<Longrightarrow> length bs \<le> cap"
  by (auto simp: read_some_def split: list.splits if_splits option.splits)

lemma read_some_Ok:
  assumes "read_some cap s = (Ok bs, s')"
  shows "src_data s = bs @ src_data s'" and "src_fault s' = src_fault s"
    and "src_ok s \<Longrightarrow> src_ok s'"
  using assms
  by (auto simp: read_some_def src_data_def src_ok_def split: list.splits if_splits option.splits)

lemma read_some_eof:
  assumes "read_some cap s = (Ok [], s')" and "src_ok s" and "0 < cap"
  shows "src_data s = []" and "src_fault s = None"
  using assms
  by (auto simp: read_some_def src_data_def src_ok_def split: list.splits if_splits option.splits)

subsection \<open>Accepting connections\<close>

text \<open>
  The accept loop every listener of the program runs: an error of \<^verbatim>\<open>accept\<close>
  leaves the loop (the question mark operator), a connection is handed to a task of its
  own, and the loop goes on. From the results of the first accepts: which tasks were started,
  each with what it is given, and how the loop ended, if it did. The tasks share no mutable state, and how far
  they come is not said here: when the loop ends, the function returns, \<^verbatim>\<open>main\<close> with it, and the drop
  of the runtime cancels every task that has not finished, wherever it waits.
\<close>

fun accept_loop :: "('c \<Rightarrow> 'o) \<Rightarrow> (io_error, 'c) res list \<Rightarrow> 'o list \<times> (io_error, unit) res option" where
  "accept_loop task [] = ([], None)"
| "accept_loop task (Ok c # rest) = (case accept_loop task rest of (os, e) \<Rightarrow> (task c # os, e))"
| "accept_loop task (Err e # rest) = ([], Some (Err e))"
| "accept_loop task (Panic # rest) = ([], Some Panic)"

lemma accept_loop_all: "accept_loop task (map Ok cs) = (map task cs, None)"
  by (induction cs) simp_all

subsection \<open>Randomness\<close>

text \<open>
  \<open>rng_range lo hi\<close> draws from the inclusive range (\<^verbatim>\<open>gen_range(lo..=hi)\<close>),
  \<open>rng_fill n\<close> fills a buffer of \<open>n\<close> bytes; the generator's own state is threaded.
\<close>

record 'r rng =
  rng_range :: "nat \<Rightarrow> nat \<Rightarrow> 'r \<Rightarrow> nat \<times> 'r"
  rng_fill :: "nat \<Rightarrow> 'r \<Rightarrow> bytes \<times> 'r"

definition rng_ok :: "'r rng \<Rightarrow> bool" where
  "rng_ok R \<longleftrightarrow>
     (\<forall>lo hi s. lo \<le> hi \<longrightarrow> fst (rng_range R lo hi s) \<in> {lo..hi}) \<and>
     (\<forall>n s. length (fst (rng_fill R n s)) = n)"

lemma rng_ok_range: "rng_ok R \<Longrightarrow> lo \<le> hi \<Longrightarrow> rng_range R lo hi s = (x, t) \<Longrightarrow> lo \<le> x \<and> x \<le> hi"
  by (metis atLeastAtMost_iff fst_conv rng_ok_def)

lemma rng_ok_fill: "rng_ok R \<Longrightarrow> rng_fill R n s = (bs, t) \<Longrightarrow> length bs = n"
  by (metis fst_conv rng_ok_def)

text \<open>A concrete generator, for closed instances: a counter.\<close>

definition counter_rng :: "nat rng" where
  "counter_rng = \<lparr>rng_range = (\<lambda>lo hi s. (if lo + s \<le> hi then lo + s else hi, Suc s)),
                  rng_fill = (\<lambda>n s. (map (\<lambda>i. of_nat (s + i)) [0..<n], s + n))\<rparr>"

lemma rng_ok_counter: "rng_ok counter_rng"
  by (simp add: rng_ok_def counter_rng_def)

end
