(* ===== verification/Rust_Text.thy ===== *)
theory Rust_Text
  imports Prelude
begin

section \<open>Rust strings: UTF-8, searching, slicing, hexadecimal text\<close>

text \<open>
  The parts of Rust's standard library for text that the program calls. A \<^verbatim>\<open>String\<close>
  or \<^verbatim>\<open>&str\<close> is the list of its UTF-8 bytes (so \<^verbatim>\<open>len()\<close> is the
  length of the list and \<^verbatim>\<open>as_bytes\<close> the identity); \<open>utf8_valid\<close> is the
  invariant of the type. Slicing at a byte index panics off a character boundary, as in
  Rust. None of this code is the repository's: these are the library functions the
  components are written with.
\<close>

subsection \<open>Literals\<close>

definition lit :: "string \<Rightarrow> bytes" where
  "lit s = map of_char s"

lemma lit_Nil [simp]: "lit [] = []"
  and lit_Cons [simp]: "lit (c # s) = of_char c # lit s"
  and lit_append: "lit (s @ t) = lit s @ lit t"
  by (simp_all add: lit_def)

definition is_ascii :: "bytes \<Rightarrow> bool" where
  "is_ascii bs \<longleftrightarrow> (\<forall>b \<in> set bs. b < 0x80)"

lemma is_ascii_simps [simp]:
  "is_ascii []" "is_ascii (b # bs) \<longleftrightarrow> b < 0x80 \<and> is_ascii bs"
  "is_ascii (bs @ cs) \<longleftrightarrow> is_ascii bs \<and> is_ascii cs"
  by (auto simp: is_ascii_def)

subsection \<open>UTF-8\<close>

definition is_cont :: "u8 \<Rightarrow> bool" where
  "is_cont b \<longleftrightarrow> 0x80 \<le> b \<and> b \<le> 0xBF"

definition safe_get :: "bytes \<Rightarrow> nat \<Rightarrow> u8" where
  "safe_get bs i = (if i < length bs then bs ! i else 0)"

text \<open>Which second bytes may follow a three- or four-byte lead.\<close>

definition second3_ok :: "u8 \<Rightarrow> u8 \<Rightarrow> bool" where
  "second3_ok b c \<longleftrightarrow>
     (if b = 0xE0 then 0xA0 \<le> c \<and> c \<le> 0xBF
      else if b = 0xED then 0x80 \<le> c \<and> c \<le> 0x9F
      else is_cont c)"

definition second4_ok :: "u8 \<Rightarrow> u8 \<Rightarrow> bool" where
  "second4_ok b c \<longleftrightarrow>
     (if b = 0xF0 then 0x90 \<le> c \<and> c \<le> 0xBF
      else if b = 0xF4 then 0x80 \<le> c \<and> c \<le> 0x8F
      else is_cont c)"

text \<open>
  The character at the front of a buffer: whether it is well formed, and how many bytes
  it has (for an ill-formed one, the length of the maximal prefix that is replaced as
  one unit).
\<close>

definition utf8_char_width :: "u8 \<Rightarrow> nat" where
  "utf8_char_width b =
     (if b < 0x80 then 1
      else if 0xC2 \<le> b \<and> b \<le> 0xDF then 2
      else if 0xE0 \<le> b \<and> b \<le> 0xEF then 3
      else if 0xF0 \<le> b \<and> b \<le> 0xF4 then 4
      else 0)"

fun utf8_head :: "bytes \<Rightarrow> bool \<times> nat" where
  "utf8_head [] = (False, 0)"
| "utf8_head (b # bs) =
    (let w = utf8_char_width b in
     if w = 1 then (True, 1)
     else if w = 2 then
       (if is_cont (safe_get bs 0) then (True, 2) else (False, 1))
     else if w = 3 then
       (if \<not> second3_ok b (safe_get bs 0) then (False, 1)
        else if \<not> is_cont (safe_get bs 1) then (False, 2)
        else (True, 3))
     else if w = 4 then
       (if \<not> second4_ok b (safe_get bs 0) then (False, 1)
        else if \<not> is_cont (safe_get bs 1) then (False, 2)
        else if \<not> is_cont (safe_get bs 2) then (False, 3)
        else (True, 4))
     else (False, 1))"

declare utf8_head.simps [simp del]

lemma utf8_head_pos: "bs \<noteq> [] \<Longrightarrow> 0 < snd (utf8_head bs)"
  by (cases bs) (simp_all add: utf8_head.simps Let_def)

lemma utf8_head_ascii [simp]: "b < 0x80 \<Longrightarrow> utf8_head (b # bs) = (True, 1)"
  by (simp add: utf8_head.simps utf8_char_width_def)

lemma safe_get_bounded: "safe_get bs i \<noteq> 0 \<Longrightarrow> i < length bs"
  by (auto simp: safe_get_def split: if_splits)

lemma not_cont_0 [simp]: "\<not> is_cont 0"
  by (simp add: is_cont_def)

lemma not_second3_0 [simp]: "\<not> second3_ok b 0" and not_second4_0 [simp]: "\<not> second4_ok b 0"
  by (simp_all add: second3_ok_def second4_ok_def)

lemma utf8_head_le:
  assumes "bs \<noteq> []"
  shows "snd (utf8_head bs) \<le> length bs"
proof -
  obtain b cs where bs: "bs = b # cs" using assms by (cases bs) auto
  have g: "i < length cs" if "is_cont (safe_get cs i)" for i
    using that by (metis not_cont_0 safe_get_bounded)
  have g3: "0 < length cs" if "second3_ok b (safe_get cs 0)"
    using that by (metis not_second3_0 safe_get_bounded)
  have g4: "0 < length cs" if "second4_ok b (safe_get cs 0)"
    using that by (metis not_second4_0 safe_get_bounded)
  show ?thesis
    using g [of 0] g [of 1] g [of 2] g3 g4 unfolding bs utf8_head.simps Let_def
    by (auto simp: Suc_le_eq)
qed

text \<open>A well-formed first character does not depend on what follows it.\<close>

lemma safe_get_append: "i < length xs \<Longrightarrow> safe_get (xs @ ys) i = safe_get xs i"
  by (simp add: safe_get_def nth_append)

lemma utf8_head_append:
  assumes "fst (utf8_head xs)"
  shows "utf8_head (xs @ ys) = utf8_head xs"
proof -
  obtain b cs where xs: "xs = b # cs" using assms by (cases xs) (auto simp: utf8_head.simps)
  have e: "safe_get (cs @ ys) i = safe_get cs i" if "is_cont (safe_get cs i)" for i
    using that by (metis not_cont_0 safe_get_bounded safe_get_append)
  have e3: "safe_get (cs @ ys) 0 = safe_get cs 0" if "second3_ok b (safe_get cs 0)"
    using that by (metis not_second3_0 safe_get_bounded safe_get_append)
  have e4: "safe_get (cs @ ys) 0 = safe_get cs 0" if "second4_ok b (safe_get cs 0)"
    using that by (metis not_second4_0 safe_get_bounded safe_get_append)
  show ?thesis
    using assms unfolding xs append_Cons utf8_head.simps Let_def
    by (simp add: e e3 e4 split: if_split_asm)
qed

function utf8_valid :: "bytes \<Rightarrow> bool" where
  "utf8_valid bs =
     (if bs = [] then True
      else if fst (utf8_head bs) then utf8_valid (drop (snd (utf8_head bs)) bs)
      else False)"
  by pat_completeness auto
termination
  by (relation "measure length") (simp_all add: utf8_head_pos diff_less)

function from_utf8_lossy :: "bytes \<Rightarrow> bytes" where
  "from_utf8_lossy bs =
     (if bs = [] then []
      else let (ok, n) = utf8_head bs in
        (if ok then take n bs else [0xEF, 0xBF, 0xBD]) @ from_utf8_lossy (drop n bs))"
  by pat_completeness auto
termination
  by (relation "measure length") (simp, simp, metis diff_less length_greater_0_conv snd_conv utf8_head_pos)

text \<open>The characters of a string, each as its own bytes.\<close>

function utf8_chars :: "bytes \<Rightarrow> bytes list" where
  "utf8_chars bs =
     (if bs = [] then [] else
        take (snd (utf8_head bs)) bs # utf8_chars (drop (snd (utf8_head bs)) bs))"
  by pat_completeness auto
termination
  by (relation "measure length") (simp_all add: utf8_head_pos diff_less)

declare utf8_valid.simps [simp del] from_utf8_lossy.simps [simp del] utf8_chars.simps [simp del]

definition from_utf8 :: "bytes \<Rightarrow> bytes option" where
  "from_utf8 bs = (if utf8_valid bs then Some bs else None)"

lemma utf8_valid_Nil [simp]: "utf8_valid []"
  by (simp add: utf8_valid.simps)

lemma utf8_valid_ascii_Cons [simp]: "b < 0x80 \<Longrightarrow> utf8_valid (b # bs) = utf8_valid bs"
  by (subst utf8_valid.simps) simp

lemma utf8_chars_Nil [simp]: "utf8_chars [] = []"
  by (simp add: utf8_chars.simps)

lemma utf8_chars_ascii_Cons [simp]: "b < 0x80 \<Longrightarrow> utf8_chars (b # bs) = [b] # utf8_chars bs"
  by (subst utf8_chars.simps) simp

lemma from_utf8_lossy_Nil [simp]: "from_utf8_lossy [] = []"
  by (simp add: from_utf8_lossy.simps)

lemma from_utf8_lossy_ascii_Cons [simp]:
  "b < 0x80 \<Longrightarrow> from_utf8_lossy (b # bs) = b # from_utf8_lossy bs"
  by (subst from_utf8_lossy.simps) simp

lemma is_ascii_utf8_valid: "is_ascii bs \<Longrightarrow> utf8_valid bs"
  by (induction bs) auto

lemma utf8_valid_append:
  "utf8_valid xs \<Longrightarrow> utf8_valid (xs @ ys) = utf8_valid ys"
proof (induction xs rule: utf8_valid.induct)
  case (1 xs)
  show ?case
  proof (cases "xs = []")
    case False
    let ?n = "snd (utf8_head xs)"
    from False 1(2) have h: "fst (utf8_head xs)" and v: "utf8_valid (drop ?n xs)"
      by (simp_all add: utf8_valid.simps [of xs] split: if_splits)
    from h have a: "utf8_head (xs @ ys) = utf8_head xs" by (rule utf8_head_append)
    from False have "?n \<le> length xs" by (rule utf8_head_le)
    then have "drop ?n (xs @ ys) = drop ?n xs @ ys" by simp
    with a h 1(1) [OF False h v] False show ?thesis
      by (simp add: utf8_valid.simps [of "xs @ ys"])
  qed simp
qed

lemma from_utf8_lossy_valid: "utf8_valid xs \<Longrightarrow> from_utf8_lossy xs = xs"
proof (induction xs rule: utf8_valid.induct)
  case (1 xs)
  then show ?case
    by (cases "xs = []")
      (simp_all add: utf8_valid.simps [of xs] from_utf8_lossy.simps [of xs] case_prod_beta Let_def
        split: if_splits)
qed

lemma utf8_head_take:
  assumes "utf8_head bs = (True, n)"
  shows "utf8_head (take n bs) = (True, n)"
proof -
  obtain b cs where bs: "bs = b # cs" using assms by (cases bs) (auto simp: utf8_head.simps)
  have g: "safe_get (take m cs) i = safe_get cs i" if "i < m" for m i
    using that by (simp add: safe_get_def)
  have "utf8_char_width b = n" and "n = 1 \<or> n = 2 \<or> n = 3 \<or> n = 4"
    using assms by (auto simp: bs utf8_head.simps Let_def split: if_split_asm)
  then show ?thesis
    using assms unfolding bs
    by (elim disjE) (simp_all add: utf8_head.simps Let_def g numeral_eq_Suc split: if_split_asm)
qed

text \<open>The lossy conversion always gives a valid string.\<close>

lemma utf8_valid_from_utf8_lossy: "utf8_valid (from_utf8_lossy bs)"
proof (induction bs rule: from_utf8_lossy.induct)
  case (1 bs)
  show ?case
  proof (cases "bs = []")
    case False
    obtain ok n where h: "utf8_head bs = (ok, n)" by fastforce
    have "utf8_valid (if ok then take n bs else [0xEF, 0xBF, 0xBD])"
    proof (cases ok)
      case True
      then have "utf8_head (take n bs) = (True, n)" using h utf8_head_take by simp
      then show ?thesis using True by (simp add: utf8_valid.simps [of "take n bs"])
    next
      case False
      have "utf8_head [0xEF, 0xBF, 0xBD] = (True, 3)"
        by (simp add: utf8_head.simps utf8_char_width_def second3_ok_def is_cont_def safe_get_def)
      then show ?thesis using False by (simp add: utf8_valid.simps [of "[0xEF, 0xBF, 0xBD]"])
    qed
    then show ?thesis
      using 1 [OF False _ h [symmetric]] False h
      by (simp add: from_utf8_lossy.simps [of bs] utf8_valid_append)
  qed simp
qed

lemma concat_utf8_chars [simp]: "concat (utf8_chars xs) = xs"
proof (induction xs rule: utf8_chars.induct)
  case (1 xs)
  then show ?case
    by (cases "xs = []") (simp_all add: utf8_chars.simps [of xs])
qed

lemma utf8_chars_ascii: "is_ascii bs \<Longrightarrow> utf8_chars bs = map (\<lambda>b. [b]) bs"
  by (induction bs) auto

subsection \<open>Searching and slicing\<close>

text \<open>\<open>str_find pat s\<close>: the byte index of the first occurrence.\<close>

fun str_find :: "bytes \<Rightarrow> bytes \<Rightarrow> nat option" where
  "str_find p [] = (if p = [] then Some 0 else None)"
| "str_find p (b # s) =
     (if take (length p) (b # s) = p then Some 0 else map_option Suc (str_find p s))"

definition str_contains :: "bytes \<Rightarrow> bytes \<Rightarrow> bool" where
  "str_contains p s \<longleftrightarrow> str_find p s \<noteq> None"

definition occurs_at :: "bytes \<Rightarrow> bytes \<Rightarrow> nat \<Rightarrow> bool" where
  "occurs_at p s i \<longleftrightarrow> take (length p) (drop i s) = p"

lemma str_find_Some:
  assumes "str_find p s = Some i"
  shows "i + length p \<le> length s" and "occurs_at p s i" and "\<And>j. j < i \<Longrightarrow> \<not> occurs_at p s j"
proof -
  have "i + length p \<le> length s \<and> occurs_at p s i \<and> (\<forall>j < i. \<not> occurs_at p s j)"
    using assms
  proof (induction p s arbitrary: i rule: str_find.induct)
    case (1 p)
    then show ?case by (simp add: occurs_at_def split: if_splits)
  next
    case (2 p b s)
    show ?case
    proof (cases "take (length p) (b # s) = p")
      case True
      then have "length p \<le> length (b # s)" by (metis nle_le take_all_iff)
      with True 2(2) show ?thesis by (simp add: occurs_at_def)
    next
      case False
      with 2(2) obtain k where k: "str_find p s = Some k" and i: "i = Suc k" by auto
      from 2(1) [OF False k]
      have k': "k + length p \<le> length s" "occurs_at p s k" "\<forall>j < k. \<not> occurs_at p s j" by auto
      have "\<not> occurs_at p (b # s) j" if "j < i" for j
        using that False k'(3) i by (cases j) (auto simp: occurs_at_def)
      with k' i show ?thesis by (auto simp: occurs_at_def)
    qed
  qed
  then show "i + length p \<le> length s" "occurs_at p s i" "\<And>j. j < i \<Longrightarrow> \<not> occurs_at p s j" by auto
qed

lemma str_find_skip:
  assumes "\<And>j. j < length xs \<Longrightarrow> \<not> occurs_at p (xs @ ys) j"
  shows "str_find p (xs @ ys) = map_option (\<lambda>i. length xs + i) (str_find p ys)"
  using assms
proof (induction xs)
  case Nil
  then show ?case by (cases "str_find p ys") simp_all
next
  case (Cons x xs)
  have "take (length p) (x # xs @ ys) \<noteq> p" using Cons.prems [of 0] by (simp add: occurs_at_def)
  moreover have "\<not> occurs_at p (xs @ ys) j" if "j < length xs" for j
    using Cons.prems [of "Suc j"] that by (simp add: occurs_at_def)
  ultimately show ?case
    using Cons.IH by (cases "str_find p ys") simp_all
qed

lemma str_find_here: "str_find p (p @ ys) = Some 0"
proof (cases "p @ ys")
  case (Cons c cs)
  then have "take (length p) (c # cs) = p" by (metis append_eq_conv_conj)
  with Cons show ?thesis by simp
qed simp

lemma str_find_NoneD: "str_find p s = None \<Longrightarrow> \<not> occurs_at p s i"
proof (induction p s arbitrary: i rule: str_find.induct)
  case (1 p)
  then show ?case by (simp add: occurs_at_def split: if_splits)
next
  case (2 p b s)
  then show ?case by (cases i) (auto simp: occurs_at_def split: if_splits)
qed

text \<open>
  An occurrence of a pattern starts where the pattern's first byte is: it cannot start
  inside a part of the text that lacks that byte.
\<close>

lemma not_occurs_at_head:
  assumes "p \<noteq> []" and "i < length s" and "s ! i \<noteq> hd p"
  shows "\<not> occurs_at p s i"
proof
  assume "occurs_at p s i"
  then have "hd p = hd (drop i s)"
    using assms(1) by (metis hd_take length_greater_0_conv occurs_at_def)
  with assms(2,3) show False by (simp add: hd_drop_conv_nth)
qed

text \<open>\<^verbatim>\<open>&s[i..j]\<close>: panics unless both ends are character boundaries in range.\<close>

definition is_char_boundary :: "bytes \<Rightarrow> nat \<Rightarrow> bool" where
  "is_char_boundary s i \<longleftrightarrow> i = 0 \<or> i = length s \<or> (i < length s \<and> \<not> is_cont (s ! i))"

definition str_slice :: "nat \<Rightarrow> nat \<Rightarrow> bytes \<Rightarrow> ('e, bytes) res" where
  "str_slice i j s =
     (if i \<le> j \<and> is_char_boundary s i \<and> is_char_boundary s j
      then Ok (take (j - i) (drop i s)) else Panic)"

lemma utf8_char_width_cont: "is_cont b \<Longrightarrow> utf8_char_width b = 0"
  by (auto simp: is_cont_def utf8_char_width_def not_less word_le_nat_alt word_less_nat_alt)

lemma utf8_valid_head_not_cont:
  assumes "utf8_valid (b # bs)"
  shows "\<not> is_cont b"
proof
  assume "is_cont b"
  then have "utf8_head (b # bs) = (False, 1)" by (simp add: utf8_head.simps utf8_char_width_cont)
  with assms show False by (simp add: utf8_valid.simps [of "b # bs"])
qed

text \<open>In a valid string the byte after an ASCII byte starts a character.\<close>

lemma second_ok_not_ascii:
  "second3_ok b c \<Longrightarrow> \<not> c < 0x80" "second4_ok b c \<Longrightarrow> \<not> c < 0x80" "is_cont c \<Longrightarrow> \<not> c < 0x80"
  by (auto simp: second3_ok_def second4_ok_def is_cont_def word_le_nat_alt word_less_nat_alt split: if_splits)

lemma utf8_head_multi:
  assumes "utf8_head s = (True, n)" and "Suc 0 < n" and "i < n"
  shows "\<not> s ! i < 0x80"
proof -
  obtain b cs where s: "s = b # cs" using assms(1) by (cases s) (auto simp: utf8_head.simps)
  have nb: "\<not> b < 0x80"
    using assms(1,2) s by auto
  have c: "\<not> cs ! k < 0x80" if "\<not> safe_get cs k < 0x80" for k
    using that by (auto simp: safe_get_def split: if_splits)
  from assms(1) s nb have "i = 0 \<or> (i = 1 \<and> \<not> safe_get cs 0 < 0x80) \<or> (i = 2 \<and> \<not> safe_get cs 1 < 0x80)
      \<or> (i = 3 \<and> \<not> safe_get cs 2 < 0x80)"
    using assms(3) second_ok_not_ascii
    by (simp add: utf8_head.simps Let_def split: if_splits) (presburger | arith | force)+
  with nb c [of 0] c [of 1] c [of 2] show ?thesis
    by (auto simp: s)
qed

lemma utf8_valid_after_ascii:
  assumes "utf8_valid s" and "i < length s" and "s ! i < 0x80"
  shows "is_char_boundary s (Suc i)"
  using assms
proof (induction s arbitrary: i rule: utf8_valid.induct)
  case (1 s)
  from 1(3) have ne: "s \<noteq> []" by auto
  let ?n = "snd (utf8_head s)"
  from ne 1(2) have h: "fst (utf8_head s)" and v: "utf8_valid (drop ?n s)"
    by (simp_all add: utf8_valid.simps [of s] split: if_splits)
  have pos: "0 < ?n" and le: "?n \<le> length s" using ne utf8_head_pos utf8_head_le by auto
  have start: "is_char_boundary s ?n"
    using v le utf8_valid_head_not_cont by (cases "drop ?n s") (auto simp: is_char_boundary_def drop_eq_Nil Cons_nth_drop_Suc [symmetric] le_less)
  show ?case
  proof (cases "i < ?n")
    case True
    have "?n = 1"
    proof (rule ccontr)
      assume "?n \<noteq> 1"
      with pos have "Suc 0 < ?n" by simp
      then have "\<not> s ! i < 0x80"
        using utf8_head_multi [of s ?n i] h True by (cases "utf8_head s") auto
      with 1(4) show False by simp
    qed
    with True start show ?thesis by simp
  next
    case False
    with 1(3) have "i - ?n < length (drop ?n s)" by simp
    moreover from False 1(3,4) have "drop ?n s ! (i - ?n) < 0x80" by (simp add: le)
    ultimately have "is_char_boundary (drop ?n s) (Suc (i - ?n))"
      using 1(1) [OF ne h v] by simp
    with False le show ?thesis
      by (auto simp: is_char_boundary_def nth_append Suc_diff_le)
  qed
qed

subsection \<open>White space\<close>

text \<open>
  Characters with the Unicode property \<^verbatim>\<open>White_Space\<close>, each given by its
  UTF-8 bytes.
\<close>

definition char_is_whitespace :: "bytes \<Rightarrow> bool" where
  "char_is_whitespace c \<longleftrightarrow>
     (case c of
        [b] \<Rightarrow> (9 \<le> b \<and> b \<le> 13) \<or> b = 32
      | [b, d] \<Rightarrow> b = 0xC2 \<and> (d = 0x85 \<or> d = 0xA0)
      | [b, d, e] \<Rightarrow>
          (b = 0xE1 \<and> d = 0x9A \<and> e = 0x80)
        \<or> (b = 0xE2 \<and> d = 0x80 \<and> ((0x80 \<le> e \<and> e \<le> 0x8A) \<or> e = 0xA8 \<or> e = 0xA9 \<or> e = 0xAF))
        \<or> (b = 0xE2 \<and> d = 0x81 \<and> e = 0x9F)
        \<or> (b = 0xE3 \<and> d = 0x80 \<and> e = 0x80)
      | _ \<Rightarrow> False)"

definition trim_start :: "bytes \<Rightarrow> bytes" where
  "trim_start s = concat (dropWhile char_is_whitespace (utf8_chars s))"

definition take_while_chars :: "(bytes \<Rightarrow> bool) \<Rightarrow> bytes \<Rightarrow> bytes" where
  "take_while_chars P s = concat (takeWhile P (utf8_chars s))"

lemma trim_start_ascii_Cons:
  "b < 0x80 \<Longrightarrow> trim_start (b # s) = (if char_is_whitespace [b] then trim_start s else b # s)"
  by (simp add: trim_start_def)

lemma take_while_chars_ascii_Cons:
  "b < 0x80 \<Longrightarrow> take_while_chars P (b # s) = (if P [b] then b # take_while_chars P s else [])"
  by (simp add: take_while_chars_def)

lemma take_while_chars_ascii_append:
  "is_ascii xs \<Longrightarrow> \<forall>b \<in> set xs. P [b] \<Longrightarrow> take_while_chars P (xs @ s) = xs @ take_while_chars P s"
  by (induction xs) (auto simp: take_while_chars_ascii_Cons)

subsection \<open>The characters of a text\<close>

lemma utf8_chars_append: "utf8_valid xs \<Longrightarrow> utf8_chars (xs @ ys) = utf8_chars xs @ utf8_chars ys"
proof (induction xs rule: utf8_valid.induct)
  case (1 xs)
  show ?case
  proof (cases "xs = []")
    case False
    let ?n = "snd (utf8_head xs)"
    from False 1(2) have h: "fst (utf8_head xs)" and v: "utf8_valid (drop ?n xs)"
      by (simp_all add: utf8_valid.simps [of xs] split: if_splits)
    from h have a: "utf8_head (xs @ ys) = utf8_head xs" by (rule utf8_head_append)
    from False have "?n \<le> length xs" by (rule utf8_head_le)
    then have "drop ?n (xs @ ys) = drop ?n xs @ ys" "take ?n (xs @ ys) = take ?n xs" by simp_all
    with a h 1(1) [OF False h v] False show ?thesis
      by (simp add: utf8_chars.simps [of "xs @ ys"] utf8_chars.simps [of xs])
  qed simp
qed

text \<open>Each character with the property is one character.\<close>

lemma head_one: "b \<le> 13 \<or> b = 32 \<Longrightarrow> utf8_head [b] = (True, 1)"
  by (rule utf8_head_ascii) (auto intro: le_less_trans)

lemma head_two: "b = 0xC2 \<Longrightarrow> is_cont d \<Longrightarrow> utf8_head [b, d] = (True, 2)"
  by (simp add: utf8_head.simps utf8_char_width_def safe_get_def)

lemma head_three: "b = 0xE1 \<or> b = 0xE2 \<or> b = 0xE3 \<Longrightarrow> is_cont d \<Longrightarrow> is_cont e \<Longrightarrow> utf8_head [b, d, e] = (True, 3)"
  by (auto simp: utf8_head.simps utf8_char_width_def safe_get_def second3_ok_def)

lemma cont_range: "0x80 \<le> e \<Longrightarrow> e \<le> 0x8A \<Longrightarrow> is_cont e"
  by (auto simp: is_cont_def intro: order_trans)

lemma cont_values: "is_cont 0x80" "is_cont 0x81" "is_cont 0x85" "is_cont 0x9A" "is_cont 0x9F" "is_cont 0xA0" "is_cont 0xA8"
  "is_cont 0xA9" "is_cont 0xAF"
  by (simp_all add: is_cont_def)

lemma whitespace_head:
  assumes "char_is_whitespace c"
  shows "utf8_head c = (True, length c) \<and> c \<noteq> []"
proof -
  consider (one) b where "c = [b]" | (two) b d where "c = [b, d]" | (three) b d e where "c = [b, d, e]"
    using assms by (auto simp: char_is_whitespace_def split: list.splits)
  then show ?thesis
  proof cases
    case one
    then have "b \<le> 13 \<or> b = 32" using assms by (auto simp: char_is_whitespace_def)
    with head_one one show ?thesis by simp
  next
    case two
    then have "b = 0xC2" "is_cont d" using assms cont_values by (auto simp: char_is_whitespace_def)
    with head_two two show ?thesis by simp
  next
    case three
    then have "b = 0xE1 \<or> b = 0xE2 \<or> b = 0xE3" "is_cont d" "is_cont e"
      using assms cont_values cont_range by (auto simp: char_is_whitespace_def)
    with head_three three show ?thesis by simp
  qed
qed

lemma whitespace_char:
  assumes "char_is_whitespace c"
  shows "utf8_valid c" and "utf8_chars c = [c]"
  using whitespace_head [OF assms] by (simp_all add: utf8_valid.simps [of c] utf8_chars.simps [of c])

lemma whitespace_chars: "\<forall>c \<in> set ws. char_is_whitespace c \<Longrightarrow> utf8_chars (concat ws @ s) = ws @ utf8_chars s"
  by (induction ws) (simp_all add: utf8_chars_append whitespace_char)

lemma utf8_chars_nonempty: "c \<in> set (utf8_chars s) \<Longrightarrow> c \<noteq> []"
proof (induction s rule: utf8_chars.induct)
  case (1 s)
  then show ?case
    using utf8_head_pos [of s] by (cases "s = []") (auto simp: utf8_chars.simps [of s])
qed

text \<open>Dropping characters at the front leaves the other characters.\<close>

lemma utf8_chars_dropWhile: "utf8_chars (concat (dropWhile P (utf8_chars s))) = dropWhile P (utf8_chars s)"
proof (induction s rule: utf8_chars.induct)
  case (1 s)
  show ?case
  proof (cases "s = []")
    case False
    let ?n = "snd (utf8_head s)"
    have s: "utf8_chars s = take ?n s # utf8_chars (drop ?n s)" using False by (simp add: utf8_chars.simps [of s])
    show ?thesis
    proof (cases "P (take ?n s)")
      case True
      with 1 [OF False] s show ?thesis by simp
    next
      case False
      then have "dropWhile P (utf8_chars s) = utf8_chars s" using s by simp
      then show ?thesis by simp
    qed
  qed simp
qed

text \<open>A prefix of the characters that makes up a well-formed text is its characters.\<close>

lemma takeWhile_valid_prefix:
  assumes "utf8_valid token" and "concat (takeWhile P (utf8_chars s)) = token"
  shows "takeWhile P (utf8_chars s) = utf8_chars token"
proof -
  let ?A = "utf8_chars token"
  have "s = token @ concat (dropWhile P (utf8_chars s))"
    using assms(2) by (metis concat_append concat_utf8_chars takeWhile_dropWhile_id)
  then obtain rest where "s = token @ rest" and rest: "utf8_chars rest = dropWhile P (utf8_chars s)"
    using utf8_chars_dropWhile by metis
  then have s: "utf8_chars s = ?A @ utf8_chars rest" using utf8_chars_append [OF assms(1)] by simp
  have all: "\<forall>c \<in> set ?A. P c"
  proof (rule ccontr)
    assume bad: "\<not> (\<forall>c \<in> set ?A. P c)"
    then have "takeWhile P (utf8_chars s) = takeWhile P ?A" unfolding s by (auto simp: takeWhile_append1)
    then have "concat (takeWhile P ?A) @ concat (dropWhile P ?A) = concat (takeWhile P ?A)"
      using assms(2) by (metis concat_append concat_utf8_chars takeWhile_dropWhile_id)
    then have "\<forall>c \<in> set (dropWhile P ?A). c = []" by simp
    moreover have "\<forall>c \<in> set (dropWhile P ?A). c \<noteq> []" using utf8_chars_nonempty set_dropWhileD by fast
    moreover have "dropWhile P ?A \<noteq> []" using bad by (simp add: dropWhile_eq_Nil_conv)
    ultimately show False using last_in_set by fast
  qed
  then have "takeWhile P (utf8_chars s) = ?A @ takeWhile P (utf8_chars rest)" unfolding s by (simp add: takeWhile_append2)
  moreover have "takeWhile P (utf8_chars rest) = []"
    unfolding rest by (metis hd_dropWhile takeWhile_eq_Nil_iff)
  ultimately show ?thesis by simp
qed

subsection \<open>Numbers as text\<close>

definition hex_digit :: "nat \<Rightarrow> u8" where
  "hex_digit n = (if n < 10 then of_nat (48 + n) else of_nat (87 + n))"

fun hex_digits :: "nat \<Rightarrow> bytes" where
  "hex_digits n = (if n < 16 then [hex_digit n] else hex_digits (n div 16) @ [hex_digit (n mod 16)])"

fun dec_digits :: "nat \<Rightarrow> bytes" where
  "dec_digits n = (if n < 10 then [of_nat (48 + n)] else dec_digits (n div 10) @ [of_nat (48 + n mod 10)])"

declare hex_digits.simps [simp del] dec_digits.simps [simp del]

text \<open>\<^verbatim>\<open>{:0wx}\<close>: lower-case hexadecimal, zero-padded to at least \<open>w\<close> digits.\<close>

definition fmt_hex :: "nat \<Rightarrow> nat \<Rightarrow> bytes" where
  "fmt_hex w n = replicate (w - length (hex_digits n)) 48 @ hex_digits n"

lemma hex_digits_nonempty [simp]: "hex_digits n \<noteq> []"
  by (subst hex_digits.simps) simp

lemma length_hex_digits_le: "n < 16 ^ Suc k \<Longrightarrow> length (hex_digits n) \<le> Suc k"
proof (induction k arbitrary: n)
  case 0
  then show ?case by (simp add: hex_digits.simps)
next
  case (Suc k)
  then have "n div 16 < 16 ^ Suc k" by (simp add: less_mult_imp_div_less)
  from Suc.IH [OF this] show ?case by (subst hex_digits.simps) simp
qed

lemma length_hex_digits_ge: "16 ^ k \<le> n \<Longrightarrow> k < length (hex_digits n)"
proof (induction k arbitrary: n)
  case 0
  then show ?case by simp
next
  case (Suc k)
  have "(16::nat) ^ Suc k div 16 \<le> n div 16" using Suc.prems by (rule div_le_mono)
  then have "16 ^ k \<le> n div 16" by simp
  from Suc.IH [OF this] have "k < length (hex_digits (n div 16))" .
  moreover have "16 \<le> n" using Suc.prems order_trans [OF _ Suc.prems, of 16] by simp
  ultimately show ?case by (subst hex_digits.simps) simp
qed

lemma length_fmt_hex: "length (fmt_hex w n) = max w (length (hex_digits n))"
  by (simp add: fmt_hex_def)

lemma length_fmt_hex_fits: "n < 16 ^ w \<Longrightarrow> 0 < w \<Longrightarrow> length (fmt_hex w n) = w"
  using length_hex_digits_le [of n "w - 1"] by (simp add: length_fmt_hex)

lemma length_fmt_hex_over: "16 ^ w \<le> n \<Longrightarrow> w < length (fmt_hex w n)"
  using length_hex_digits_ge [of w n] by (simp add: length_fmt_hex)

text \<open>The value of a hexadecimal digit, either case, as \<^verbatim>\<open>to_digit(16)\<close>.\<close>

definition hex_val :: "u8 \<Rightarrow> nat option" where
  "hex_val c =
     (if 48 \<le> c \<and> c \<le> 57 then Some (unat c - 48)
      else if 97 \<le> c \<and> c \<le> 102 then Some (unat c - 87)
      else if 65 \<le> c \<and> c \<le> 70 then Some (unat c - 55)
      else None)"

definition hex_nat :: "bytes \<Rightarrow> nat" where
  "hex_nat s = foldl (\<lambda>a c. a * 16 + the (hex_val c)) 0 s"

lemma less_16_cases: "(n::nat) < 16 \<Longrightarrow>
  n = 15 \<or> n = 14 \<or> n = 13 \<or> n = 12 \<or> n = 11 \<or> n = 10 \<or> n = 9 \<or> n = 8 \<or>
  n = 7 \<or> n = 6 \<or> n = 5 \<or> n = 4 \<or> n = 3 \<or> n = 2 \<or> n = 1 \<or> n = 0"
  by arith

lemma hex_val_hex_digit [simp]: "n < 16 \<Longrightarrow> hex_val (hex_digit n) = Some n"
  by (drule less_16_cases) (elim disjE; simp add: hex_val_def hex_digit_def)

lemma hex_digit_ascii: "n < 16 \<Longrightarrow> hex_digit n < 0x80"
  by (drule less_16_cases) (elim disjE; simp add: hex_digit_def)

lemma hex_nat_hex_digits: "hex_nat (hex_digits n) = n"
proof (induction n rule: hex_digits.induct)
  case (1 n)
  then show ?case
    by (subst hex_digits.simps) (simp add: hex_nat_def)
qed

lemma hex_nat_zeros: "hex_nat (replicate k 48 @ s) = hex_nat s"
  by (induction k) (simp_all add: hex_nat_def hex_val_def)

lemma hex_nat_fmt_hex [simp]: "hex_nat (fmt_hex w n) = n"
  by (simp add: fmt_hex_def hex_nat_zeros hex_nat_hex_digits)

lemma fmt_hex_inject [simp]: "fmt_hex w m = fmt_hex w n \<longleftrightarrow> m = n"
  by (metis hex_nat_fmt_hex)

lemma fmt_hex_byte:
  "fmt_hex 2 (unat (b :: u8)) = [hex_digit (unat b div 16), hex_digit (unat b mod 16)]"
proof (cases "unat b < 16")
  case True
  then show ?thesis by (simp add: fmt_hex_def hex_digits.simps hex_digit_def)
next
  case False
  have "unat b div 16 < 16" by (rule less_mult_imp_div_less) simp
  with False show ?thesis
    by (simp add: fmt_hex_def hex_digits.simps [of "unat b"] hex_digits.simps [of "unat b div 16"])
qed

text \<open>
  \<^verbatim>\<open>u8::from_str_radix(s, 16)\<close>. As in the library, one leading plus sign is
  accepted, a sign alone is not, and the first failing digit decides the error.
\<close>

datatype parse_int_error = EmptyInt | InvalidDigit | PosOverflow

fun radix16_digits :: "bytes \<Rightarrow> nat \<Rightarrow> (parse_int_error, u8) res" where
  "radix16_digits [] acc = Ok (of_nat acc)"
| "radix16_digits (c # cs) acc =
     (case hex_val c of
        None \<Rightarrow> Err InvalidDigit
      | Some d \<Rightarrow> if acc * 16 + d < 256 then radix16_digits cs (acc * 16 + d) else Err PosOverflow)"

definition u8_from_str_radix16 :: "bytes \<Rightarrow> (parse_int_error, u8) res" where
  "u8_from_str_radix16 s =
     (case s of
        [] \<Rightarrow> Err EmptyInt
      | c # cs \<Rightarrow>
          if cs = [] \<and> (c = 43 \<or> c = 45) then Err InvalidDigit
          else if c = 43 then radix16_digits cs 0
          else radix16_digits (c # cs) 0)"

lemma u8_from_str_radix16_hex [simp]:
  "u8_from_str_radix16 [hex_digit (unat b div 16), hex_digit (unat b mod 16)] = Ok b"
proof -
  have b: "unat b div 16 < 16" by (rule less_mult_imp_div_less) simp
  have "unat b div 16 * 16 + unat b mod 16 < 256" using unat_byte_lt [of b] by simp
  moreover have "hex_digit (unat b div 16) \<noteq> 43"
    using hex_val_hex_digit [OF b] by (auto simp: hex_val_def)
  ultimately show ?thesis
    using b by (simp add: u8_from_str_radix16_def)
qed

lemma radix16_no_panic: "radix16_digits s n \<noteq> Panic"
  by (induction s n rule: radix16_digits.induct) (auto split: option.splits)

lemma u8_from_str_radix16_no_panic [simp]: "u8_from_str_radix16 s \<noteq> Panic"
  by (auto simp: u8_from_str_radix16_def radix16_no_panic simp del: radix16_digits.simps split: list.splits)

end
