(* ===== verification/Hex_Ids.thy ===== *)
theory Hex_Ids
  imports Rust_Text
begin

section \<open>User identifiers and keys as hexadecimal text\<close>

text \<open>
  \<^verbatim>\<open>hex_encode\<close> (the same three-line function in ghost-reality, ghost-server and
  ghost-client), and the client's two parsers: \<^verbatim>\<open>parse_user_id\<close> and
  \<^verbatim>\<open>parse_hex_32\<close> of ghost-client/src/tunnel.rs. The lemmas say that encoding and
  parsing are inverse, what the parsers accept, and when they panic.
\<close>

definition USER_ID_LEN :: nat where
  "USER_ID_LEN = 16"

definition hex_encode :: "bytes \<Rightarrow> bytes" where
  "hex_encode data = concat (map (\<lambda>b. fmt_hex 2 (unat b)) data)"

datatype hex_error =
    WrongLength nat
  | BadHex nat parse_int_error

text \<open>The loop over the byte positions \<open>i, i + 1, \<dots>\<close>, \<open>k\<close> of them.\<close>

fun parse_hex_pairs :: "nat \<Rightarrow> nat \<Rightarrow> bytes \<Rightarrow> (hex_error, bytes) res" where
  "parse_hex_pairs i 0 s = Ok []"
| "parse_hex_pairs i (Suc k) s =
     bind_res (str_slice (i * 2) (i * 2 + 2) s) (\<lambda>pair.
     bind_res (map_err (BadHex i) (u8_from_str_radix16 pair)) (\<lambda>b.
     bind_res (parse_hex_pairs (Suc i) k s) (\<lambda>bs. Ok (b # bs))))"

definition parse_user_id :: "bytes \<Rightarrow> (hex_error, bytes) res" where
  "parse_user_id hex0 =
     (let hex = filter (\<lambda>c. c \<noteq> 45) hex0 in
      if length hex \<noteq> 32 then Err (WrongLength (length hex))
      else parse_hex_pairs 0 USER_ID_LEN hex)"

definition parse_hex_32 :: "bytes \<Rightarrow> (hex_error, bytes) res" where
  "parse_hex_32 hex0 =
     (let hex = filter (\<lambda>c. c \<noteq> 45) hex0 in
      if length hex \<noteq> 64 then Err (WrongLength (length hex))
      else parse_hex_pairs 0 32 hex)"

subsection \<open>Encoding\<close>

lemma hex_encode_Nil [simp]: "hex_encode [] = []"
  and hex_encode_Cons: "hex_encode (b # bs) = fmt_hex 2 (unat b) @ hex_encode bs"
  by (simp_all add: hex_encode_def)

lemma length_hex_encode [simp]: "length (hex_encode bs) = 2 * length bs"
  by (induction bs) (simp_all add: hex_encode_Cons fmt_hex_byte)

lemma unat_div_16_lt [simp]: "unat (b :: u8) div 16 < 16"
  by (rule less_mult_imp_div_less) simp

lemma hex_digit_range:
  "n < 16 \<Longrightarrow> (48 \<le> hex_digit n \<and> hex_digit n \<le> 57) \<or> (97 \<le> hex_digit n \<and> hex_digit n \<le> 102)"
  by (drule less_16_cases) (elim disjE; simp add: hex_digit_def)

lemma set_hex_encode: "set (hex_encode bs) \<subseteq> hex_digit ` {..<16}"
  by (induction bs) (auto simp: hex_encode_Cons fmt_hex_byte)

lemma hex_encode_chars:
  "c \<in> set (hex_encode bs) \<Longrightarrow> (48 \<le> c \<and> c \<le> 57) \<or> (97 \<le> c \<and> c \<le> 102)"
  using set_hex_encode [of bs] hex_digit_range by blast

lemma hex_encode_ascii [simp]: "is_ascii (hex_encode bs)"
  by (induction bs) (simp_all add: hex_encode_Cons fmt_hex_byte hex_digit_ascii)

lemma hex_encode_inject [simp]: "hex_encode xs = hex_encode ys \<longleftrightarrow> xs = ys"
proof
  show "xs = ys" if "hex_encode xs = hex_encode ys"
    using that
  proof (induction xs arbitrary: ys)
    case Nil
    then have "length (hex_encode ys) = 0" by simp
    then show ?case by simp
  next
    case (Cons x xs)
    then have "length (hex_encode ys) = 2 * length (x # xs)" by (metis length_hex_encode)
    then obtain y ys' where ys: "ys = y # ys'" by (cases ys) auto
    with Cons.prems have "fmt_hex 2 (unat x) @ hex_encode xs = fmt_hex 2 (unat y) @ hex_encode ys'"
      by (simp add: hex_encode_Cons)
    moreover have "length (fmt_hex 2 (unat x)) = length (fmt_hex 2 (unat y))"
      by (simp add: fmt_hex_byte)
    ultimately have "unat x = unat y" and "hex_encode xs = hex_encode ys'" by auto
    then have "x = y" and "xs = ys'" using Cons.IH by (auto intro: unsigned_word_eqI)
    with ys show ?case by simp
  qed
qed simp

subsection \<open>Slicing ASCII text\<close>

lemma is_char_boundary_ascii: "is_ascii s \<Longrightarrow> i \<le> length s \<Longrightarrow> is_char_boundary s i"
  by (auto simp: is_char_boundary_def is_ascii_def le_less dest: second_ok_not_ascii(3))

lemma str_slice_ascii:
  "is_ascii s \<Longrightarrow> i \<le> j \<Longrightarrow> j \<le> length s \<Longrightarrow> str_slice i j s = Ok (take (j - i) (drop i s))"
  by (simp add: str_slice_def is_char_boundary_ascii)

text \<open>One step of the parsing loop on ASCII text.\<close>

lemma parse_hex_pairs_step:
  assumes "is_ascii (pre @ c # d # s)" and "length pre = 2 * i"
  shows "parse_hex_pairs i (Suc k) (pre @ c # d # s) =
     bind_res (map_err (BadHex i) (u8_from_str_radix16 [c, d])) (\<lambda>b.
     bind_res (parse_hex_pairs (Suc i) k (pre @ c # d # s)) (\<lambda>bs. Ok (b # bs)))"
  using assms by (simp add: str_slice_ascii numeral_2_eq_2 mult.commute)

lemma parse_hex_pairs_no_panic:
  assumes "is_ascii s" and "2 * (i + k) \<le> length s"
  shows "parse_hex_pairs i k s \<noteq> Panic"
  using assms
  by (induction i k s rule: parse_hex_pairs.induct) (auto simp: str_slice_ascii bind_res_eq_Panic)

lemma parse_hex_pairs_length: "parse_hex_pairs i k s = Ok bs \<Longrightarrow> length bs = k"
  by (induction i k s arbitrary: bs rule: parse_hex_pairs.induct) (auto simp: bind_res_eq_Ok)

subsection \<open>Parsing what was encoded\<close>

lemma parse_hex_pairs_hex_encode:
  assumes "is_ascii pre" and "length pre = 2 * i"
  shows "parse_hex_pairs i (length bs) (pre @ hex_encode bs) = Ok bs"
  using assms
proof (induction bs arbitrary: i pre)
  case (Cons b bs)
  let ?c = "hex_digit (unat b div 16)" and ?d = "hex_digit (unat b mod 16)"
  have a: "is_ascii (pre @ ?c # ?d # hex_encode bs)"
    using Cons.prems by (simp add: hex_digit_ascii)
  have "parse_hex_pairs (Suc i) (length bs) ((pre @ [?c, ?d]) @ hex_encode bs) = Ok bs"
    using Cons.prems by (intro Cons.IH) (simp_all add: hex_digit_ascii)
  with Cons.prems a show ?case
    by (simp add: hex_encode_Cons fmt_hex_byte parse_hex_pairs_step del: parse_hex_pairs.simps)
qed simp

lemma hex_encode_no_dash: "filter (\<lambda>c. c \<noteq> 45) (hex_encode bs) = hex_encode bs"
  by (rule filter_True) (auto dest!: hex_encode_chars)

text \<open>A user id survives being printed as hex text and parsed by the client: every
  16-byte id is what \<^verbatim>\<open>parse_user_id\<close> reads back from its \<^verbatim>\<open>hex_encode\<close>.\<close>

theorem parse_user_id_hex_encode:
  assumes "length uid = USER_ID_LEN"
  shows "parse_user_id (hex_encode uid) = Ok uid"
  using parse_hex_pairs_hex_encode [of "[]" 0 uid] assms
  by (simp add: parse_user_id_def hex_encode_no_dash USER_ID_LEN_def)

theorem parse_user_id_hex_encode_witness:
  "parse_user_id (hex_encode (replicate 16 0xAB)) = Ok (replicate 16 0xAB)"
  by (rule parse_user_id_hex_encode) (simp add: USER_ID_LEN_def)

subsection \<open>What the parser accepts\<close>

definition ascii_lower :: "u8 \<Rightarrow> u8" where
  "ascii_lower c = (if 65 \<le> c \<and> c \<le> 90 then c + 32 else c)"

text \<open>The canonical text of an accepted id: no dashes, lower case.\<close>

definition canonical_id :: "bytes \<Rightarrow> bytes" where
  "canonical_id s = map ascii_lower (filter (\<lambda>c. c \<noteq> 45) s)"

lemma hex_val_range: "hex_val c = Some d \<Longrightarrow> d < 16"
  by (auto simp: hex_val_def word_le_nat_alt split: if_splits)

lemma of_nat_unat_byte: "unat (c :: u8) = n \<Longrightarrow> c = of_nat n"
  by (metis of_nat_unat ucast_id)

lemma hex_digit_hex_val:
  assumes "hex_val c = Some d"
  shows "hex_digit d = ascii_lower c"
proof -
  from assms consider "unat c = 48 + d" "d < 10" | "unat c = 87 + d" "10 \<le> d" "d < 16"
    | "unat c = 55 + d" "10 \<le> d" "d < 16"
    by (auto simp: hex_val_def word_le_nat_alt split: if_splits)
  then show ?thesis
  proof cases
    case 1
    then show ?thesis
      using of_nat_unat_byte [OF 1(1)] by (simp add: hex_digit_def ascii_lower_def word_le_nat_alt)
  next
    case 2
    then show ?thesis
      using of_nat_unat_byte [OF 2(1)] by (simp add: hex_digit_def ascii_lower_def word_le_nat_alt)
  next
    case 3
    have "65 \<le> c" "c \<le> 90" using 3 by (simp_all add: word_le_nat_alt)
    moreover have "hex_digit d = of_nat (87 + d)" using 3(2) by (simp add: hex_digit_def)
    moreover have "c = of_nat (55 + d)" by (rule of_nat_unat_byte [OF 3(1)])
    ultimately show ?thesis by (simp add: ascii_lower_def)
  qed
qed

lemma radix16_pair:
  assumes "u8_from_str_radix16 [c, d] = Ok b" and "c \<noteq> 43"
  shows "hex_val c = Some (unat b div 16)" and "hex_val d = Some (unat b mod 16)"
proof -
  from assms obtain x y where x: "hex_val c = Some x" and y: "hex_val d = Some y"
    and b: "b = of_nat (x * 16 + y)" and lt: "x * 16 + y < 256"
    by (auto simp: u8_from_str_radix16_def split: option.splits if_splits)
  have "unat b = x * 16 + y" unfolding b by (rule unat_of_nat_u8 [OF lt])
  with x y hex_val_range [OF y] show "hex_val c = Some (unat b div 16)" "hex_val d = Some (unat b mod 16)"
    by simp_all
qed

lemma str_slice_pair:
  assumes "str_slice i (i + 2) s = Ok p"
  obtains c d where "p = [c, d]" and "take 2 (drop i s) = [c, d]"
proof -
  from assms have le: "i + 2 \<le> length s" and p: "p = take 2 (drop i s)"
    by (auto simp: str_slice_def is_char_boundary_def split: if_splits)
  from le have "length (take 2 (drop i s)) = 2" by simp
  then obtain c d where "take 2 (drop i s) = [c, d]"
    by (metis (no_types, lifting) One_nat_def Suc_1 length_0_conv length_Suc_conv)
  with p that show thesis by blast
qed

lemma parse_hex_pairs_canonical:
  assumes "parse_hex_pairs i k s = Ok bs" and "43 \<notin> set s"
  shows "hex_encode bs = map ascii_lower (take (2 * k) (drop (i * 2) s))"
  using assms
proof (induction i k s arbitrary: bs rule: parse_hex_pairs.induct)
  case (2 i k s)
  from "2.prems"(1) obtain p b bs' where p: "str_slice (i * 2) (i * 2 + 2) s = (Ok p :: (hex_error, bytes) res)"
    and b: "u8_from_str_radix16 p = Ok b"
    and r: "parse_hex_pairs (Suc i) k s = Ok bs'" and bs: "bs = b # bs'"
    by (auto simp: bind_res_eq_Ok)
  from p obtain c d where cd: "p = [c, d]" "take 2 (drop (i * 2) s) = [c, d]" by (rule str_slice_pair)
  have "c \<in> set s" by (metis cd(2) in_set_dropD in_set_takeD list.set_intros(1))
  then have "c \<noteq> 43" using "2.prems"(2) by auto
  with b cd(1) radix16_pair [of c d b] hex_digit_hex_val
  have hd: "fmt_hex 2 (unat b) = map ascii_lower [c, d]" by (simp add: fmt_hex_byte)
  have "take (2 * Suc k) (drop (i * 2) s) = [c, d] @ take (2 * k) (drop (Suc i * 2) s)"
    using cd(2) take_add [of 2 "2 * k" "drop (i * 2) s"] by (simp add: add.commute)
  with hd "2.IH" [OF r "2.prems"(2)] bs show ?case by (simp add: hex_encode_Cons)
qed simp

lemma parse_user_id_text:
  assumes "parse_user_id s = Ok uid" and "43 \<notin> set s"
  shows "length uid = USER_ID_LEN \<and> hex_encode uid = canonical_id s"
proof -
  let ?h = "filter (\<lambda>c. c \<noteq> 45) s"
  from assms(1) have l: "length ?h = 32" and p: "parse_hex_pairs 0 USER_ID_LEN ?h = Ok uid"
    by (auto simp: parse_user_id_def Let_def split: if_splits)
  from p assms(2) have "hex_encode uid = map ascii_lower (take (2 * USER_ID_LEN) ?h)"
    using parse_hex_pairs_canonical [OF p] by simp
  with l parse_hex_pairs_length [OF p] show ?thesis by (simp add: USER_ID_LEN_def canonical_id_def)
qed

text \<open>An id the client accepts is sent as the bytes whose lower-case hex text is the
  configured text without its dashes, provided the text has no plus sign (which
  \<^verbatim>\<open>from_str_radix\<close> would skip). So the server recognises it exactly when that
  canonical form is in its list.\<close>

theorem parse_user_id_canonical:
  assumes "parse_user_id s = Ok uid" and "43 \<notin> set s"
  shows "length uid = USER_ID_LEN \<and> hex_encode uid = canonical_id s"
  using assms by (rule parse_user_id_text)

theorem parse_user_id_canonical_witness:
  "hex_encode (replicate 15 0 @ [0x1F]) = canonical_id (lit ''00000000-0000-0000-0000-00000000001F'')"
proof -
  have "parse_user_id (lit ''00000000-0000-0000-0000-00000000001F'') = Ok (replicate 15 0 @ [0x1F])"
    by code_simp
  then show ?thesis
    by (rule conjunct2 [OF parse_user_id_canonical]) (simp add: lit_def)
qed

subsection \<open>When the parser panics\<close>

text \<open>On ASCII text of any length the id parser never panics: it returns an id or an error.\<close>

theorem parse_user_id_ascii_total:
  assumes "is_ascii s"
  shows "parse_user_id s \<noteq> Panic"
proof -
  have "is_ascii (filter (\<lambda>c. c \<noteq> 45) s)" using assms by (simp add: is_ascii_def)
  then show ?thesis by (simp add: parse_user_id_def Let_def parse_hex_pairs_no_panic USER_ID_LEN_def)
qed

theorem parse_user_id_ascii_total_witness: "parse_user_id (lit ''not-an-id'') \<noteq> Panic"
  by (rule parse_user_id_ascii_total) simp

text \<open>
  Off ASCII it can panic: the pairs are cut by byte position, and the cut may fall inside
  a character. Here the text is a letter, fifteen two-byte characters and a letter.
\<close>

lemma parse_user_id_non_ascii_panics:
  "utf8_valid ([97] @ concat (replicate 15 [0xC3, 0xA9]) @ [98]) \<and>
   parse_user_id ([97] @ concat (replicate 15 [0xC3, 0xA9]) @ [98]) = Panic"
  by code_simp

text \<open>The accepted text is wider than hex digits: a plus sign may stand for a leading zero.\<close>

lemma parse_user_id_plus_accepted:
  "parse_user_id (concat (replicate 16 (lit ''+7''))) = Ok (replicate 16 7)"
  by code_simp

end
