(* ===== verification/Protocol.thy ===== *)
theory Protocol
  imports Codecs Environment Hex_Ids
begin

section \<open>ghost-common: addresses, frames, configuration\<close>

text \<open>
  The wire format of ghost-common/src/lib.rs: \<^verbatim>\<open>TargetAddr\<close> and
  \<^verbatim>\<open>GhostFrame\<close> with their encoders and decoders, every error and panic included,
  and the two configuration records with their defaults.
\<close>

subsection \<open>Constants and errors\<close>

definition PROTOCOL_VERSION :: u8 where "PROTOCOL_VERSION = 0x01"
definition MAX_FRAME_SIZE :: nat where "MAX_FRAME_SIZE = 64 * 1024"
definition MAX_PADDING_LEN :: nat where "MAX_PADDING_LEN = 255"
definition ADDR_TYPE_IPV4 :: u8 where "ADDR_TYPE_IPV4 = 0x01"
definition ADDR_TYPE_DOMAIN :: u8 where "ADDR_TYPE_DOMAIN = 0x03"
definition ADDR_TYPE_IPV6 :: u8 where "ADDR_TYPE_IPV6 = 0x04"
definition ADDR_TYPE_NONE :: u8 where "ADDR_TYPE_NONE = 0x00"

lemmas protocol_consts = PROTOCOL_VERSION_def USER_ID_LEN_def MAX_PADDING_LEN_def
  ADDR_TYPE_IPV4_def ADDR_TYPE_DOMAIN_def ADDR_TYPE_IPV6_def ADDR_TYPE_NONE_def

datatype ProtocolError =
    InvalidVersion u8 u8
  | InvalidAddrType u8
  | FrameTooLarge nat nat
  | BufferUnderflow nat nat
  | InvalidDomainLength nat
  | ProtocolIo io_error

subsection \<open>Target addresses\<close>

record SocketAddrV4 =
  v4_ip :: u32
  v4_port :: u16

record SocketAddrV6 =
  v6_ip :: u128
  v6_port :: u16
  v6_flowinfo :: u32
  v6_scope_id :: u32

datatype SocketAddr = V4 SocketAddrV4 | V6 SocketAddrV6

datatype TargetAddr =
    TargetNone
  | IpV4 SocketAddrV4
  | IpV6 SocketAddrV6
  | Domain bytes u16

definition socket_v4 :: "u32 \<Rightarrow> u16 \<Rightarrow> SocketAddrV4" where
  "socket_v4 ip p = \<lparr>v4_ip = ip, v4_port = p\<rparr>"

definition socket_v6 :: "u128 \<Rightarrow> u16 \<Rightarrow> SocketAddrV6" where
  "socket_v6 ip p = \<lparr>v6_ip = ip, v6_port = p, v6_flowinfo = 0, v6_scope_id = 0\<rparr>"

fun TargetAddr_port :: "TargetAddr \<Rightarrow> u16" where
  "TargetAddr_port TargetNone = 0"
| "TargetAddr_port (IpV4 a) = v4_port a"
| "TargetAddr_port (IpV6 a) = v6_port a"
| "TargetAddr_port (Domain d p) = p"

fun TargetAddr_encode :: "TargetAddr \<Rightarrow> (bytes, ProtocolError, unit) stm" where
  "TargetAddr_encode TargetNone = put_u8 ADDR_TYPE_NONE"
| "TargetAddr_encode (IpV4 a) =
     bind (put_u8 ADDR_TYPE_IPV4) (\<lambda>_.
     bind (put_slice (be32 (v4_ip a))) (\<lambda>_.
     put_u16 (v4_port a)))"
| "TargetAddr_encode (IpV6 a) =
     bind (put_u8 ADDR_TYPE_IPV6) (\<lambda>_.
     bind (put_slice (be128 (v6_ip a))) (\<lambda>_.
     put_u16 (v6_port a)))"
| "TargetAddr_encode (Domain d p) =
     bind (put_u8 ADDR_TYPE_DOMAIN) (\<lambda>_.
     if 255 < length d then throw (InvalidDomainLength (length d))
     else
       bind (put_u8 (of_nat (length d))) (\<lambda>_.
       bind (put_slice d) (\<lambda>_.
       put_u16 p)))"

definition TargetAddr_decode :: "(bytes, ProtocolError, TargetAddr) stm" where
  "TargetAddr_decode =
     bind remaining (\<lambda>have.
     if have < 1 then throw (BufferUnderflow 1 0)
     else
       bind get_u8 (\<lambda>addr_type.
       if addr_type = ADDR_TYPE_NONE then ret TargetNone
       else if addr_type = ADDR_TYPE_IPV4 then
         bind remaining (\<lambda>have.
         if have < 4 + 2 then throw (BufferUnderflow 6 have)
         else
           bind (copy_to_bytes 4) (\<lambda>octets.
           bind get_u16 (\<lambda>port.
           ret (IpV4 (socket_v4 (of_be32 octets) port)))))
       else if addr_type = ADDR_TYPE_IPV6 then
         bind remaining (\<lambda>have.
         if have < 16 + 2 then throw (BufferUnderflow 18 have)
         else
           bind (copy_to_bytes 16) (\<lambda>octets.
           bind get_u16 (\<lambda>port.
           ret (IpV6 (socket_v6 (of_be128 octets) port)))))
       else if addr_type = ADDR_TYPE_DOMAIN then
         bind remaining (\<lambda>have.
         if have < 1 then throw (BufferUnderflow 1 0)
         else
           bind get_u8 (\<lambda>len8.
           let domain_len = unat len8 in
           if domain_len = 0 then throw (InvalidDomainLength 0)
           else
             bind remaining (\<lambda>have.
             if have < domain_len + 2 then throw (BufferUnderflow (domain_len + 2) have)
             else
               bind (copy_to_bytes domain_len) (\<lambda>domain_bytes.
               case from_utf8 domain_bytes of
                 None \<Rightarrow> throw (InvalidDomainLength domain_len)
               | Some domain \<Rightarrow>
                   bind get_u16 (\<lambda>port.
                   ret (Domain domain port))))))
       else throw (InvalidAddrType addr_type)))"

fun TargetAddr_encoded_len :: "TargetAddr \<Rightarrow> nat" where
  "TargetAddr_encoded_len TargetNone = 1"
| "TargetAddr_encoded_len (IpV4 a) = 1 + 4 + 2"
| "TargetAddr_encoded_len (IpV6 a) = 1 + 16 + 2"
| "TargetAddr_encoded_len (Domain d p) = 1 + 1 + length d + 2"

fun TargetAddr_from_SocketAddr :: "SocketAddr \<Rightarrow> TargetAddr" where
  "TargetAddr_from_SocketAddr (V4 v4) = IpV4 v4"
| "TargetAddr_from_SocketAddr (V6 v6) = IpV6 v6"

text \<open>The addresses the wire format can carry exactly.\<close>

fun wf_addr :: "TargetAddr \<Rightarrow> bool" where
  "wf_addr TargetNone = True"
| "wf_addr (IpV4 a) = True"
| "wf_addr (IpV6 a) \<longleftrightarrow> v6_flowinfo a = 0 \<and> v6_scope_id a = 0"
| "wf_addr (Domain d p) \<longleftrightarrow> 1 \<le> length d \<and> length d \<le> 255 \<and> utf8_valid d"

text \<open>The bytes an address is written as (nothing for one that is refused).\<close>

fun addr_wire :: "TargetAddr \<Rightarrow> bytes" where
  "addr_wire TargetNone = [ADDR_TYPE_NONE]"
| "addr_wire (IpV4 a) = ADDR_TYPE_IPV4 # be32 (v4_ip a) @ be16 (v4_port a)"
| "addr_wire (IpV6 a) = ADDR_TYPE_IPV6 # be128 (v6_ip a) @ be16 (v6_port a)"
| "addr_wire (Domain d p) = ADDR_TYPE_DOMAIN # of_nat (length d) # d @ be16 p"

definition addr_fits :: "TargetAddr \<Rightarrow> bool" where
  "addr_fits t \<longleftrightarrow> (case t of Domain d p \<Rightarrow> length d \<le> 255 | _ \<Rightarrow> True)"

lemma wf_addr_fits: "wf_addr t \<Longrightarrow> addr_fits t"
  by (cases t) (simp_all add: addr_fits_def)

lemma TargetAddr_encode_fits:
  "addr_fits t \<Longrightarrow> TargetAddr_encode t buf = (Ok (), buf @ addr_wire t)"
  by (cases t) (simp_all add: addr_fits_def bind_def)

lemma TargetAddr_encode_too_long:
  "\<not> addr_fits t \<Longrightarrow> \<exists>n. TargetAddr_encode t buf = (Err (InvalidDomainLength n), buf @ [ADDR_TYPE_DOMAIN]) \<and> 255 < n"
  by (cases t) (simp_all add: addr_fits_def bind_def)

lemma length_addr_wire: "length (addr_wire t) = TargetAddr_encoded_len t"
  by (cases t) simp_all

subsection \<open>Addresses: decoding inverts encoding\<close>

lemma TargetAddr_decode_wire:
  assumes "wf_addr t"
  shows "TargetAddr_decode (addr_wire t @ rest) = (Ok t, rest)"
proof (cases t)
  case TargetNone
  then show ?thesis by (simp add: TargetAddr_decode_def bind_def)
next
  case (IpV4 a)
  then show ?thesis
    by (simp add: TargetAddr_decode_def bind_def protocol_consts socket_v4_def)
next
  case (IpV6 a)
  with assms show ?thesis
    by (simp add: TargetAddr_decode_def bind_def protocol_consts socket_v6_def)
next
  case (Domain d p)
  with assms have "d \<noteq> []" "length d < 256" "utf8_valid d" by auto
  with Domain show ?thesis
    by (simp add: TargetAddr_decode_def bind_def protocol_consts from_utf8_def Let_def)
qed

text \<open>The decoder reads exactly one address from a stream: the interface of a stream code.\<close>

interpretation addr_code: stream_code addr_wire TargetAddr_decode wf_addr
  by unfold_locales (rule TargetAddr_decode_wire)

text \<open>An address within the format's bounds (a domain of 1 to 255 bytes, no IPv6 flow or
  scope id) encodes without error to \<^verbatim>\<open>encoded_len\<close> bytes, and decoding those bytes
  in front of any others gives the address back and leaves exactly the others.\<close>

theorem TargetAddr_roundtrip:
  assumes "wf_addr t"
  shows "\<exists>w. TargetAddr_encode t buf = (Ok (), buf @ w) \<and> length w = TargetAddr_encoded_len t
       \<and> TargetAddr_decode (w @ rest) = (Ok t, rest)"
  using assms TargetAddr_encode_fits [OF wf_addr_fits] length_addr_wire addr_code.dec_enc by blast

theorem TargetAddr_roundtrip_witness:
  "\<exists>w. TargetAddr_encode (Domain (lit ''youtube.com'') 443) [7] = (Ok (), [7] @ w)
     \<and> length w = 15 \<and> TargetAddr_decode (w @ [1, 2]) = (Ok (Domain (lit ''youtube.com'') 443), [1, 2])"
proof -
  have "wf_addr (Domain (lit ''youtube.com'') 443)" by simp
  moreover have "TargetAddr_encoded_len (Domain (lit ''youtube.com'') 443) = 15" by (simp add: lit_def)
  ultimately show ?thesis using TargetAddr_roundtrip by metis
qed

text \<open>
  Out of those bounds the two directions part: an over-long domain is refused (with the type
  byte already written to the buffer), an empty one encodes but is refused by the decoder,
  and the flow and scope ids of an IPv6 address are lost.
\<close>

lemma TargetAddr_empty_domain_asymmetric:
  "\<exists>w. TargetAddr_encode (Domain [] p) [] = (Ok (), w) \<and> fst (TargetAddr_decode w) = Err (InvalidDomainLength 0)"
  by (simp add: TargetAddr_decode_def bind_def protocol_consts)

lemma TargetAddr_v6_loses_scope:
  "\<exists>w. TargetAddr_encode (IpV6 a) [] = (Ok (), w) \<and>
       TargetAddr_decode w = (Ok (IpV6 (a\<lparr>v6_flowinfo := 0, v6_scope_id := 0\<rparr>)), [])"
  by (cases a) (simp add: TargetAddr_decode_def bind_def protocol_consts socket_v6_def)

subsection \<open>Addresses: what a successful decode has read\<close>

lemma byte_list_1: "length xs = 1 \<Longrightarrow> \<exists>x. xs = [x]"
  by (cases xs) auto

lemma of_nat_unat_u8 [simp]: "of_nat (unat (b :: u8)) = b"
  by (metis of_nat_unat ucast_id)

lemma be32_inverse_append: "length x = 4 \<Longrightarrow> be32 (of_be32 x) @ ys = x @ ys"
  by simp

lemma TargetAddr_decode_inverse:
  assumes "TargetAddr_decode b = (Ok t, rest)"
  shows "wf_addr t" and "b = addr_wire t @ rest"
proof -
  from assms obtain ty c where b: "b = ty # c"
    by (cases b) (auto simp: TargetAddr_decode_def)
  consider "ty = ADDR_TYPE_NONE" | "ty = ADDR_TYPE_IPV4" | "ty = ADDR_TYPE_IPV6" | "ty = ADDR_TYPE_DOMAIN"
    using assms b
    by (auto simp: TargetAddr_decode_def bind_def split: if_splits)
  then have "wf_addr t \<and> b = addr_wire t @ rest"
  proof cases
    case 1
    with assms b show ?thesis by (auto simp: TargetAddr_decode_def bind_def)
  next
    case 2
    with assms b have "\<exists>oct p. c = oct @ be16 p @ rest \<and> length oct = 4 \<and> t = IpV4 (socket_v4 (of_be32 oct) p)"
      by (auto simp: TargetAddr_decode_def bind_eq_Ok protocol_consts get_u8_OkD copy_OkD get_u16_OkD
          split: if_splits)
    with b 2 show ?thesis by (auto simp: socket_v4_def)
  next
    case 3
    with assms b have "\<exists>oct p. c = oct @ be16 p @ rest \<and> length oct = 16 \<and> t = IpV6 (socket_v6 (of_be128 oct) p)"
      by (auto simp: TargetAddr_decode_def bind_eq_Ok protocol_consts get_u8_OkD copy_OkD get_u16_OkD
          split: if_splits)
    with b 3 show ?thesis by (auto simp: socket_v6_def)
  next
    case 4
    with assms b have "\<exists>n d p. c = n # d @ be16 p @ rest \<and> length d = unat n \<and> unat n \<noteq> 0 \<and> utf8_valid d \<and> t = Domain d p"
      by (auto simp: TargetAddr_decode_def bind_eq_Ok protocol_consts get_u8_OkD copy_OkD get_u16_OkD
          from_utf8_def Let_def split: if_splits option.splits)
    then obtain n d p where c: "c = n # d @ be16 p @ rest" "length d = unat n" "unat n \<noteq> 0" "utf8_valid d"
      and t: "t = Domain d p" by blast
    have "length d \<le> 255" using unat_byte_lt [of n] c(2) by linarith
    moreover have "of_nat (length d) = n" using c(2) by simp
    ultimately show ?thesis using b c t 4 by (auto simp: Suc_le_eq)
  qed
  then show "wf_addr t" and "b = addr_wire t @ rest" by auto
qed

lemma TargetAddr_decode_OkD: "TargetAddr_decode b = (Ok t, rest) \<longleftrightarrow> wf_addr t \<and> b = addr_wire t @ rest"
  using TargetAddr_decode_inverse TargetAddr_decode_wire by blast

lemma panic_free_TargetAddr_decode [panic_free_intros]: "panic_free TargetAddr_decode b"
  unfolding TargetAddr_decode_def
  by (intro panic_free_intros) (auto simp: remaining_length dest!: get_u8_length copy_length get_u16_length)

subsection \<open>Frames\<close>

record GhostFrame =
  gf_version :: u8
  gf_user_id :: bytes
  gf_target :: TargetAddr
  gf_payload :: bytes
  gf_padding :: bytes

definition GhostFrame_new :: "bytes \<Rightarrow> TargetAddr \<Rightarrow> bytes \<Rightarrow> GhostFrame" where
  "GhostFrame_new user_id target payload =
     \<lparr>gf_version = PROTOCOL_VERSION, gf_user_id = user_id, gf_target = target,
      gf_payload = payload, gf_padding = []\<rparr>"

text \<open>The length of the padding and its bytes are drawn in that order.\<close>

definition with_random_padding :: "'r rng \<Rightarrow> nat \<Rightarrow> GhostFrame \<Rightarrow> 'r \<Rightarrow> GhostFrame \<times> 'r" where
  "with_random_padding R max_len f s =
     (let (pad_len, s1) = rng_range R 0 (min max_len MAX_PADDING_LEN) s;
          (pad, s2) = rng_fill R pad_len s1
      in (f\<lparr>gf_padding := pad\<rparr>, s2))"

text \<open>
  \<^verbatim>\<open>expect\<close> on the address makes its error a panic; the two length fields are the
  casts \<^verbatim>\<open>as u16\<close> and \<^verbatim>\<open>as u8\<close>, which keep the low bits.
\<close>

definition expect_ok :: "('s, 'e, 'a) stm \<Rightarrow> ('s, 'f, 'a) stm" where
  "expect_ok m s = (case m s of (Ok x, t) \<Rightarrow> (Ok x, t) | (_, t) \<Rightarrow> (Panic, t))"

definition GhostFrame_encode :: "GhostFrame \<Rightarrow> ('e, bytes) res" where
  "GhostFrame_encode f =
     (case (bind (put_u8 (gf_version f)) (\<lambda>_.
            bind (put_slice (gf_user_id f)) (\<lambda>_.
            bind (expect_ok (TargetAddr_encode (gf_target f))) (\<lambda>_.
            bind (put_u16 (of_nat (length (gf_payload f)))) (\<lambda>_.
            bind (put_slice (gf_payload f)) (\<lambda>_.
            bind (put_u8 (of_nat (length (gf_padding f)))) (\<lambda>_.
            put_slice (gf_padding f)))))))) [] of
        (r, buf) \<Rightarrow> bind_res r (\<lambda>_. Ok buf))"

definition GhostFrame_decode_m :: "(bytes, ProtocolError, GhostFrame) stm" where
  "GhostFrame_decode_m =
     bind remaining (\<lambda>have.
     if have < 1 then throw (BufferUnderflow 1 0)
     else
       bind get_u8 (\<lambda>version.
       if version \<noteq> PROTOCOL_VERSION then throw (InvalidVersion PROTOCOL_VERSION version)
       else
         bind remaining (\<lambda>have.
         if have < USER_ID_LEN then throw (BufferUnderflow USER_ID_LEN have)
         else
           bind (copy_to_bytes USER_ID_LEN) (\<lambda>user_id.
           bind TargetAddr_decode (\<lambda>target.
           bind remaining (\<lambda>have.
           if have < 2 then throw (BufferUnderflow 2 have)
           else
             bind get_u16 (\<lambda>len16.
             let payload_len = unat len16 in
             bind remaining (\<lambda>have.
             if have < payload_len then throw (BufferUnderflow payload_len have)
             else
               bind (copy_to_bytes payload_len) (\<lambda>payload.
               bind remaining (\<lambda>have.
               if have < 1 then throw (BufferUnderflow 1 have)
               else
                 bind get_u8 (\<lambda>len8.
                 let padding_len = unat len8 in
                 bind remaining (\<lambda>have.
                 bind (if 0 < padding_len \<and> padding_len \<le> have
                       then copy_to_bytes padding_len else ret []) (\<lambda>padding.
                 ret \<lparr>gf_version = version, gf_user_id = user_id, gf_target = target,
                      gf_payload = payload, gf_padding = padding\<rparr>)))))))))))))"

definition GhostFrame_decode :: "bytes \<Rightarrow> (ProtocolError, GhostFrame) res" where
  "GhostFrame_decode buf = fst (GhostFrame_decode_m buf)"

text \<open>Frames the format carries exactly, and the bytes they are written as.\<close>

definition wf_frame :: "GhostFrame \<Rightarrow> bool" where
  "wf_frame f \<longleftrightarrow>
     gf_version f = PROTOCOL_VERSION \<and> length (gf_user_id f) = USER_ID_LEN \<and>
     wf_addr (gf_target f) \<and> length (gf_payload f) < 65536 \<and> length (gf_padding f) < 256"

definition frame_wire :: "GhostFrame \<Rightarrow> bytes" where
  "frame_wire f =
     gf_version f # gf_user_id f @ addr_wire (gf_target f) @ be16 (of_nat (length (gf_payload f)))
       @ gf_payload f @ of_nat (length (gf_padding f)) # gf_padding f"

lemma GhostFrame_encode_fits:
  "addr_fits (gf_target f) \<Longrightarrow> GhostFrame_encode f = Ok (frame_wire f)"
  by (simp add: GhostFrame_encode_def bind_def expect_ok_def TargetAddr_encode_fits frame_wire_def)

lemma GhostFrame_encode_panics:
  "\<not> addr_fits (gf_target f) \<Longrightarrow> GhostFrame_encode f = Panic"
  using TargetAddr_encode_too_long [of "gf_target f" "gf_version f # gf_user_id f"]
  by (auto simp: GhostFrame_encode_def bind_def expect_ok_def)

lemma frame_decode_wire:
  assumes "wf_frame f"
  shows "GhostFrame_decode_m (frame_wire f @ rest) = (Ok f, rest)"
proof -
  have l: "length (gf_user_id f) = 16" "unat (of_nat (length (gf_payload f)) :: u16) = length (gf_payload f)"
    "unat (of_nat (length (gf_padding f)) :: u8) = length (gf_padding f)"
    using assms by (simp_all add: wf_frame_def USER_ID_LEN_def)
  have "(if 0 < length (gf_padding f) \<and> length (gf_padding f) \<le> length (gf_padding f @ rest)
       then copy_to_bytes (length (gf_padding f)) else ret []) (gf_padding f @ rest) =
      ((Ok (gf_padding f), rest) :: (ProtocolError, bytes) res \<times> bytes)"
    by (cases "gf_padding f") (simp_all add: copy_to_bytes_def)
  with assms l show ?thesis
    unfolding wf_frame_def
    by (cases f) (simp add: GhostFrame_decode_m_def bind_def Let_def frame_wire_def protocol_consts
        TargetAddr_decode_wire del: if_split cong: if_cong)
qed

lemma panic_free_GhostFrame_decode: "panic_free GhostFrame_decode_m b"
  unfolding GhostFrame_decode_m_def
  by (intro panic_free_intros) (auto simp: remaining_length dest!: get_u8_length copy_length get_u16_length)

interpretation frame_code: stream_code frame_wire GhostFrame_decode_m wf_frame
  by unfold_locales (rule frame_decode_wire)

text \<open>C12: Encoding a frame within the bounds of the format and decoding the result gives the
  frame back, even with other bytes behind it; so no two such frames have the same bytes.\<close>

theorem GhostFrame_roundtrip:
  assumes "wf_frame f"
  shows "\<exists>w. GhostFrame_encode f = Ok w \<and> GhostFrame_decode (w @ rest) = Ok f"
proof -
  have "addr_fits (gf_target f)" using assms by (simp add: wf_frame_def wf_addr_fits)
  then show ?thesis
    using frame_code.decode_enc [OF assms] by (auto simp: GhostFrame_encode_fits GhostFrame_decode_def)
qed

definition example_frame :: GhostFrame where
  "example_frame =
     (GhostFrame_new (replicate 16 1) (Domain (lit ''example.com'') 443) (lit ''hello world''))
       \<lparr>gf_padding := [9, 9, 9]\<rparr>"

lemma wf_example_frame: "wf_frame example_frame"
  by (simp add: example_frame_def wf_frame_def GhostFrame_new_def protocol_consts)

theorem GhostFrame_roundtrip_witness:
  "\<exists>w. GhostFrame_encode example_frame = Ok w \<and> GhostFrame_decode (w @ [0xFF]) = Ok example_frame"
  by (rule GhostFrame_roundtrip [OF wf_example_frame])

text \<open>Whatever bytes arrive, the frame decoder returns a frame or a protocol error: none of
  its reads runs past the end of the buffer.\<close>

theorem GhostFrame_decode_total: "GhostFrame_decode buf \<noteq> Panic"
  using panic_free_GhostFrame_decode by (simp add: GhostFrame_decode_def panic_free_def)

text \<open>
  The bytes of a frame up to the padding, and what the decoder does with the tail: the
  declared padding when all of it is there, otherwise no padding at all.
\<close>

definition frame_head :: "GhostFrame \<Rightarrow> bytes" where
  "frame_head f =
     gf_version f # gf_user_id f @ addr_wire (gf_target f) @ be16 (of_nat (length (gf_payload f)))
       @ gf_payload f"

lemma frame_wire_head: "frame_wire f = frame_head f @ of_nat (length (gf_padding f)) # gf_padding f"
  by (simp add: frame_wire_def frame_head_def)

lemma GhostFrame_decode_m_inverse:
  assumes "GhostFrame_decode_m b = (Ok f, rest)"
  shows "wf_frame f"
    and "b = frame_wire f @ rest \<or>
         (gf_padding f = [] \<and> (\<exists>n. b = frame_head f @ n # rest \<and> length rest < unat n))"
proof -
  from assms obtain uid t len pay n pad c where
    b: "b = PROTOCOL_VERSION # uid @ addr_wire t @ be16 len @ pay @ n # c"
    and l: "length uid = USER_ID_LEN" "wf_addr t" "length pay = unat len"
    and f: "f = \<lparr>gf_version = PROTOCOL_VERSION, gf_user_id = uid, gf_target = t, gf_payload = pay, gf_padding = pad\<rparr>"
    and pad: "(if 0 < unat n \<and> unat n \<le> length c then copy_to_bytes (unat n) else ret []) c =
        ((Ok pad, rest) :: (ProtocolError, bytes) res \<times> bytes)"
    unfolding GhostFrame_decode_m_def Let_def
    by (clarsimp simp: bind_eq_Ok guard_OkD get_u8_OkD copy_OkD get_u16_OkD TargetAddr_decode_OkD
        split del: if_split)
  have len: "len = of_nat (length pay)" using l(3) by simp
  show "wf_frame f"
    using pad l unat_byte_lt [of n] by (auto simp: wf_frame_def f copy_OkD split: if_splits)
  show "b = frame_wire f @ rest \<or>
      (gf_padding f = [] \<and> (\<exists>n. b = frame_head f @ n # rest \<and> length rest < unat n))"
  proof (cases "0 < unat n \<and> unat n \<le> length c")
    case True
    with pad have "c = pad @ rest" "of_nat (length pad) = n" by (auto simp: copy_OkD)
    then show ?thesis by (simp add: b f frame_wire_def len)
  next
    case False
    with pad have "pad = []" "rest = c" by auto
    moreover have "unat n = 0 \<longrightarrow> n = 0" by (metis unsigned_0 unsigned_word_eqI)
    ultimately show ?thesis using False by (auto simp: b f frame_wire_def frame_head_def len)
  qed
qed

text \<open>C13: What a decoded frame says about the bytes: it is within the bounds of the format, and
  the buffer is its encoding followed by ignored bytes, except that a padding length
  larger than what is left is read as no padding.\<close>

theorem GhostFrame_decode_sound:
  assumes "GhostFrame_decode b = Ok f"
  shows "wf_frame f \<and>
     (\<exists>rest. b = frame_wire f @ rest \<or>
        (gf_padding f = [] \<and> (\<exists>n. b = frame_head f @ n # rest \<and> length rest < unat n)))"
proof -
  from assms obtain rest where "GhostFrame_decode_m b = (Ok f, rest)"
    by (cases "GhostFrame_decode_m b") (simp add: GhostFrame_decode_def)
  from GhostFrame_decode_m_inverse [OF this] show ?thesis by blast
qed

theorem GhostFrame_decode_sound_witness:
  "\<exists>rest. frame_head example_frame @ [200, 1] = frame_wire (example_frame\<lparr>gf_padding := []\<rparr>) @ rest \<or>
     (\<exists>n. frame_head example_frame @ [200, 1] =
            frame_head (example_frame\<lparr>gf_padding := []\<rparr>) @ n # rest \<and> length rest < unat n)"
proof -
  have "GhostFrame_decode (frame_head example_frame @ [200, 1]) = Ok (example_frame\<lparr>gf_padding := []\<rparr>)"
    by code_simp
  from GhostFrame_decode_sound [OF this] show ?thesis by auto
qed

subsection \<open>Random padding\<close>

lemma with_random_padding_shape:
  assumes "rng_ok R" and "with_random_padding R m f s = (g, s')"
  obtains pad where "g = f\<lparr>gf_padding := pad\<rparr>" and "length pad \<le> min m MAX_PADDING_LEN"
proof -
  obtain n s1 pad s2 where n: "rng_range R 0 (min m MAX_PADDING_LEN) s = (n, s1)"
    and pad: "rng_fill R n s1 = (pad, s2)" by (metis surj_pair)
  with assms(2) have "g = f\<lparr>gf_padding := pad\<rparr>" by (simp add: with_random_padding_def)
  moreover have "length pad \<le> min m MAX_PADDING_LEN"
    using rng_ok_range [OF assms(1) _ n] rng_ok_fill [OF assms(1) pad] by simp
  ultimately show thesis by (rule that)
qed

text \<open>Random padding only sets the padding, to at most the configured maximum and at most 255
  bytes, so a padded frame still fits the format and survives the wire.\<close>

theorem with_random_padding_safe:
  assumes "rng_ok R" and "wf_frame f" and "with_random_padding R m f s = (g, s')"
  shows "wf_frame g \<and> length (gf_padding g) \<le> m \<and> f\<lparr>gf_padding := gf_padding g\<rparr> = g"
  using assms(1,3)
proof (rule with_random_padding_shape)
  fix pad assume "g = f\<lparr>gf_padding := pad\<rparr>" and "length pad \<le> min m MAX_PADDING_LEN"
  with assms(2) show ?thesis by (simp add: wf_frame_def MAX_PADDING_LEN_def)
qed

theorem with_random_padding_safe_witness:
  "wf_frame (fst (with_random_padding counter_rng 64 example_frame 5))"
proof -
  obtain g s' where g: "with_random_padding counter_rng 64 example_frame 5 = (g, s')" by fastforce
  from with_random_padding_safe [OF rng_ok_counter wf_example_frame g] g show ?thesis by simp
qed

subsection \<open>Payloads of 64 KiB and more\<close>

text \<open>The payload length field has 16 bits and the encoder casts into it, so a payload of
  65536 bytes (\<^verbatim>\<open>MAX_FRAME_SIZE\<close>) or more is not refused: it is written in full, and
  what the receiver decodes is its first \<open>length mod 65536\<close> bytes.\<close>

theorem GhostFrame_oversize_truncated:
  assumes "length (gf_user_id f) = USER_ID_LEN" and "gf_version f = PROTOCOL_VERSION"
    and "wf_addr (gf_target f)" and "MAX_FRAME_SIZE \<le> length (gf_payload f)"
  shows "\<exists>w g. GhostFrame_encode f = Ok w \<and> GhostFrame_decode w = Ok g \<and>
     gf_payload g = take (length (gf_payload f) mod 65536) (gf_payload f)"
proof -
  let ?n = "length (gf_payload f) mod 65536"
  have n: "?n < length (gf_payload f)"
    using assms(4) by (simp add: MAX_FRAME_SIZE_def less_le_trans [OF mod_less_divisor])
  have len: "unat (of_nat (length (gf_payload f)) :: u16) = ?n"
    by (simp add: unat_of_nat take_bit_eq_mod)
  obtain x ys where xs: "gf_payload f = take ?n (gf_payload f) @ x # ys"
    using n id_take_nth_drop by blast
  have "GhostFrame_encode f = Ok (frame_wire f)"
    using assms(3) by (simp add: GhostFrame_encode_fits wf_addr_fits)
  moreover have "\<exists>g. GhostFrame_decode (frame_wire f) = Ok g \<and> gf_payload g = take ?n (gf_payload f)"
  proof -
    have "frame_wire f = gf_version f # gf_user_id f @ addr_wire (gf_target f) @
        be16 (of_nat (length (gf_payload f))) @ take ?n (gf_payload f) @ x # ys @
        of_nat (length (gf_padding f)) # gf_padding f" (is "_ = _ # _ @ _ @ _ @ ?p @ x # ?tail")
      unfolding frame_wire_def by (subst xs) simp
    moreover have "length (take ?n (gf_payload f)) = ?n" using n by simp
    ultimately show ?thesis
      using assms(1-3) len
      by (simp add: GhostFrame_decode_def GhostFrame_decode_m_def bind_def Let_def protocol_consts
          TargetAddr_decode_wire copy_to_bytes_def)
  qed
  ultimately show ?thesis by blast
qed

theorem GhostFrame_oversize_truncated_witness:
  "\<exists>w g. GhostFrame_encode (GhostFrame_new (replicate 16 0) TargetNone (replicate 65536 7)) = Ok w \<and>
     GhostFrame_decode w = Ok g \<and> gf_payload g = []"
  using GhostFrame_oversize_truncated [of "GhostFrame_new (replicate 16 0) TargetNone (replicate 65536 7)"]
  by (simp add: GhostFrame_new_def USER_ID_LEN_def MAX_FRAME_SIZE_def)

subsection \<open>Configuration\<close>

record ClientConfig =
  cc_socks5_listen :: bytes
  cc_server_addr :: bytes
  cc_user_id :: bytes
  cc_enable_padding :: bool
  cc_enable_fragmentation :: bool
  cc_max_padding_len :: u8
  cc_mask_domain :: bytes
  cc_reality_auth_key :: bytes

definition ClientConfig_default :: ClientConfig where
  "ClientConfig_default =
     \<lparr>cc_socks5_listen = lit ''127.0.0.1:10808'',
      cc_server_addr = lit ''127.0.0.1:443'',
      cc_user_id = lit ''00000000000000000000000000000001'',
      cc_enable_padding = True,
      cc_enable_fragmentation = False,
      cc_max_padding_len = 64,
      cc_mask_domain = lit ''www.apple.com'',
      cc_reality_auth_key = lit ''0000000000000000000000000000000000000000000000000000000000000000''\<rparr>"

record ServerConfig =
  sc_listen_addr :: bytes
  sc_allowed_users :: "bytes list"
  sc_enable_padding :: bool
  sc_max_padding_len :: u8
  sc_enable_reality :: bool
  sc_mask_domain :: bytes
  sc_reality_auth_key :: bytes
  sc_verify_ja4 :: bool
  sc_allowed_ja4 :: "bytes list"

definition ServerConfig_default :: ServerConfig where
  "ServerConfig_default =
     \<lparr>sc_listen_addr = lit ''0.0.0.0:443'',
      sc_allowed_users = [lit ''00000000000000000000000000000001''],
      sc_enable_padding = True,
      sc_max_padding_len = 64,
      sc_enable_reality = False,
      sc_mask_domain = lit ''www.apple.com'',
      sc_reality_auth_key = lit ''0000000000000000000000000000000000000000000000000000000000000000'',
      sc_verify_ja4 = False,
      sc_allowed_ja4 = []\<rparr>"

lemma default_user_parses: "parse_user_id (cc_user_id ClientConfig_default) = Ok (replicate 15 0 @ [1])"
  by code_simp

end
