(* ===== verification/Stealth.thy ===== *)
theory Stealth
  imports Environment
begin

section \<open>ghost-common/stealth: padding and fragmentation\<close>

text \<open>
  ghost-common/src/stealth.rs: the padding strategies with the length they choose and the
  marker they write, the two fragmentation functions, and size normalisation. The lemmas
  bound the padding, say when the marker byte is truthful, and show that fragmenting
  never loses, repeats or reorders a byte and never panics.
\<close>

subsection \<open>Dynamic padding\<close>

datatype PaddingStrategy =
    Fixed nat
  | Random nat nat
  | NormalizeToMultiple nat nat

definition PaddingStrategy_default :: PaddingStrategy where
  "PaddingStrategy_default = Random 0 64"

text \<open>\<^verbatim>\<open>gen_range\<close> panics on an empty range. These operations return no error, so the
  error type of their results is \<open>unit\<close>.\<close>

definition gen_range :: "'r rng \<Rightarrow> nat \<Rightarrow> nat \<Rightarrow> ('r, unit, nat) stm" where
  "gen_range R lo hi s =
     (if hi < lo then (Panic, s) else let (x, t) = rng_range R lo hi s in (Ok x, t))"

text \<open>
  The remainder by a zero \<^verbatim>\<open>multiple\<close> panics; the product with the random factor wraps
  at the width of \<^verbatim>\<open>usize\<close> in a release build.
\<close>

fun calculate_padding_len :: "'r rng \<Rightarrow> nat \<Rightarrow> PaddingStrategy \<Rightarrow> ('r, unit, nat) stm" where
  "calculate_padding_len R data_len (Fixed n) = ret n"
| "calculate_padding_len R data_len (Random lo hi) =
     (let max_val = min hi 255;
          min_val = min lo max_val
      in gen_range R min_val max_val)"
| "calculate_padding_len R data_len (NormalizeToMultiple multiple max_padding) =
     (if multiple = 0 then panic
      else
        let remainder = data_len mod multiple in
        if remainder = 0 then
          bind (gen_range R 0 2) (\<lambda>k.
          let extra = k * multiple mod usize_limit in
          ret (min extra max_padding))
        else
          let needed = multiple - remainder in
          ret (min needed max_padding))"

definition apply_padding :: "'r rng \<Rightarrow> PaddingStrategy \<Rightarrow> bytes \<Rightarrow> ('r, unit, bytes \<times> nat) stm" where
  "apply_padding R strategy buf =
     bind (calculate_padding_len R (length buf) strategy) (\<lambda>pad_len s.
       if 0 < pad_len then
         let (padding, t) = rng_fill R pad_len s
         in (Ok ((buf @ [of_nat pad_len]) @ padding, pad_len), t)
       else (Ok (buf @ [0], pad_len), s))"

lemma gen_range_Ok:
  assumes "rng_ok R" and "lo \<le> hi"
  obtains x t where "gen_range R lo hi s = (Ok x, t)" and "lo \<le> x" and "x \<le> hi"
proof -
  obtain x t where x: "rng_range R lo hi s = (x, t)" by fastforce
  from rng_ok_range [OF assms this] x assms(2) show thesis
    by (intro that [of x t]) (auto simp: gen_range_def)
qed

lemma calculate_random_bounds:
  assumes "rng_ok R"
  obtains n t where "calculate_padding_len R len (Random lo hi) s = (Ok n, t)"
    and "min lo (min hi 255) \<le> n" and "n \<le> min hi 255"
proof -
  have "min lo (min hi 255) \<le> min hi 255" by (rule min.cobounded2)
  then show thesis by (rule gen_range_Ok [OF assms]) (auto intro!: that simp: Let_def)
qed

lemma calculate_normalize:
  assumes "rng_ok R" and "0 < multiple" and "2 * multiple < usize_limit"
  obtains n t where "calculate_padding_len R len (NormalizeToMultiple multiple cap) s = (Ok n, t)"
    and "n \<le> cap" and "n \<le> 2 * multiple" and "n = cap \<or> (len + n) mod multiple = 0"
proof (cases "len mod multiple = 0")
  case True
  obtain k t where k: "gen_range R 0 2 s = (Ok k, t)" "k \<le> 2"
    using gen_range_Ok [OF assms(1), of 0 2 s] by (metis zero_le_numeral)
  have le: "k * multiple \<le> 2 * multiple" using k(2) by (rule mult_le_mono1)
  with assms(3) have "k * multiple mod usize_limit = k * multiple" by (intro mod_less) linarith
  then have c: "calculate_padding_len R len (NormalizeToMultiple multiple cap) s =
      (Ok (min (k * multiple) cap), t)"
    using True assms(2) k(1) by (simp add: bind_def)
  have "min (k * multiple) cap = cap \<or> (len + min (k * multiple) cap) mod multiple = 0"
    using True by (auto simp: min_def)
  moreover have "min (k * multiple) cap \<le> 2 * multiple" using le by (rule min.coboundedI1)
  ultimately show thesis using c by (intro that) auto
next
  case False
  let ?needed = "multiple - len mod multiple"
  have "(len + ?needed) mod multiple = (len mod multiple + ?needed) mod multiple"
    by (simp add: mod_add_left_eq)
  also have "len mod multiple + ?needed = multiple" using assms(2) by simp
  finally have z: "(len + ?needed) mod multiple = 0" by simp
  have "calculate_padding_len R len (NormalizeToMultiple multiple cap) s = (Ok (min ?needed cap), s)"
    using False assms(2) by simp
  moreover have "min ?needed cap = cap \<or> (len + min ?needed cap) mod multiple = 0"
    using z by (auto simp: min_def)
  ultimately show thesis by (intro that) auto
qed

text \<open>Normalising padding, for a non-zero multiple (and no overflow of its double), returns a
  length within the cap that either brings the data to a multiple or is the cap itself.\<close>

theorem normalize_padding_correct:
  assumes "rng_ok R" and "0 < multiple" and "2 * multiple < usize_limit"
  shows "\<exists>n t. calculate_padding_len R len (NormalizeToMultiple multiple cap) s = (Ok n, t) \<and>
           n \<le> cap \<and> n \<le> 2 * multiple \<and> (n = cap \<or> (len + n) mod multiple = 0)"
  using assms calculate_normalize by metis

theorem normalize_padding_correct_witness:
  "\<exists>n t. calculate_padding_len counter_rng 100 (NormalizeToMultiple 16 64) 1 = (Ok n, t) \<and>
     n \<le> 64 \<and> n \<le> 2 * 16 \<and> (n = 64 \<or> (100 + n) mod 16 = 0)"
  by (rule normalize_padding_correct [OF rng_ok_counter]) simp_all

text \<open>A zero multiple is not rejected: the length computation panics.\<close>

lemma normalize_zero_multiple_panics:
  "fst (calculate_padding_len R len (NormalizeToMultiple 0 cap) s) = Panic"
  by simp

text \<open>What \<open>apply_padding\<close> leaves in the buffer.\<close>

lemma apply_padding_shape:
  assumes "rng_ok R" and "calculate_padding_len R (length buf) strategy s = (Ok n, t)"
  obtains pad t' where
    "apply_padding R strategy buf s = (Ok (buf @ of_nat n # pad, n), t')"
    and "length pad = n"
proof (cases "n = 0")
  case True
  with assms(2) show thesis by (intro that [of "[]" t]) (auto simp: apply_padding_def bind_def)
next
  case False
  obtain pad t' where p: "rng_fill R n t = (pad, t')" by fastforce
  with False assms(2) rng_ok_fill [OF assms(1) p] show thesis
    by (intro that [of pad t']) (auto simp: apply_padding_def bind_def)
qed

text \<open>With the random strategy the padding is always at most 255 bytes, and the buffer gains
  exactly a marker byte holding that length and the padding after it, so a reader can
  strip it.\<close>

theorem apply_random_padding_readable:
  assumes "rng_ok R"
  shows "\<exists>n pad t. apply_padding R (Random lo hi) buf s = (Ok (buf @ of_nat n # pad, n), t) \<and>
           length pad = n \<and> unat (of_nat n :: u8) = n \<and> n \<le> hi"
proof -
  obtain n t where c: "calculate_padding_len R (length buf) (Random lo hi) s = (Ok n, t)"
    and n: "n \<le> min hi 255"
    using calculate_random_bounds [OF assms] by metis
  from n have "unat (of_nat n :: u8) = n" by simp
  with n show ?thesis by (rule_tac apply_padding_shape [OF assms c]) auto
qed

theorem apply_random_padding_readable_witness:
  "\<exists>n pad t. apply_padding counter_rng (Random 10 50) [1, 2, 3] 4 = (Ok ([1, 2, 3] @ of_nat n # pad, n), t) \<and>
     length pad = n \<and> unat (of_nat n :: u8) = n \<and> n \<le> 50"
  by (rule apply_random_padding_readable [OF rng_ok_counter])

text \<open>The other strategies are not capped at a byte: for a fixed length of 256 or more the
  marker is the length modulo 256, so it does not give the padding that follows.\<close>

theorem fixed_padding_marker_wraps:
  assumes "rng_ok R" and "256 \<le> n"
  shows "\<exists>m pad t. apply_padding R (Fixed n) buf s = (Ok (buf @ m # pad, n), t) \<and>
           length pad = n \<and> unat m = n mod 256 \<and> unat m < length pad"
proof -
  have "calculate_padding_len R (length buf) (Fixed n) s = (Ok n, s)" by simp
  from apply_padding_shape [OF assms(1) this] obtain pad t where
    "apply_padding R (Fixed n) buf s = (Ok (buf @ of_nat n # pad, n), t)" "length pad = n" .
  moreover have "n mod 256 < n" using assms(2) by (intro less_le_trans [OF mod_less_divisor]) simp_all
  ultimately show ?thesis by (auto simp: unat_of_nat_byte)
qed

theorem fixed_padding_marker_wraps_witness:
  "\<exists>m pad t. apply_padding counter_rng (Fixed 300) [] 0 = (Ok ([] @ m # pad, 300), t) \<and>
     length pad = 300 \<and> unat m = 300 mod 256 \<and> unat m < length pad"
  by (rule fixed_padding_marker_wraps [OF rng_ok_counter]) simp

subsection \<open>TCP fragmentation\<close>

record FragmentationConfig =
  fc_enabled :: bool
  fc_first_fragment_size :: nat
  fc_inter_fragment_delay_ms :: nat
  fc_first_packet_only :: bool

definition FragmentationConfig_default :: FragmentationConfig where
  "FragmentationConfig_default =
     \<lparr>fc_enabled = False, fc_first_fragment_size = 2, fc_inter_fragment_delay_ms = 0,
      fc_first_packet_only = True\<rparr>"

record FragmentedData =
  fd_fragments :: "bytes list"
  fd_inter_delay_ms :: nat

text \<open>\<^verbatim>\<open>&data[..n]\<close> and \<^verbatim>\<open>&data[n..]\<close> panic when \<open>n\<close> is past the end.\<close>

definition slice_to :: "nat \<Rightarrow> bytes \<Rightarrow> (unit, bytes) res" where
  "slice_to n data = (if n \<le> length data then Ok (take n data) else Panic)"

definition slice_from :: "nat \<Rightarrow> bytes \<Rightarrow> (unit, bytes) res" where
  "slice_from n data = (if n \<le> length data then Ok (drop n data) else Panic)"

definition fragment_data :: "bytes \<Rightarrow> FragmentationConfig \<Rightarrow> (unit, FragmentedData) res" where
  "fragment_data data config =
     (if \<not> fc_enabled config \<or> length data \<le> fc_first_fragment_size config then
        Ok \<lparr>fd_fragments = [data], fd_inter_delay_ms = 0\<rparr>
      else
        let split_point = min (fc_first_fragment_size config) (length data) in
        bind_res (slice_to split_point data) (\<lambda>first.
        bind_res (slice_from split_point data) (\<lambda>second.
        Ok \<lparr>fd_fragments = [first, second],
            fd_inter_delay_ms = fc_inter_fragment_delay_ms config\<rparr>)))"

definition fragment_tls_client_hello :: "bytes \<Rightarrow> FragmentationConfig \<Rightarrow> (unit, FragmentedData) res" where
  "fragment_tls_client_hello data config =
     (if \<not> fc_enabled config \<or> length data < 5 then
        Ok \<lparr>fd_fragments = [data], fd_inter_delay_ms = 0\<rparr>
      else if data ! 0 \<noteq> 0x16 then fragment_data data config
      else
        let split_point = max (min (fc_first_fragment_size config) 4) 2 in
        bind_res (slice_to split_point data) (\<lambda>first.
        bind_res (slice_from split_point data) (\<lambda>second.
        Ok \<lparr>fd_fragments = [first, second],
            fd_inter_delay_ms = fc_inter_fragment_delay_ms config\<rparr>)))"

text \<open>A correct fragmentation: the pieces, in order, are the data.\<close>

definition fragments_of :: "bytes \<Rightarrow> FragmentedData \<Rightarrow> bool" where
  "fragments_of data d \<longleftrightarrow> concat (fd_fragments d) = data \<and> length (fd_fragments d) \<in> {1, 2}"

lemma fragment_data_fragments: "\<exists>d. fragment_data data config = Ok d \<and> fragments_of data d"
  by (simp add: fragment_data_def fragments_of_def slice_to_def slice_from_def Let_def)

text \<open>Fragmenting a ClientHello never panics and never loses, repeats or reorders a byte:
  for every configuration the pieces, in order, are the data.\<close>

theorem fragment_tls_client_hello_correct:
  "\<exists>d. fragment_tls_client_hello data config = Ok d \<and> fragments_of data d"
  using fragment_data_fragments [of data config]
  by (auto simp: fragment_tls_client_hello_def fragments_of_def slice_to_def slice_from_def Let_def)

text \<open>When fragmentation is on, every TLS handshake record is cut inside its five-byte record
  header: the first piece has two to four bytes and the second is not empty.\<close>

theorem fragment_tls_splits_header:
  assumes "fc_enabled config" and "5 \<le> length data" and "hd data = 0x16"
  shows "\<exists>a b d. fragment_tls_client_hello data config = Ok d \<and> fd_fragments d = [a, b] \<and>
           2 \<le> length a \<and> length a \<le> 4 \<and> b \<noteq> [] \<and> a @ b = data"
proof -
  define n where "n = max (min (fc_first_fragment_size config) 4) 2"
  have n: "2 \<le> n" "n \<le> 4" by (auto simp: n_def)
  have "data ! 0 = 0x16" using assms(2,3) by (cases data) auto
  with assms(1,2) n(2) have "fragment_tls_client_hello data config =
      Ok \<lparr>fd_fragments = [take n data, drop n data], fd_inter_delay_ms = fc_inter_fragment_delay_ms config\<rparr>"
    unfolding fragment_tls_client_hello_def n_def [symmetric]
    by (simp add: slice_to_def slice_from_def)
  with n assms(2) show ?thesis by simp
qed

theorem fragment_tls_splits_header_witness:
  "\<exists>a b d. fragment_tls_client_hello (0x16 # replicate 130 0)
        (FragmentationConfig_default\<lparr>fc_enabled := True, fc_first_fragment_size := 100\<rparr>) = Ok d \<and>
     fd_fragments d = [a, b] \<and> 2 \<le> length a \<and> length a \<le> 4 \<and> b \<noteq> [] \<and> a @ b = 0x16 # replicate 130 0"
  by (rule fragment_tls_splits_header) (simp_all add: FragmentationConfig_default_def)

text \<open>
  The general rule, applied to other data, has no such minimum: a first-fragment size of zero
  produces an empty first piece.
\<close>

lemma fragment_data_empty_first:
  "fc_enabled config \<Longrightarrow> fc_first_fragment_size config = 0 \<Longrightarrow> data \<noteq> [] \<Longrightarrow>
   \<exists>d. fragment_data data config = Ok d \<and> fd_fragments d = [[], data]"
  by (simp add: fragment_data_def slice_to_def slice_from_def)

subsection \<open>Size normalisation\<close>

definition normalize_packet_size :: "'r rng \<Rightarrow> nat \<Rightarrow> bytes \<Rightarrow> 'r \<Rightarrow> bytes \<times> 'r" where
  "normalize_packet_size R target data s =
     (if target \<le> length data then (data, s)
      else
        let padding_needed = target - length data;
            (padding, t) = rng_fill R padding_needed s
        in (data @ padding, t))"

lemma normalize_packet_size_length:
  assumes "rng_ok R"
  shows "length (fst (normalize_packet_size R n data s)) = max n (length data)"
    and "take (length data) (fst (normalize_packet_size R n data s)) = data"
proof -
  obtain p t where p: "rng_fill R (n - length data) s = (p, t)" by fastforce
  from rng_ok_fill [OF assms p] p
  show "length (fst (normalize_packet_size R n data s)) = max n (length data)"
    and "take (length data) (fst (normalize_packet_size R n data s)) = data"
    by (auto simp: normalize_packet_size_def max_def)
qed

end
