(* ===== verification/Crypto.thy ===== *)
theory Crypto
  imports Environment Rust_Text
begin

section \<open>ghost-crypto: the frame cipher and key derivation\<close>

text \<open>
  ghost-crypto/src/lib.rs. The AEAD cipher (ChaCha20-Poly1305) and HKDF are libraries: they
  are the arguments \<open>aead\<close> and \<open>hkdf\<close> of the definitions, and \<open>aead_ok\<close>, \<open>hkdf_ok\<close>
  state what their documentation promises. \<open>GhostCipher\<close> puts a fresh nonce in front of
  the ciphertext. What its users need of it is the locale \<open>frame_cipher\<close>.
\<close>

definition KEY_SIZE :: nat where "KEY_SIZE = 32"
definition NONCE_SIZE :: nat where "NONCE_SIZE = 12"
definition TAG_SIZE :: nat where "TAG_SIZE = 16"

lemmas crypto_sizes = KEY_SIZE_def NONCE_SIZE_def TAG_SIZE_def

subsection \<open>The libraries\<close>

record aead =
  aead_seal :: "bytes \<Rightarrow> bytes \<Rightarrow> bytes \<Rightarrow> bytes option"
  aead_open :: "bytes \<Rightarrow> bytes \<Rightarrow> bytes \<Rightarrow> bytes option"
  aead_error_text :: bytes

text \<open>
  For keys of 32 and nonces of 12 bytes: sealing works for data below the documented limit and
  adds a 16-byte tag; opening returns what was sealed, and accepts nothing that sealing
  under this key and nonce does not produce.
\<close>

definition aead_ok :: "aead \<Rightarrow> bool" where
  "aead_ok A \<longleftrightarrow>
     (\<forall>k n p. length k = KEY_SIZE \<and> length n = NONCE_SIZE \<longrightarrow>
        (length p < 2 ^ 32 \<longrightarrow> aead_seal A k n p \<noteq> None) \<and>
        (\<forall>c. aead_seal A k n p = Some c \<longleftrightarrow> aead_open A k n c = Some p) \<and>
        (\<forall>c. aead_seal A k n p = Some c \<longrightarrow> length c = length p + TAG_SIZE))"

type_synonym hkdf = "bytes \<Rightarrow> bytes \<Rightarrow> bytes \<Rightarrow> nat \<Rightarrow> bytes option"

definition hkdf_ok :: "hkdf \<Rightarrow> bool" where
  "hkdf_ok H \<longleftrightarrow> (\<forall>salt ikm info n. n \<le> 255 * 32 \<longrightarrow> (\<exists>k. H salt ikm info n = Some k \<and> length k = n))"

text \<open>A concrete cipher and derivation function for closed instances (of no strength).\<close>

definition plain_aead :: aead where
  "plain_aead =
     \<lparr>aead_seal = (\<lambda>k n p. Some (p @ take TAG_SIZE k)),
      aead_open = (\<lambda>k n c.
        if drop (length c - TAG_SIZE) c = take TAG_SIZE k \<and> TAG_SIZE \<le> length c
        then Some (take (length c - TAG_SIZE) c) else None),
      aead_error_text = lit ''aead::Error''\<rparr>"

definition plain_hkdf :: hkdf where
  "plain_hkdf salt ikm info n = Some (take n (ikm @ replicate n 0))"

lemma aead_ok_plain: "aead_ok plain_aead"
  by (auto simp: aead_ok_def plain_aead_def crypto_sizes) (metis append_take_drop_id)

lemma hkdf_ok_plain: "hkdf_ok plain_hkdf"
  by (auto simp: hkdf_ok_def plain_hkdf_def)

subsection \<open>GhostCipher\<close>

datatype CryptoError =
    EncryptionFailed bytes
  | DecryptionFailed bytes
  | InvalidKeyLength nat

record GhostCipher =
  gc_aead :: aead
  gc_key :: bytes

definition GhostCipher_new :: "aead \<Rightarrow> bytes \<Rightarrow> (CryptoError, GhostCipher) res" where
  "GhostCipher_new A key =
     (if length key \<noteq> KEY_SIZE then Err (InvalidKeyLength (length key))
      else Ok \<lparr>gc_aead = A, gc_key = key\<rparr>)"

definition GhostCipher_generate_key :: "'r rng \<Rightarrow> 'r \<Rightarrow> bytes \<times> 'r" where
  "GhostCipher_generate_key R s = rng_fill R KEY_SIZE s"

definition GhostCipher_encrypt :: "'r rng \<Rightarrow> GhostCipher \<Rightarrow> bytes \<Rightarrow> ('r, CryptoError, bytes) stm" where
  "GhostCipher_encrypt R c plaintext s =
     (let (nonce, t) = rng_fill R NONCE_SIZE s in
      case aead_seal (gc_aead c) (gc_key c) nonce plaintext of
        None \<Rightarrow> (Err (EncryptionFailed (aead_error_text (gc_aead c))), t)
      | Some ciphertext \<Rightarrow> (Ok (nonce @ ciphertext), t))"

definition GhostCipher_decrypt :: "GhostCipher \<Rightarrow> bytes \<Rightarrow> (CryptoError, bytes) res" where
  "GhostCipher_decrypt c data =
     (if length data < NONCE_SIZE + TAG_SIZE then Err (DecryptionFailed (lit ''data too short''))
      else
        let nonce = take NONCE_SIZE data;
            ciphertext = drop NONCE_SIZE data
        in case aead_open (gc_aead c) (gc_key c) nonce ciphertext of
             None \<Rightarrow> Err (DecryptionFailed (aead_error_text (gc_aead c)))
           | Some plaintext \<Rightarrow> Ok plaintext)"

definition GhostCipher_encrypted_size :: "nat \<Rightarrow> nat" where
  "GhostCipher_encrypted_size plaintext_len = NONCE_SIZE + plaintext_len + TAG_SIZE"

definition derive_key :: "hkdf \<Rightarrow> bytes \<Rightarrow> bytes \<Rightarrow> ('e, bytes) res" where
  "derive_key H user_id secret =
     (let salt = secret; ikm = user_id in
      case H salt ikm (lit ''ghost-v1'') KEY_SIZE of
        None \<Rightarrow> Panic
      | Some key \<Rightarrow> Ok key)"

text \<open>The ciphers that \<open>GhostCipher_new\<close> returns, over a sound library.\<close>

definition cipher_ok :: "GhostCipher \<Rightarrow> bool" where
  "cipher_ok c \<longleftrightarrow> aead_ok (gc_aead c) \<and> length (gc_key c) = KEY_SIZE"

lemma GhostCipher_new_ok: "GhostCipher_new A key = Ok c \<Longrightarrow> aead_ok A \<Longrightarrow> cipher_ok c"
  by (auto simp: GhostCipher_new_def cipher_ok_def split: if_splits)

lemma derive_key_length:
  assumes "hkdf_ok H"
  obtains k where "derive_key H uid secret = Ok k" and "length k = KEY_SIZE"
proof -
  have "KEY_SIZE \<le> 255 * 32" by (simp add: KEY_SIZE_def)
  with assms obtain k where "H secret uid (lit ''ghost-v1'') KEY_SIZE = Some k" "length k = KEY_SIZE"
    unfolding hkdf_ok_def by blast
  then show thesis by (intro that [of k]) (simp_all add: derive_key_def)
qed

lemma GhostCipher_new_derived:
  assumes "hkdf_ok H" and "derive_key H uid secret = (Ok k :: ('a, bytes) res)"
  shows "GhostCipher_new A k = Ok \<lparr>gc_aead = A, gc_key = k\<rparr>"
proof -
  obtain k' where "derive_key H uid secret = (Ok k' :: ('a, bytes) res)" "length k' = KEY_SIZE"
    using assms(1) by (rule derive_key_length)
  with assms(2) show ?thesis by (simp add: GhostCipher_new_def)
qed

lemma aead_open_iff:
  "aead_ok A \<Longrightarrow> length k = KEY_SIZE \<Longrightarrow> length n = NONCE_SIZE \<Longrightarrow>
   aead_open A k n c = Some p \<longleftrightarrow> aead_seal A k n p = Some c"
  by (metis aead_ok_def)

lemma aead_seal_length:
  "aead_ok A \<Longrightarrow> length k = KEY_SIZE \<Longrightarrow> length n = NONCE_SIZE \<Longrightarrow>
   aead_seal A k n p = Some c \<Longrightarrow> length c = length p + TAG_SIZE"
  by (metis aead_ok_def)

lemma aead_seal_total:
  "aead_ok A \<Longrightarrow> length k = KEY_SIZE \<Longrightarrow> length n = NONCE_SIZE \<Longrightarrow> length p < 2 ^ 32 \<Longrightarrow>
   \<exists>c. aead_seal A k n p = Some c"
  by (metis aead_ok_def not_Some_eq)

subsection \<open>The interface of a frame cipher\<close>

text \<open>
  What the tunnel and the server rely on: sealing data of a bounded size succeeds, adds a
  constant number of bytes, and is undone by opening; and only sealed data opens.
\<close>

locale frame_cipher =
  fixes good :: "'c \<Rightarrow> bool"
    and seal :: "'c \<Rightarrow> bytes \<Rightarrow> ('r, 'e, bytes) stm"
    and unseal :: "'c \<Rightarrow> bytes \<Rightarrow> ('e, bytes) res"
    and overhead :: nat
    and limit :: nat
  assumes seal_total: "good c \<Longrightarrow> length p < limit \<Longrightarrow> \<exists>d t. seal c p s = (Ok d, t)"
    and unseal_seal: "good c \<Longrightarrow> seal c p s = (Ok d, t) \<Longrightarrow> unseal c d = Ok p"
    and seal_length: "good c \<Longrightarrow> seal c p s = (Ok d, t) \<Longrightarrow> length d = length p + overhead"
    and unseal_length: "good c \<Longrightarrow> unseal c d = Ok p \<Longrightarrow> length d = length p + overhead"
begin

lemma seal_open:
  assumes "good c" and "length p < limit"
  obtains d t where "seal c p s = (Ok d, t)" and "unseal c d = Ok p" and "length d = length p + overhead"
  using seal_total [OF assms, of s] unseal_seal [OF assms(1)] seal_length [OF assms(1)] by blast

lemma seal_injective:
  assumes "good c" and "seal c p s = (Ok d, t)" and "seal c q u = (Ok d, v)"
  shows "p = q"
  using unseal_seal [OF assms(1,2)] unseal_seal [OF assms(1,3)] by simp

lemma unseal_short: "good c \<Longrightarrow> length d < overhead \<Longrightarrow> unseal c d \<noteq> Ok p"
  using unseal_length by fastforce

end

lemma GhostCipher_encrypt_Ok:
  assumes "rng_ok R" and "GhostCipher_encrypt R c p s = (Ok d, t)"
  obtains n ct where "d = n @ ct" and "length n = NONCE_SIZE"
    and "aead_seal (gc_aead c) (gc_key c) n p = Some ct" and "rng_fill R NONCE_SIZE s = (n, t)"
proof -
  obtain n t' where n: "rng_fill R NONCE_SIZE s = (n, t')" by fastforce
  from n assms(2) obtain ct where "aead_seal (gc_aead c) (gc_key c) n p = Some ct" "d = n @ ct" "t' = t"
    by (auto simp: GhostCipher_encrypt_def split: option.splits)
  with n rng_ok_fill [OF assms(1) n] show thesis by (intro that) auto
qed

interpretation ghost_cipher:
  frame_cipher "\<lambda>c. rng_ok R \<and> cipher_ok c" "GhostCipher_encrypt R" GhostCipher_decrypt
    "NONCE_SIZE + TAG_SIZE" "2 ^ 32" for R
proof unfold_locales
  fix c p s
  assume g: "rng_ok R \<and> cipher_ok c" and l: "length (p :: bytes) < 2 ^ 32"
  obtain n t where n: "rng_fill R NONCE_SIZE s = (n, t)" by fastforce
  with g l aead_seal_total [of "gc_aead c" "gc_key c" n p] rng_ok_fill [of R NONCE_SIZE s n t]
  show "\<exists>d t. GhostCipher_encrypt R c p s = (Ok d, t)"
    by (auto simp: GhostCipher_encrypt_def cipher_ok_def)
next
  fix c p s d t
  assume g: "rng_ok R \<and> cipher_ok c" and e: "GhostCipher_encrypt R c p s = (Ok d, t)"
  from g have "rng_ok R" by simp
  then obtain n ct where d: "d = n @ ct" "length n = NONCE_SIZE" "aead_seal (gc_aead c) (gc_key c) n p = Some ct"
    using e by (rule GhostCipher_encrypt_Ok)
  with g aead_seal_length [of "gc_aead c" "gc_key c" n p ct] aead_open_iff [of "gc_aead c" "gc_key c" n ct p]
  show "GhostCipher_decrypt c d = Ok p" and "length d = length p + (NONCE_SIZE + TAG_SIZE)"
    by (auto simp: GhostCipher_decrypt_def cipher_ok_def)
next
  fix c d p
  assume g: "rng_ok R \<and> cipher_ok c" and e: "GhostCipher_decrypt c d = Ok p"
  from e have l: "NONCE_SIZE + TAG_SIZE \<le> length d"
    and o: "aead_open (gc_aead c) (gc_key c) (take NONCE_SIZE d) (drop NONCE_SIZE d) = Some p"
    by (auto simp: GhostCipher_decrypt_def Let_def split: if_splits option.splits)
  have n: "length (take NONCE_SIZE d) = NONCE_SIZE" using l by simp
  from g n o have "aead_seal (gc_aead c) (gc_key c) (take NONCE_SIZE d) p = Some (drop NONCE_SIZE d)"
    using aead_open_iff by (simp add: cipher_ok_def)
  from aead_seal_length [OF _ _ n this] g l show "length d = length p + (NONCE_SIZE + TAG_SIZE)"
    by (simp add: cipher_ok_def)
qed

subsection \<open>Properties\<close>

text \<open>What a cipher encrypts it decrypts: the result has the advertised size, starts with the
  12-byte nonce drawn for it, and decrypting it returns the plaintext.\<close>

theorem GhostCipher_roundtrip:
  assumes "rng_ok R" and "cipher_ok c" and "length p < 2 ^ 32"
  shows "\<exists>d t. GhostCipher_encrypt R c p s = (Ok d, t) \<and> GhostCipher_decrypt c d = Ok p \<and>
           length d = GhostCipher_encrypted_size (length p) \<and>
           take NONCE_SIZE d = fst (rng_fill R NONCE_SIZE s)"
proof -
  have g: "rng_ok R \<and> cipher_ok c" using assms by simp
  obtain d t where d: "GhostCipher_encrypt R c p s = (Ok d, t)" "GhostCipher_decrypt c d = Ok p"
    "length d = length p + (NONCE_SIZE + TAG_SIZE)"
    by (rule ghost_cipher.seal_open [OF g assms(3)])
  obtain n ct where "d = n @ ct" "length n = NONCE_SIZE" "rng_fill R NONCE_SIZE s = (n, t)"
    by (rule GhostCipher_encrypt_Ok [OF assms(1) d(1)])
  with d show ?thesis by (auto simp: GhostCipher_encrypted_size_def)
qed

definition example_cipher :: GhostCipher where
  "example_cipher = \<lparr>gc_aead = plain_aead, gc_key = replicate 32 7\<rparr>"

lemma cipher_ok_example: "cipher_ok example_cipher"
  by (simp add: cipher_ok_def example_cipher_def aead_ok_plain KEY_SIZE_def)

theorem GhostCipher_roundtrip_witness:
  "\<exists>d t. GhostCipher_encrypt counter_rng example_cipher (lit ''hi'') 3 = (Ok d, t) \<and>
     GhostCipher_decrypt example_cipher d = Ok (lit ''hi'') \<and>
     length d = GhostCipher_encrypted_size (length (lit ''hi'')) \<and>
     take NONCE_SIZE d = fst (rng_fill counter_rng NONCE_SIZE 3)"
  by (rule GhostCipher_roundtrip [OF rng_ok_counter cipher_ok_example]) (simp add: lit_def)

lemma decrypt_sealed:
  assumes "cipher_ok c" and "GhostCipher_decrypt c d = Ok p"
  shows "\<exists>n ct. d = n @ ct \<and> length n = NONCE_SIZE \<and> aead_seal (gc_aead c) (gc_key c) n p = Some ct"
proof -
  from assms(2) have l: "NONCE_SIZE \<le> length d"
    and o: "aead_open (gc_aead c) (gc_key c) (take NONCE_SIZE d) (drop NONCE_SIZE d) = Some p"
    by (auto simp: GhostCipher_decrypt_def Let_def split: if_splits option.splits)
  have n: "length (take NONCE_SIZE d) = NONCE_SIZE" using l by simp
  from o assms(1) aead_open_iff [OF _ _ n] show ?thesis
    using n by (intro exI [of _ "take NONCE_SIZE d"] exI [of _ "drop NONCE_SIZE d"]) (simp add: cipher_ok_def)
qed

text \<open>Decryption accepts nothing but what encryption produces: it never panics, data shorter
  than a nonce and a tag is refused, and data that decrypts is a nonce followed by the sealing
  of exactly the plaintext returned.\<close>

theorem GhostCipher_decrypt_authentic:
  assumes "cipher_ok c"
  shows "GhostCipher_decrypt c d \<noteq> Panic \<and>
    (\<forall>p. GhostCipher_decrypt c d = Ok p \<longleftrightarrow>
      (\<exists>n ct. d = n @ ct \<and> length n = NONCE_SIZE \<and> aead_seal (gc_aead c) (gc_key c) n p = Some ct))"
proof (intro conjI allI iffI)
  show "GhostCipher_decrypt c d \<noteq> Panic"
    by (auto simp: GhostCipher_decrypt_def Let_def split: option.splits)
next
  fix p assume "GhostCipher_decrypt c d = Ok p"
  with assms show "\<exists>n ct. d = n @ ct \<and> length n = NONCE_SIZE \<and> aead_seal (gc_aead c) (gc_key c) n p = Some ct"
    by (rule decrypt_sealed)
next
  fix p assume "\<exists>n ct. d = n @ ct \<and> length n = NONCE_SIZE \<and> aead_seal (gc_aead c) (gc_key c) n p = Some ct"
  then obtain n ct where d: "d = n @ ct" "length n = NONCE_SIZE"
    and s: "aead_seal (gc_aead c) (gc_key c) n p = Some ct" by blast
  have k: "aead_ok (gc_aead c)" "length (gc_key c) = KEY_SIZE" using assms by (simp_all add: cipher_ok_def)
  have "aead_open (gc_aead c) (gc_key c) n ct = Some p" using s by (simp only: aead_open_iff [OF k d(2)])
  with aead_seal_length [OF k d(2) s] d
  show "GhostCipher_decrypt c d = Ok p" by (simp add: GhostCipher_decrypt_def)
qed

theorem GhostCipher_decrypt_authentic_witness:
  "GhostCipher_decrypt example_cipher (replicate 30 0) \<noteq> Panic \<and>
   (\<forall>p. GhostCipher_decrypt example_cipher (replicate 30 0) = Ok p \<longleftrightarrow>
     (\<exists>n ct. replicate 30 0 = n @ ct \<and> length n = NONCE_SIZE \<and>
        aead_seal (gc_aead example_cipher) (gc_key example_cipher) n p = Some ct))"
  by (rule GhostCipher_decrypt_authentic [OF cipher_ok_example])

end
