(* ===== verification/Ja4.thy ===== *)
theory Ja4
  imports Rust_Text "HOL-Library.Multiset"
begin

section \<open>ghost-reality/ja4: TLS fingerprints\<close>

text \<open>
  ghost-reality/src/ja4.rs: the two browser profiles, the fingerprint computed from a profile
  (with its FNV-1a hash), the one extracted from a ClientHello, the check against a list
  of allowed fingerprints, and the database of known ones. The TLS parser is a library:
  it is an argument, giving the handshake messages of a record. The lemmas show what the
  fingerprint depends on and its shape, that the two profiles are told apart, and that the
  two ways to compute a fingerprint never agree on a known browser.
\<close>

record Ja4Profile =
  ja_name :: bytes
  ja_version :: bytes
  ja_cipher_suites :: "u16 list"
  ja_extensions :: "u16 list"
  ja_supported_groups :: "u16 list"
  ja_signature_algorithms :: "u16 list"
  ja_alpn :: "bytes list"
  ja_tls_version :: u16

definition chrome_131_profile :: Ja4Profile where
  "chrome_131_profile =
     \<lparr>ja_name = lit ''Chrome'',
      ja_version = lit ''131'',
      ja_cipher_suites =
        [0x1301, 0x1302, 0x1303, 0xC02B, 0xC02F, 0xC02C, 0xC030, 0xCCA9, 0xCCA8, 0xC013, 0xC014,
         0x009C, 0x009D, 0x002F, 0x0035],
      ja_extensions =
        [0x0000, 0x0010, 0x0017, 0x001B, 0x0033, 0x002B, 0x002D, 0x0039, 0x000D, 0x000B, 0x000A,
         0x0015, 0xFF01, 0x0012],
      ja_supported_groups = [0x001D, 0x0017, 0x0018, 0x0019, 0x0100, 0x0101],
      ja_signature_algorithms =
        [0x0403, 0x0503, 0x0603, 0x0804, 0x0805, 0x0806, 0x0401, 0x0501, 0x0601, 0x0201],
      ja_alpn = [lit ''h2'', lit ''http/1.1''],
      ja_tls_version = 0x0304\<rparr>"

definition firefox_133_profile :: Ja4Profile where
  "firefox_133_profile =
     \<lparr>ja_name = lit ''Firefox'',
      ja_version = lit ''133'',
      ja_cipher_suites =
        [0x1301, 0x1303, 0x1302, 0xC02B, 0xCCA9, 0xC02F, 0xCCA8, 0xC02C, 0xC030, 0xC013, 0xC014],
      ja_extensions =
        [0x0000, 0x0010, 0x0005, 0x0017, 0x002B, 0x000D, 0x000A, 0x0033, 0x002D, 0x0015, 0x0012],
      ja_supported_groups = [0x001D, 0x0017, 0x0018],
      ja_signature_algorithms =
        [0x0403, 0x0503, 0x0603, 0x0804, 0x0805, 0x0806, 0x0401, 0x0501, 0x0601],
      ja_alpn = [lit ''h2'', lit ''http/1.1''],
      ja_tls_version = 0x0304\<rparr>"

subsection \<open>The fingerprint of a profile\<close>

definition fnv_step :: "u32 \<Rightarrow> u8 \<Rightarrow> u32" where
  "fnv_step hash b = (hash XOR ucast b) * 0x01000193"

definition simple_hash :: "bytes \<Rightarrow> bytes" where
  "simple_hash s = fmt_hex 8 (unat (foldl fnv_step 0x811c9dc5 s))"

definition tls_ver_text :: "u16 \<Rightarrow> bytes" where
  "tls_ver_text v =
     (if v = 0x0304 then lit ''t13'' else if v = 0x0303 then lit ''t12'' else lit ''txx'')"

definition first_or_0 :: "u16 list \<Rightarrow> u16" where
  "first_or_0 xs = (case xs of [] \<Rightarrow> 0 | x # _ \<Rightarrow> x)"

definition last_or_0 :: "u16 list \<Rightarrow> u16" where
  "last_or_0 xs = (if xs = [] then 0 else last xs)"

definition calculate_ja4 :: "Ja4Profile \<Rightarrow> bytes" where
  "calculate_ja4 profile =
     (let tls_ver = tls_ver_text (ja_tls_version profile);
          cipher_count = length (ja_cipher_suites profile);
          ext_count = length (ja_extensions profile);
          sorted_exts = sort (ja_extensions profile);
          ext_hex = concat (map (\<lambda>e. fmt_hex 4 (unat e)) sorted_exts)
      in tls_ver @ fmt_hex 2 cipher_count @ fmt_hex 2 ext_count
           @ fmt_hex 4 (unat (first_or_0 (ja_cipher_suites profile)))
           @ fmt_hex 4 (unat (last_or_0 (ja_cipher_suites profile)))
           @ simple_hash ext_hex)"

definition verify_ja4 :: "bytes \<Rightarrow> bytes list \<Rightarrow> bool" where
  "verify_ja4 client_ja4 allowed = list_ex (\<lambda>a. a = client_ja4) allowed"

subsection \<open>The fingerprint of a ClientHello\<close>

text \<open>
  What the TLS parser gives for a record: its messages, of which only a ClientHello is looked
  at. Its \<^verbatim>\<open>ext\<close> field is the raw extension block, not a list of extensions, so the
  length the code takes of it is a number of bytes.
\<close>

record ClientHello =
  ch_version :: u16
  ch_ciphers :: "u16 list"
  ch_ext :: "bytes option"

datatype TlsMessage = HandshakeClientHello ClientHello | OtherMessage

type_synonym tls_parser = "bytes \<Rightarrow> TlsMessage list option"

definition client_hello_ja4 :: "ClientHello \<Rightarrow> bytes" where
  "client_hello_ja4 ch =
     (let cipher_count = length (ch_ciphers ch);
          ext_count = (case ch_ext ch of None \<Rightarrow> 0 | Some e \<Rightarrow> length e);
          first_cipher = first_or_0 (ch_ciphers ch);
          last_cipher = last_or_0 (ch_ciphers ch);
          tls_ver = tls_ver_text (ch_version ch);
          ext_hash = (case ch_ext ch of None \<Rightarrow> 0 | Some e \<Rightarrow> of_nat (length e)) :: u32
      in tls_ver @ fmt_hex 2 cipher_count @ fmt_hex 2 ext_count
           @ fmt_hex 4 (unat first_cipher) @ fmt_hex 4 (unat last_cipher)
           @ fmt_hex 8 (unat (ext_hash * 0x01000193)))"

fun first_client_hello :: "TlsMessage list \<Rightarrow> bytes option" where
  "first_client_hello [] = None"
| "first_client_hello (HandshakeClientHello ch # msgs) = Some (client_hello_ja4 ch)"
| "first_client_hello (OtherMessage # msgs) = first_client_hello msgs"

definition extract_ja4_from_client_hello :: "tls_parser \<Rightarrow> bytes \<Rightarrow> bytes option" where
  "extract_ja4_from_client_hello parse data =
     (case parse data of
        Some msgs \<Rightarrow> first_client_hello msgs
      | None \<Rightarrow> None)"

definition chrome_ja4_fingerprint :: bytes where
  "chrome_ja4_fingerprint = calculate_ja4 chrome_131_profile"

definition firefox_ja4_fingerprint :: bytes where
  "firefox_ja4_fingerprint = calculate_ja4 firefox_133_profile"

definition known_ja4_database :: "bytes \<rightharpoonup> bytes" where
  "known_ja4_database =
     (Map.empty(chrome_ja4_fingerprint \<mapsto> lit ''Chrome 131''))
        (firefox_ja4_fingerprint \<mapsto> lit ''Firefox 133'')"

subsection \<open>The shape of a fingerprint\<close>

lemma unat_u32_lt: "unat (w :: u32) < 16 ^ 8"
  using unsigned_less [of w, where ?'a = nat] by simp

lemma length_hash8 [simp]: "length (fmt_hex 8 (unat (w :: u32))) = 8"
  by (rule length_fmt_hex_fits [OF unat_u32_lt]) simp

lemma length_hex4 [simp]: "length (fmt_hex 4 (unat (w :: u16))) = 4"
  using unat_u16_lt [of w] by (intro length_fmt_hex_fits) simp_all

lemma length_simple_hash [simp]: "length (simple_hash s) = 8"
  by (simp add: simple_hash_def)

lemma length_tls_ver_text [simp]: "length (tls_ver_text v) = 3"
  by (simp add: tls_ver_text_def lit_def)

text \<open>
  Two fingerprints with the same text agree in every field, provided the counts of one fit
  two digits: the total length then fixes the widths of the other's.
\<close>

lemma ja4_fields_inject:
  assumes "v @ fmt_hex 2 m @ fmt_hex 2 n @ a @ b @ h = v' @ fmt_hex 2 m' @ fmt_hex 2 n' @ a' @ b' @ h'"
    and "length v = 3" "length v' = 3" "length a = 4" "length a' = 4" "length b = 4" "length b' = 4"
    and "length h = 8" "length h' = 8" and "m < 256" "n < 256"
  shows "m = m' \<and> n = n' \<and> h = h'"
proof -
  have w: "length (fmt_hex 2 m) = 2" "length (fmt_hex 2 n) = 2"
    using assms(10,11) by (simp_all add: length_fmt_hex_fits)
  have ge: "2 \<le> length (fmt_hex 2 k)" for k by (simp add: length_fmt_hex)
  have "length (v @ fmt_hex 2 m @ fmt_hex 2 n @ a @ b @ h) = length (v' @ fmt_hex 2 m' @ fmt_hex 2 n' @ a' @ b' @ h')"
    using assms(1) by simp
  with w ge [of m'] ge [of n'] assms(2-9) have "length (fmt_hex 2 m') = 2" "length (fmt_hex 2 n') = 2"
    by simp_all
  with assms(1-9) w have "fmt_hex 2 m = fmt_hex 2 m'" "fmt_hex 2 n = fmt_hex 2 n'" "h = h'"
    by simp_all
  then show ?thesis by simp
qed

subsection \<open>The known browsers\<close>

text \<open>The sorted extensions as text, and their hash, evaluated.\<close>

lemma small_replicates: "replicate 2 x = [x, x]" "replicate 3 x = [x, x, x]"
  by (simp_all add: numeral_eq_Suc)

lemmas text_eval = fmt_hex_def hex_digits.simps hex_digit_def lit_def small_replicates

lemma profile_counts:
  "length (ja_cipher_suites chrome_131_profile) = 15" "length (ja_extensions chrome_131_profile) = 14"
  "length (ja_cipher_suites firefox_133_profile) = 11" "length (ja_extensions firefox_133_profile) = 11"
  by (simp_all add: chrome_131_profile_def firefox_133_profile_def)

lemma profile_ends:
  "first_or_0 (ja_cipher_suites chrome_131_profile) = 0x1301" "last_or_0 (ja_cipher_suites chrome_131_profile) = 0x0035"
  "first_or_0 (ja_cipher_suites firefox_133_profile) = 0x1301" "last_or_0 (ja_cipher_suites firefox_133_profile) = 0xC014"
  "ja_tls_version chrome_131_profile = 0x0304" "ja_tls_version firefox_133_profile = 0x0304"
  by (simp_all add: chrome_131_profile_def firefox_133_profile_def first_or_0_def last_or_0_def)

lemma chrome_ext_hex:
  "concat (map (\<lambda>e. fmt_hex 4 (unat e)) (sort (ja_extensions chrome_131_profile))) =
   lit ''0000000a000b000d0010001200150017001b002b002d00330039ff01''"
  by (simp add: chrome_131_profile_def text_eval)

lemma firefox_ext_hex:
  "concat (map (\<lambda>e. fmt_hex 4 (unat e)) (sort (ja_extensions firefox_133_profile))) =
   lit ''00000005000a000d0010001200150017002b002d0033''"
  by (simp add: firefox_133_profile_def text_eval)

lemma chrome_hash:
  "foldl fnv_step 0x811c9dc5 (lit ''0000000a000b000d0010001200150017001b002b002d00330039ff01'') = 0x6ded694c"
  by (simp add: fnv_step_def lit_def)

lemma firefox_hash:
  "foldl fnv_step 0x811c9dc5 (lit ''00000005000a000d0010001200150017002b002d0033'') = 0x781a203d"
  by (simp add: fnv_step_def lit_def)

lemma chrome_fingerprint:
  "chrome_ja4_fingerprint =
     lit ''t13'' @ fmt_hex 2 15 @ fmt_hex 2 14 @ fmt_hex 4 0x1301 @ fmt_hex 4 0x0035 @ fmt_hex 8 0x6ded694c"
  unfolding chrome_ja4_fingerprint_def calculate_ja4_def Let_def chrome_ext_hex simple_hash_def chrome_hash
    profile_counts profile_ends
  by (simp add: tls_ver_text_def)

lemma firefox_fingerprint:
  "firefox_ja4_fingerprint =
     lit ''t13'' @ fmt_hex 2 11 @ fmt_hex 2 11 @ fmt_hex 4 0x1301 @ fmt_hex 4 0xC014 @ fmt_hex 8 0x781a203d"
  unfolding firefox_ja4_fingerprint_def calculate_ja4_def Let_def firefox_ext_hex simple_hash_def firefox_hash
    profile_counts profile_ends
  by (simp add: tls_ver_text_def)

lemma length_hex_numerals [simp]:
  "length (fmt_hex 4 0x1301) = 4" "length (fmt_hex 4 0x0035) = 4" "length (fmt_hex 4 0xC014) = 4"
  "length (fmt_hex 8 0x6ded694c) = 8" "length (fmt_hex 8 0x781a203d) = 8"
  by (simp_all add: length_fmt_hex_fits)

text \<open>The database tells the two browsers apart, gives each its name, and a list made of a
  fingerprint admits that browser and not the other.\<close>

theorem known_ja4_database_correct:
  "known_ja4_database chrome_ja4_fingerprint = Some (lit ''Chrome 131'') \<and>
   known_ja4_database firefox_ja4_fingerprint = Some (lit ''Firefox 133'') \<and>
   dom known_ja4_database = {chrome_ja4_fingerprint, firefox_ja4_fingerprint} \<and>
   verify_ja4 chrome_ja4_fingerprint [chrome_ja4_fingerprint] \<and>
   \<not> verify_ja4 firefox_ja4_fingerprint [chrome_ja4_fingerprint]"
proof -
  have "chrome_ja4_fingerprint \<noteq> firefox_ja4_fingerprint"
    using ja4_fields_inject [of "lit ''t13''" 15 14 "fmt_hex 4 0x1301" "fmt_hex 4 0x0035" "fmt_hex 8 0x6ded694c"
        "lit ''t13''" 11 11 "fmt_hex 4 0x1301" "fmt_hex 4 0xC014" "fmt_hex 8 0x781a203d"]
    unfolding chrome_fingerprint firefox_fingerprint by (auto simp: lit_def)
  then show ?thesis by (auto simp: known_ja4_database_def verify_ja4_def)
qed

subsection \<open>What a fingerprint depends on\<close>

text \<open>A profile's fingerprint does not depend on the order of its extensions: any
  permutation of them (with the version and ciphers unchanged) has the same fingerprint.\<close>

theorem calculate_ja4_extension_order:
  assumes "mset (ja_extensions p) = mset (ja_extensions q)"
    and "ja_tls_version p = ja_tls_version q" and "ja_cipher_suites p = ja_cipher_suites q"
  shows "calculate_ja4 p = calculate_ja4 q"
proof -
  have "sort (ja_extensions p) = sort (ja_extensions q)"
    using assms(1) by (metis mset_sort properties_for_sort sorted_sort)
  moreover have "length (ja_extensions p) = length (ja_extensions q)"
    using assms(1) by (rule mset_eq_length)
  ultimately show ?thesis using assms(2,3) by (simp add: calculate_ja4_def)
qed

theorem calculate_ja4_extension_order_witness:
  "calculate_ja4 (chrome_131_profile\<lparr>ja_extensions := rev (ja_extensions chrome_131_profile)\<rparr>) =
   calculate_ja4 chrome_131_profile"
  by (rule calculate_ja4_extension_order) simp_all

subsection \<open>Extracted and calculated fingerprints\<close>

lemma client_hello_ja4_not_known:
  assumes "c < 256" and "n < 256" and "unat (of_nat n * 0x01000193 :: u32) \<noteq> h" and "h < 16 ^ 8" and "0 < n"
  shows "client_hello_ja4 ch \<noteq> lit ''t13'' @ fmt_hex 2 c @ fmt_hex 2 n @ fmt_hex 4 (unat (a :: u16)) @ fmt_hex 4 (unat (b :: u16)) @ fmt_hex 8 h"
    (is "_ \<noteq> ?known")
proof
  define e where "e = (case ch_ext ch of None \<Rightarrow> 0 | Some e \<Rightarrow> length e)"
  have eh: "(case ch_ext ch of None \<Rightarrow> 0 | Some e \<Rightarrow> of_nat (length e)) = (of_nat e :: u32)"
    by (simp add: e_def split: option.splits)
  assume "client_hello_ja4 ch = ?known"
  then have "?known = tls_ver_text (ch_version ch) @ fmt_hex 2 (length (ch_ciphers ch)) @ fmt_hex 2 e @
      fmt_hex 4 (unat (first_or_0 (ch_ciphers ch))) @ fmt_hex 4 (unat (last_or_0 (ch_ciphers ch))) @
      fmt_hex 8 (unat (of_nat e * 0x01000193 :: u32))"
    unfolding client_hello_ja4_def Let_def eh e_def [symmetric] by simp
  then have "c = length (ch_ciphers ch) \<and> n = e \<and> fmt_hex 8 h = fmt_hex 8 (unat (of_nat e * 0x01000193 :: u32))"
    by (rule ja4_fields_inject) (use assms in \<open>simp_all add: length_fmt_hex_fits lit_def\<close>)
  with assms(3) show False by simp
qed

lemma extract_cases:
  "extract_ja4_from_client_hello parse data = Some fp \<Longrightarrow> \<exists>ch. fp = client_hello_ja4 ch"
proof -
  have "first_client_hello msgs = Some fp \<Longrightarrow> \<exists>ch. fp = client_hello_ja4 ch" for msgs
    by (induction msgs rule: first_client_hello.induct) auto
  then show "extract_ja4_from_client_hello parse data = Some fp \<Longrightarrow> \<exists>ch. fp = client_hello_ja4 ch"
    by (auto simp: extract_ja4_from_client_hello_def split: option.splits)
qed

text \<open>C40: The fingerprint extracted from a ClientHello is never one of the database's, whatever the
  parser and the bytes: its last field is a multiple of the byte length of the extensions, not the
  hash of their numbers. So checking extracted fingerprints against the known ones rejects
  every client, the genuine browsers included.\<close>

theorem extracted_ja4_never_known:
  "\<not> (\<exists>fp. extract_ja4_from_client_hello parse data = Some fp \<and> fp \<in> dom known_ja4_database) \<and>
   \<not> (case extract_ja4_from_client_hello parse data of
        None \<Rightarrow> False
      | Some fp \<Rightarrow> verify_ja4 fp [chrome_ja4_fingerprint, firefox_ja4_fingerprint])"
proof -
  have c: "client_hello_ja4 ch \<noteq> chrome_ja4_fingerprint" for ch
    using client_hello_ja4_not_known [of 15 14 "0x6ded694c" ch "0x1301" "0x0035"]
    unfolding chrome_fingerprint by simp
  have f: "client_hello_ja4 ch \<noteq> firefox_ja4_fingerprint" for ch
    using client_hello_ja4_not_known [of 11 11 "0x781a203d" ch "0x1301" "0xC014"]
    unfolding firefox_fingerprint by simp
  have "fp \<noteq> chrome_ja4_fingerprint \<and> fp \<noteq> firefox_ja4_fingerprint"
    if "extract_ja4_from_client_hello parse data = Some fp" for fp
    using extract_cases [OF that] c f by auto
  then show ?thesis
    by (auto simp: known_ja4_database_def verify_ja4_def split: option.splits)
qed

end
