(* ===== verification/Tls_Library.thy ===== *)
theory Tls_Library
  imports Rust_Text Environment
begin

section \<open>The TLS libraries: certificates, server and client configurations\<close>

text \<open>
  What the code uses of rcgen (key pairs and self-signed certificates) and of rustls (configurations and their
  checks). The libraries are arguments: \<open>cert_lib\<close> holds their operations, with their documented
  behaviour in \<open>fresh_certs\<close>; texts of library errors are what the operations return.
\<close>

record CertificateParams =
  cp_common_name :: "bytes option"
  cp_subject_alt_names :: "bytes list"

text \<open>\<^verbatim>\<open>CertificateParams::default()\<close> has a library name that the code overwrites, and no other names.\<close>

definition CertificateParams_default :: CertificateParams where
  "CertificateParams_default = \<lparr>cp_common_name = Some (lit ''rcgen self signed cert''), cp_subject_alt_names = []\<rparr>"

text \<open>A server configuration: the chain that is shown to clients, the private key, and whether clients must show one.\<close>

record tls_server_config =
  ts_cert_chain :: "bytes list"
  ts_private_key :: bytes
  ts_client_auth :: bool

record ('k, 'g) cert_lib =
  cl_generate :: "'g \<Rightarrow> (bytes, 'k) res \<times> 'g"
  cl_ia5 :: "bytes \<Rightarrow> (bytes, bytes) res"
  cl_self_signed :: "CertificateParams \<Rightarrow> 'k \<Rightarrow> (bytes, bytes) res"
  cl_serialize_der :: "'k \<Rightarrow> bytes"
  cl_private_key :: "bytes \<Rightarrow> (bytes, bytes) res"
  cl_single_cert :: "bytes list \<Rightarrow> bytes \<Rightarrow> (bytes, unit) res"

text \<open>\<^verbatim>\<open>ServerConfig::builder().with_no_client_auth().with_single_cert(chain, key)\<close>.\<close>

definition single_cert_config :: "('k, 'g) cert_lib \<Rightarrow> bytes list \<Rightarrow> bytes \<Rightarrow> (bytes, tls_server_config) res" where
  "single_cert_config L chain key =
     bind_res (cl_single_cert L chain key) (\<lambda>_.
     Ok \<lparr>ts_cert_chain = chain, ts_private_key = key, ts_client_auth = False\<rparr>)"

text \<open>
  The documented behaviour the security of a pinned certificate rests on: successive key pairs differ, and a certificate
  determines the key pair it was made for (it contains the public key).
\<close>

definition fresh_certs :: "('k, 'g) cert_lib \<Rightarrow> bool" where
  "fresh_certs L \<longleftrightarrow>
     (\<forall>g k g' k' g''. cl_generate L g = (Ok k, g') \<longrightarrow> cl_generate L g' = (Ok k', g'') \<longrightarrow> k \<noteq> k') \<and>
     (\<forall>p k k' d. cl_self_signed L p k = Ok d \<longrightarrow> cl_self_signed L p k' = Ok d \<longrightarrow> k = k')"

text \<open>An instance: the key pairs are numbered, a certificate is the name followed by the number in unary,
  and a name is an IA5 string if its bytes are ASCII.\<close>

definition counting_lib :: "(nat, nat) cert_lib" where
  "counting_lib =
     \<lparr>cl_generate = (\<lambda>n. (Ok n, Suc n)),
      cl_ia5 = (\<lambda>s. if list_all (\<lambda>c. c < 128) s then Ok s else Err (lit ''not an IA5 string'')),
      cl_self_signed = (\<lambda>p n. Ok (concat (cp_subject_alt_names p) @ replicate n 48)),
      cl_serialize_der = (\<lambda>n. replicate n 49),
      cl_private_key = Ok,
      cl_single_cert = (\<lambda>chain key. Ok ())\<rparr>"

lemma fresh_certs_counting: "fresh_certs counting_lib"
  by (auto simp: fresh_certs_def counting_lib_def)

subsection \<open>The client's checks\<close>

text \<open>A server is accepted in a handshake if its certificate is, and its signature over the handshake.\<close>

datatype tls_version = Tls12 | Tls13

record client_tls_config =
  tc_verify_server_cert :: "bytes \<Rightarrow> (bytes, unit) res"
  tc_verify_tls12_signature :: "bytes \<Rightarrow> bytes \<Rightarrow> bytes \<Rightarrow> (bytes, unit) res"
  tc_verify_tls13_signature :: "bytes \<Rightarrow> bytes \<Rightarrow> bytes \<Rightarrow> (bytes, unit) res"
  tc_supported_verify_schemes :: "bytes list"
  tc_client_auth :: bool
  tc_alpn_protocols :: "bytes list"

text \<open>
  What a client has checked of a server when a handshake succeeds: its verifier's answers for the certificate and for the
  signature in the message of the version. The rest of the handshake, such as the choice of a signature scheme, is not
  in the repository and left out.
\<close>

definition server_accepted :: "client_tls_config \<Rightarrow> tls_version \<Rightarrow> bytes \<Rightarrow> bytes \<Rightarrow> bytes \<Rightarrow> bool" where
  "server_accepted tls v cert message dss \<longleftrightarrow>
     tc_verify_server_cert tls cert = Ok () \<and>
     (case v of Tls12 \<Rightarrow> tc_verify_tls12_signature tls message cert dss
      | Tls13 \<Rightarrow> tc_verify_tls13_signature tls message cert dss) = Ok ()"

end
