(* ===== verification/Reality.thy ===== *)
theory Reality
  imports Hex_Ids Tls_Library
begin

section \<open>Reality: the server behind the mask\<close>

text \<open>
  ghost-reality/src/lib.rs (errors, configuration), reality_server.rs (detection of the
  auth token, the reply to a TLS client, the certificate) and tls_wrapper.rs (the client's side). The
  TLS handshakes are parameters: a TLS connection is a \<open>conn\<close>, the plaintext inside it.
\<close>

datatype RealityError =
    TlsHandshake bytes
  | AuthFailed
  | SniMismatch bytes bytes
  | Ja4Rejected bytes
  | CertificateError bytes
  | RealityIo io_error

record RealityConfig =
  rc_mask_domain :: bytes
  rc_auth_key :: bytes
  rc_verify_ja4 :: bool
  rc_allowed_ja4 :: "bytes list"
  rc_session_ttl_secs :: "64 word"

definition RealityConfig_default :: RealityConfig where
  "RealityConfig_default =
     \<lparr>rc_mask_domain = lit ''www.apple.com'',
      rc_auth_key = replicate 32 0,
      rc_verify_ja4 = False,
      rc_allowed_ja4 = [],
      rc_session_ttl_secs = 300\<rparr>"

subsection \<open>The auth token\<close>

definition crlf :: bytes where
  "crlf = [13, 10]"

definition auth_marker :: bytes where
  "auth_marker = lit ''X-Ghost-Auth:''"

text \<open>
  The scan of \<^verbatim>\<open>detect_ghost_auth\<close> in reality_server.rs: the text after the first marker, without
  leading white space, up to the next white space. The slice may panic in principle. The server
  has a copy of this function, which is modelled on its own in \<open>Server\<close>.
\<close>

definition extract_auth_token :: "bytes \<Rightarrow> ('e, bytes option) res" where
  "extract_auth_token data =
     (let data_str = from_utf8_lossy data in
      case str_find auth_marker data_str of
        None \<Rightarrow> Ok None
      | Some pos \<Rightarrow>
          let token_start = pos + length auth_marker in
          bind_res (str_slice token_start (length data_str) data_str) (\<lambda>remainder.
          Ok (Some (take_while_chars
            (\<lambda>c. \<not> char_is_whitespace c \<and> c \<noteq> [13] \<and> c \<noteq> [10]) (trim_start remainder)))))"

definition RealityServer_detect_ghost_auth :: "bytes \<Rightarrow> bytes \<Rightarrow> ('e, bool) res" where
  "RealityServer_detect_ghost_auth data auth_key =
     bind_res (extract_auth_token data) (\<lambda>found.
     case found of
       None \<Rightarrow> Ok False
     | Some token \<Rightarrow>
         if length token = 64 then Ok (token = hex_encode auth_key) else Ok False)"

definition create_auth_token :: "bytes \<Rightarrow> bytes" where
  "create_auth_token auth_key = hex_encode auth_key"

subsection \<open>The server's replies\<close>

definition mask_redirect :: "bytes \<Rightarrow> bytes" where
  "mask_redirect mask_domain =
     lit ''HTTP/1.1 301 Moved Permanently'' @ crlf @
     lit ''Location: https://'' @ mask_domain @ crlf @
     lit ''Content-Length: 0'' @ crlf @
     lit ''Connection: close'' @ crlf @ crlf"

definition ghost_proxy_reply :: bytes where
  "ghost_proxy_reply =
     lit ''HTTP/1.1 200 OK'' @ crlf @ lit ''Content-Length: 12'' @ crlf @ crlf @ lit ''Ghost Proxy!''"

definition handle_tls_connection :: "RealityConfig \<Rightarrow> (conn, RealityError, unit) stm" where
  "handle_tls_connection config =
     bind (with_err RealityIo (on_in (read_some 4096))) (\<lambda>buf.
     if buf = [] then ret ()
     else
       bind (lift_res (RealityServer_detect_ghost_auth buf (rc_auth_key config))) (\<lambda>is_ghost_client.
       if is_ghost_client then with_err RealityIo (on_out (write_all ghost_proxy_reply))
       else with_err RealityIo (on_out (write_all (mask_redirect (rc_mask_domain config))))))"

subsection \<open>The server\<close>

text \<open>The configuration for TLS: a self-signed certificate for the mask domain, generated at every start.\<close>

definition RealityServer_build_tls_config ::
  "('k, 'g) cert_lib \<Rightarrow> RealityConfig \<Rightarrow> ('g, RealityError, tls_server_config) stm" where
  "RealityServer_build_tls_config L config =
     bind (with_err CertificateError (cl_generate L)) (\<lambda>key_pair.
     let params = CertificateParams_default\<lparr>cp_common_name := Some (rc_mask_domain config)\<rparr> in
     bind (with_err CertificateError (lift_res (cl_ia5 L (rc_mask_domain config)))) (\<lambda>dns_name.
     let params = params\<lparr>cp_subject_alt_names := cp_subject_alt_names params @ [dns_name]\<rparr> in
     bind (with_err CertificateError (lift_res (cl_self_signed L params key_pair))) (\<lambda>cert_der.
     let key_der = cl_serialize_der L key_pair; cert_chain = [cert_der] in
     bind (with_err (\<lambda>e. CertificateError (lit ''private key: '' @ e)) (lift_res (cl_private_key L key_der))) (\<lambda>key_der.
     with_err TlsHandshake (lift_res (single_cert_config L cert_chain key_der))))))"

record RealityServer =
  rs_config :: RealityConfig
  rs_tls_config :: tls_server_config

definition RealityServer_new :: "('k, 'g) cert_lib \<Rightarrow> RealityConfig \<Rightarrow> ('g, RealityError, RealityServer) stm" where
  "RealityServer_new L config =
     bind (RealityServer_build_tls_config L config) (\<lambda>tls_config.
     ret \<lparr>rs_config = config, rs_tls_config = tls_config\<rparr>)"

text \<open>
  What one task of \<^verbatim>\<open>run\<close> does when it is left to finish: \<open>tls_accept\<close> is the TLS handshake with the server's configuration, \<open>None\<close> says that it failed. The
  task's own result is only logged.
\<close>

definition RealityServer_task ::
  "(conn \<Rightarrow> conn option) \<Rightarrow> RealityConfig \<Rightarrow> conn \<Rightarrow> (RealityError, unit) res \<times> conn" where
  "RealityServer_task tls_accept config stream =
     (case tls_accept stream of
        Some tls_stream \<Rightarrow> handle_tls_connection config tls_stream
      | None \<Rightarrow> (Ok (), stream))"

text \<open>The tasks it starts, each with the TLS configuration, the configuration and the connection it is given.\<close>

definition RealityServer_run ::
  "(bytes \<Rightarrow> (io_error, unit) res) \<Rightarrow> RealityServer \<Rightarrow> bytes \<Rightarrow> (io_error, conn) res list \<Rightarrow>
     (tls_server_config \<times> RealityConfig \<times> conn) list \<times> (RealityError, unit) res option" where
  "RealityServer_run bind_to self listen_addr accepts =
     (case bind_to listen_addr of
        Ok _ \<Rightarrow> (case accept_loop (\<lambda>stream. (rs_tls_config self, rs_config self, stream)) accepts of
                   (tasks, stop) \<Rightarrow> (tasks, map_option (map_err RealityIo) stop))
      | Err e \<Rightarrow> ([], Some (Err (RealityIo e)))
      | Panic \<Rightarrow> ([], Some Panic))"

subsection \<open>The client's request\<close>

text \<open>
  The client of the library. Its configuration trusts the web's root certificates and shows none of its own; \<open>server_name\<close> is
  the parser of server names, whose error is printed, and \<open>tls_connect\<close> the handshake.
\<close>

record web_client_config =
  wc_root_certificates :: "bytes list"
  wc_client_auth :: bool

record RealityClient =
  rcl_config :: RealityConfig

record RealityTlsStream =
  rts_stream :: conn
  rts_config :: RealityConfig

record reality_client_env =
  re_webpki_roots :: "bytes list"
  re_tcp_connect :: "bytes \<Rightarrow> (io_error, conn) res"
  re_server_name :: "bytes \<Rightarrow> (bytes, bytes) res"
  re_tls_connect :: "web_client_config \<Rightarrow> bytes \<Rightarrow> conn \<Rightarrow> (io_error, conn) res"

definition RealityClient_new :: "RealityConfig \<Rightarrow> RealityClient" where
  "RealityClient_new config = \<lparr>rcl_config = config\<rparr>"

definition RealityClient_build_tls_config :: "bytes list \<Rightarrow> (RealityError, web_client_config) res" where
  "RealityClient_build_tls_config webpki_roots =
     (let root_store = [] @ webpki_roots in
      Ok \<lparr>wc_root_certificates = root_store, wc_client_auth = False\<rparr>)"

definition RealityClient_connect ::
  "reality_client_env \<Rightarrow> bytes \<Rightarrow> RealityConfig \<Rightarrow> (RealityError, RealityTlsStream) res" where
  "RealityClient_connect env server_addr config =
     bind_res (RealityClient_build_tls_config (re_webpki_roots env)) (\<lambda>tls_config.
     bind_res (map_err RealityIo (re_tcp_connect env server_addr)) (\<lambda>stream.
     bind_res (map_err (\<lambda>e. TlsHandshake (lit ''invalid SNI: '' @ e)) (re_server_name env (rc_mask_domain config))) (\<lambda>domain.
     bind_res (map_err RealityIo (re_tls_connect env tls_config domain stream)) (\<lambda>tls_stream.
     Ok \<lparr>rts_stream = tls_stream, rts_config = config\<rparr>))))"

text \<open>The HTTP request of \<^verbatim>\<open>authenticate\<close> and of the client's \<^verbatim>\<open>connect_reality\<close>.\<close>

definition auth_request :: "bytes \<Rightarrow> bytes \<Rightarrow> bytes" where
  "auth_request mask_domain auth_token =
     lit ''GET /ghost HTTP/1.1'' @ crlf @
     lit ''Host: '' @ mask_domain @ crlf @
     lit ''X-Ghost-Auth: '' @ auth_token @ crlf @
     lit ''Connection: upgrade'' @ crlf @
     lit ''Upgrade: ghost-tunnel'' @ crlf @ crlf"

definition RealityTlsStream_authenticate :: "RealityConfig \<Rightarrow> (conn, RealityError, 'a) stm" where
  "RealityTlsStream_authenticate config =
     (let auth_token = create_auth_token (rc_auth_key config);
          request = auth_request (rc_mask_domain config) auth_token
      in
      bind (with_err RealityIo (on_out (write_all request))) (\<lambda>_.
      bind (with_err RealityIo (on_in (read_some 1024))) (\<lambda>buf.
      if buf = [] then throw AuthFailed
      else
        let response = from_utf8_lossy buf in
        if str_contains (lit ''200 OK'') response \<or> str_contains (lit ''Ghost Proxy'') response
        then throw (TlsHandshake
               (lit ''underlying TCP extraction not supported in current implementation''))
        else throw AuthFailed)))"

subsection \<open>What a request presents\<close>

text \<open>
  Independently of any scan: a text presents a token if, after its first marker and any number of white-space
  characters, it has this token as a word, up to the end of the text or the next white space.
\<close>

definition one_word :: "bytes \<Rightarrow> bool" where
  "one_word token \<longleftrightarrow> token \<noteq> [] \<and> (\<forall>c \<in> set (utf8_chars token). \<not> char_is_whitespace c)"

definition starts_white :: "bytes \<Rightarrow> bool" where
  "starts_white s \<longleftrightarrow> (\<exists>c r. s = c @ r \<and> char_is_whitespace c)"

definition token_presented :: "bytes \<Rightarrow> bytes \<Rightarrow> bool" where
  "token_presented token txt \<longleftrightarrow> one_word token \<and>
     (\<exists>pre ws rest. txt = pre @ lit ''X-Ghost-Auth:'' @ concat ws @ token @ rest \<and>
        (\<forall>i < length pre. \<not> occurs_at (lit ''X-Ghost-Auth:'') txt i) \<and>
        (\<forall>c \<in> set ws. char_is_whitespace c) \<and> (rest = [] \<or> starts_white rest))"

lemma auth_marker_last: "length auth_marker = 13" "auth_marker ! 12 = 58" "hd auth_marker = 88"
  by (simp_all add: auth_marker_def)

text \<open>What both scans compute, once the slice is known to be in range.\<close>

definition scan_text :: "bytes \<Rightarrow> bytes option" where
  "scan_text txt = map_option (\<lambda>i. take_while_chars (\<lambda>c. \<not> char_is_whitespace c \<and> c \<noteq> [13] \<and> c \<noteq> [10])
     (trim_start (drop (i + length auth_marker) txt))) (str_find auth_marker txt)"

lemma scan_not_white: "(\<not> char_is_whitespace c \<and> c \<noteq> [13] \<and> c \<noteq> [10]) \<longleftrightarrow> \<not> char_is_whitespace c"
  by (auto simp: char_is_whitespace_def)

lemma auth_marker_slice:
  assumes "str_find auth_marker (from_utf8_lossy data) = Some i"
  shows "str_slice (i + length auth_marker) (length (from_utf8_lossy data)) (from_utf8_lossy data) =
    (Ok (drop (i + length auth_marker) (from_utf8_lossy data)) :: ('e, bytes) res)"
proof -
  let ?s = "from_utf8_lossy data"
  have le: "i + 13 \<le> length ?s" and occ: "take 13 (drop i ?s) = auth_marker"
    using str_find_Some [OF assms] by (simp_all add: auth_marker_last occurs_at_def)
  have "?s ! (i + 12) = take 13 (drop i ?s) ! 12" using le by simp
  then have "?s ! (i + 12) = 58" using occ auth_marker_last by simp
  then have "is_char_boundary ?s (Suc (i + 12))"
    using utf8_valid_after_ascii [OF utf8_valid_from_utf8_lossy, of "i + 12" data] le by simp
  with le show ?thesis
    by (simp add: auth_marker_last str_slice_def is_char_boundary_def [of _ "length _"] add.commute)
qed

lemma extract_auth_token_scan: "extract_auth_token data = Ok (scan_text (from_utf8_lossy data))"
  by (auto simp: extract_auth_token_def scan_text_def Let_def auth_marker_slice split: option.split)

lemma not_empty_chars: "token \<noteq> [] \<Longrightarrow> utf8_chars token \<noteq> []"
  by (metis concat.simps(1) concat_utf8_chars)

lemma scan_text_Some:
  assumes "scan_text txt = Some token" and "token \<noteq> []" and "utf8_valid token"
  shows "token_presented token txt"
proof -
  let ?white = char_is_whitespace
  obtain i where i: "str_find auth_marker txt = Some i"
    and tok: "token = take_while_chars (\<lambda>c. \<not> ?white c) (trim_start (drop (i + 13) txt))"
    using assms(1) by (auto simp: scan_text_def scan_not_white auth_marker_last)
  define r where "r = drop (i + 13) txt"
  define s where "s = trim_start r"
  note found = str_find_Some [OF i, unfolded auth_marker_last]
  have s: "utf8_chars s = dropWhile ?white (utf8_chars r)" by (simp add: s_def trim_start_def utf8_chars_dropWhile)
  have token: "concat (takeWhile (\<lambda>c. \<not> ?white c) (utf8_chars s)) = token"
    by (simp add: tok s_def r_def take_while_chars_def)
  define ws where "ws = takeWhile ?white (utf8_chars r)"
  define rest where "rest = concat (dropWhile (\<lambda>c. \<not> ?white c) (utf8_chars s))"
  have "r = concat ws @ s"
    by (metis concat_append concat_utf8_chars s takeWhile_dropWhile_id ws_def)
  moreover have "s = token @ rest"
    by (metis concat_append concat_utf8_chars rest_def takeWhile_dropWhile_id token)
  moreover have "txt = take i txt @ take 13 (drop i txt) @ r"
    by (simp add: r_def) (metis append_take_drop_id drop_drop add.commute)
  ultimately have eq: "txt = take i txt @ auth_marker @ concat ws @ token @ rest"
    using found(2) by (simp add: occurs_at_def auth_marker_last)
  have "one_word token"
    using takeWhile_valid_prefix [OF assms(3) token] assms(2) set_takeWhileD
    unfolding one_word_def by metis
  moreover have "rest = [] \<or> starts_white rest"
  proof (cases "dropWhile (\<lambda>c. \<not> ?white c) (utf8_chars s)")
    case (Cons c cs)
    then have "?white c" by (metis hd_dropWhile list.distinct(1) list.sel(1))
    with Cons show ?thesis by (auto simp: rest_def starts_white_def)
  next
    case Nil
    then show ?thesis unfolding rest_def by (simp only: concat.simps simp_thms)
  qed
  moreover have "\<forall>c \<in> set ws. ?white c" by (auto simp: ws_def dest: set_takeWhileD)
  moreover have "\<forall>j < length (take i txt). \<not> occurs_at auth_marker txt j" using found(3) by simp
  ultimately show ?thesis unfolding token_presented_def auth_marker_def [symmetric] using eq by blast
qed

lemma scan_text_presented:
  assumes "token_presented token txt" and "utf8_valid token"
  shows "scan_text txt = Some token"
proof -
  let ?white = char_is_whitespace
  obtain pre ws rest where eq: "txt = pre @ auth_marker @ concat ws @ token @ rest"
    and first: "\<forall>i < length pre. \<not> occurs_at auth_marker txt i" and ws: "\<forall>c \<in> set ws. ?white c"
    and rest: "rest = [] \<or> starts_white rest" and word: "one_word token"
    using assms(1) unfolding token_presented_def auth_marker_def [symmetric] by blast
  have find: "str_find auth_marker txt = Some (length pre)"
    unfolding eq using str_find_skip [of pre auth_marker "auth_marker @ concat ws @ token @ rest"] first eq
    by (simp add: str_find_here)
  have r: "drop (length pre + length auth_marker) txt = concat ws @ token @ rest" by (simp add: eq)
  have chars: "utf8_chars (token @ rest) = utf8_chars token @ utf8_chars rest"
    using utf8_chars_append [OF assms(2)] .
  have word': "\<forall>c \<in> set (utf8_chars token). \<not> ?white c" "utf8_chars token \<noteq> []"
    using word not_empty_chars by (auto simp: one_word_def)
  have "dropWhile ?white (utf8_chars token @ utf8_chars rest) = utf8_chars token @ utf8_chars rest"
    using word' by (cases "utf8_chars token") auto
  then have trim: "trim_start (concat ws @ token @ rest) = token @ rest"
    using ws by (simp add: trim_start_def whitespace_chars chars dropWhile_append2)
  have stop: "takeWhile (\<lambda>c. \<not> ?white c) (utf8_chars rest) = []"
    using rest by (auto simp: starts_white_def utf8_chars_append whitespace_char)
  have "take_while_chars (\<lambda>c. \<not> ?white c) (token @ rest) = token"
    using word'(1) stop by (simp add: take_while_chars_def chars takeWhile_append2)
  with find r trim show ?thesis by (simp add: scan_text_def scan_not_white)
qed

lemma scan_text_iff:
  "utf8_valid token \<Longrightarrow> token \<noteq> [] \<Longrightarrow> scan_text txt = Some token \<longleftrightarrow> token_presented token txt"
  using scan_text_Some scan_text_presented by blast

subsection \<open>Detection never panics\<close>

lemma extract_auth_token_Ok: "\<exists>r. extract_auth_token data = Ok r"
  by (simp add: extract_auth_token_scan)

lemma detect_auth_total:
  "\<exists>b. (RealityServer_detect_ghost_auth data auth_key :: ('e, bool) res) = Ok b"
proof -
  obtain r where r: "extract_auth_token data = (Ok r :: ('e, bytes option) res)"
    using extract_auth_token_Ok by blast
  then show ?thesis
    by (cases r) (auto simp: RealityServer_detect_ghost_auth_def)
qed

text \<open>Scanning a request for the auth token never panics and always decides, for every
  sequence of bytes a scanner may send and every key: neither the lossy UTF-8 conversion nor
  the slice after the marker can hit the middle of a character.\<close>

theorem detect_ghost_auth_total:
  "(RealityServer_detect_ghost_auth data auth_key :: ('e, bool) res)
     = Ok (\<exists>token. extract_auth_token data = (Ok (Some token) :: ('e, bytes option) res) \<and>
             length token = 64 \<and> token = hex_encode auth_key)"
proof -
  obtain r where r: "extract_auth_token data = (Ok r :: ('e, bytes option) res)"
    using extract_auth_token_Ok by blast
  then show ?thesis
    by (cases r) (auto simp: RealityServer_detect_ghost_auth_def)
qed

subsection \<open>The token in the request is the one that is found\<close>

lemma nth_only:
  assumes "x \<notin> set a" and "x \<notin> set c"
    and "(a @ x # c @ r) ! i = x" and "i < Suc (length a + length c)"
  shows "i = length a"
proof (rule ccontr)
  assume ne: "i \<noteq> length a"
  show False
  proof (cases "i < length a")
    case True
    with assms(1,3) show False by (metis nth_append nth_mem)
  next
    case False
    with ne obtain k where i: "i = Suc (length a + k)" by (metis less_imp_Suc_add linorder_neqE_nat)
    with assms(4) have k: "k < length c" by simp
    with assms(3) i have "c ! k = x" by (simp add: nth_append)
    with k assms(2) show False by auto
  qed
qed

text \<open>
  The request is cut at the only colon before the marker's own: nothing of the marker can
  start earlier, because its last character is a colon and its first an X.
\<close>

lemma auth_marker_first:
  assumes "58 \<notin> set host"
  shows "str_find auth_marker (lit ''GET /ghost HTTP/1.1'' @ crlf @ lit ''Host: '' @ host @ crlf @
           auth_marker @ rest) = Some (length host + 29)"
proof -
  let ?a = "lit ''GET /ghost HTTP/1.1'' @ crlf @ lit ''Host''"
  let ?c = "[32] @ host @ crlf @ lit ''X-Ghost-Auth''"
  let ?p = "lit ''GET /ghost HTTP/1.1'' @ crlf @ lit ''Host: '' @ host @ crlf"
  have eq: "?p @ auth_marker @ rest = ?a @ 58 # ?c @ (58 # rest)"
    by (simp add: auth_marker_def)
  have a: "58 \<notin> set ?a" and c: "58 \<notin> set ?c" using assms by (simp_all add: crlf_def)
  have lens: "length ?p = length host + 29" "length ?a = 25" "length ?c = length host + 15"
    by (simp_all add: crlf_def)
  have "\<not> occurs_at auth_marker (?p @ auth_marker @ rest) j" if j: "j < length ?p" for j
  proof
    assume "occurs_at auth_marker (?p @ auth_marker @ rest) j"
    then have occ: "take 13 (drop j (?p @ auth_marker @ rest)) = auth_marker"
      by (simp add: occurs_at_def auth_marker_last)
    have len: "j + 13 \<le> length (?p @ auth_marker @ rest)" using j by (simp add: auth_marker_last)
    have "(?p @ auth_marker @ rest) ! (j + 12) = take 13 (drop j (?p @ auth_marker @ rest)) ! 12"
      using len by (subst nth_take) (auto simp: nth_drop)
    then have "(?p @ auth_marker @ rest) ! (j + 12) = 58"
      by (simp only: occ auth_marker_last)
    then have "(?a @ 58 # ?c @ (58 # rest)) ! (j + 12) = 58"
      by (simp only: eq)
    then have "j + 12 = 25"
      using nth_only [OF a c, of "58 # rest" "j + 12"] j lens by simp
    then have j13: "j = 13" by simp
    have "(?p @ auth_marker @ rest) ! 13 = take 13 (drop 13 (?p @ auth_marker @ rest)) ! 0"
      using len j13 by (subst nth_take) (auto simp: nth_drop)
    then have "(?p @ auth_marker @ rest) ! 13 = 88"
      using occ j13 by (simp add: auth_marker_def)
    then show False by (simp add: crlf_def)
  qed
  from str_find_skip [of ?p auth_marker "auth_marker @ rest", OF this] lens
  show ?thesis by (simp add: str_find_here)
qed

definition token_text :: "bytes \<Rightarrow> bool" where
  "token_text t \<longleftrightarrow> t \<noteq> [] \<and> is_ascii t \<and> (\<forall>c \<in> set t. \<not> char_is_whitespace [c])"

lemma str_slice_suffix:
  "\<not> is_cont c \<Longrightarrow> str_slice (length p) (length (p @ c # r)) (p @ c # r) = Ok (c # r)"
  by (simp add: str_slice_def is_char_boundary_def)

lemma trim_start_space:
  "c < 0x80 \<Longrightarrow> \<not> char_is_whitespace [c] \<Longrightarrow> trim_start (32 # c # s) = c # s"
  by (simp add: trim_start_ascii_Cons) (simp add: char_is_whitespace_def)

lemma not_cont_space: "\<not> is_cont 32"
  by (simp add: is_cont_def)

text \<open>Whatever is before the first marker and after the line of the token.\<close>

lemma extract_auth_found:
  assumes "utf8_valid p" and "token_text tok" and "is_ascii tail"
    and "str_find auth_marker (p @ auth_marker @ 32 # tok @ crlf @ tail) = Some (length p)"
  shows "extract_auth_token (p @ auth_marker @ 32 # tok @ crlf @ tail) = Ok (Some tok)"
proof -
  let ?r = "32 # tok @ crlf @ tail"
  have "is_ascii ?r" "is_ascii auth_marker" using assms(2,3) by (simp_all add: token_text_def crlf_def auth_marker_def)
  then have lossy: "from_utf8_lossy (p @ auth_marker @ ?r) = p @ auth_marker @ ?r"
    using assms(1) by (intro from_utf8_lossy_valid) (simp add: utf8_valid_append is_ascii_utf8_valid)
  have slice: "str_slice (length p + length auth_marker) (length (p @ auth_marker @ ?r)) (p @ auth_marker @ ?r) =
      (Ok ?r :: ('z, bytes) res)"
    using str_slice_suffix [OF not_cont_space, of "p @ auth_marker" "tok @ crlf @ tail"] by simp
  obtain c cs where tok: "tok = c # cs" using assms(2) by (cases tok) (auto simp: token_text_def)
  have trim: "trim_start ?r = tok @ crlf @ tail"
    using trim_start_space [of c "cs @ crlf @ tail"] assms(2) by (simp add: tok token_text_def)
  have no13: "c \<noteq> 13" "c \<noteq> 10" if "c \<in> set tok" for c
    using that assms(2) by (auto simp: token_text_def char_is_whitespace_def)
  have "take_while_chars (\<lambda>c. \<not> char_is_whitespace c \<and> c \<noteq> [13] \<and> c \<noteq> [10]) (tok @ crlf @ tail) = tok"
    using assms(2) no13
    by (subst take_while_chars_ascii_append) (auto simp: token_text_def crlf_def take_while_chars_ascii_Cons)
  then show ?thesis
    unfolding extract_auth_token_def lossy Let_def assms(4) option.case slice bind_res.simps trim
    by simp
qed

lemma extract_auth_request:
  assumes "utf8_valid host" and "58 \<notin> set host" and "token_text tok"
  shows "extract_auth_token (auth_request host tok) = Ok (Some tok)"
proof -
  let ?tail = "lit ''Connection: upgrade'' @ crlf @ lit ''Upgrade: ghost-tunnel'' @ crlf @ crlf"
  let ?p = "lit ''GET /ghost HTTP/1.1'' @ crlf @ lit ''Host: '' @ host @ crlf"
  have "utf8_valid ?p" using assms(1) by (simp add: crlf_def utf8_valid_append is_ascii_utf8_valid)
  moreover have "is_ascii ?tail" by (simp add: crlf_def)
  moreover have "str_find auth_marker (?p @ auth_marker @ 32 # tok @ crlf @ ?tail) = Some (length ?p)"
    using auth_marker_first [OF assms(2), of "32 # tok @ crlf @ ?tail"] by (simp add: crlf_def)
  ultimately have "extract_auth_token (?p @ auth_marker @ 32 # tok @ crlf @ ?tail) = Ok (Some tok)"
    using assms(3) by (intro extract_auth_found)
  then show ?thesis by (simp add: auth_request_def auth_marker_def)
qed

text \<open>The marker is found behind a text without its first letter.\<close>

lemma auth_marker_after:
  assumes "88 \<notin> set p"
  shows "str_find auth_marker (p @ auth_marker @ rest) = Some (length p)"
proof -
  have "\<not> occurs_at auth_marker (p @ auth_marker @ rest) j" if "j < length p" for j
  proof (rule not_occurs_at_head)
    have "p ! j \<noteq> 88" using assms nth_mem [OF that] by metis
    then show "(p @ auth_marker @ rest) ! j \<noteq> hd auth_marker"
      using that by (simp add: auth_marker_last nth_append)
  qed (use that in \<open>simp_all add: auth_marker_def\<close>)
  from str_find_skip [of p auth_marker "auth_marker @ rest", OF this] show ?thesis by (simp add: str_find_here)
qed

lemma token_text_hex_encode: "key \<noteq> [] \<Longrightarrow> token_text (hex_encode key)"
proof -
  assume "key \<noteq> []"
  then have "hex_encode key \<noteq> []" by (cases key) (simp_all add: hex_encode_Cons fmt_hex_byte)
  moreover have "\<not> char_is_whitespace [c]" if "c \<in> set (hex_encode key)" for c
  proof -
    have "48 \<le> unat c" using hex_encode_chars [OF that] by (auto simp: word_le_nat_alt)
    then have "\<not> c \<le> 13" and "c \<noteq> 32" by (auto simp: word_le_nat_alt)
    then show ?thesis by (simp add: char_is_whitespace_def)
  qed
  ultimately show ?thesis by (simp add: token_text_def)
qed

text \<open>C26: The server recognises a client by its key: a request that carries the token of one
  32-byte key is accepted by a server holding another exactly when the keys are equal,
  whatever mask domain is in the Host line (any UTF-8 host name without a port).\<close>

theorem auth_token_accepted_iff:
  assumes "utf8_valid host" and "58 \<notin> set host" and "length k = 32" and "length k' = 32"
  shows "RealityServer_detect_ghost_auth (auth_request host (create_auth_token k)) k'
    = Ok (k = k')"
proof -
  have "token_text (create_auth_token k)"
    using assms(3) unfolding create_auth_token_def by (intro token_text_hex_encode) auto
  then show ?thesis
    using assms(3)
    by (simp add: RealityServer_detect_ghost_auth_def extract_auth_request [OF assms(1,2)]
        create_auth_token_def)
qed

theorem auth_token_accepted_iff_witness:
  "RealityServer_detect_ghost_auth
     (auth_request (lit ''www.apple.com'') (create_auth_token (replicate 32 7))) (replicate 32 8)
   = Ok False"
proof -
  have "utf8_valid (lit ''www.apple.com'')" by (rule is_ascii_utf8_valid) simp
  moreover have "(replicate 32 7 :: bytes) \<noteq> replicate 32 8"
    by (simp add: replicate_eq_replicate)
  ultimately show ?thesis
    using auth_token_accepted_iff [of "lit ''www.apple.com''" "replicate 32 7" "replicate 32 8"]
    by simp
qed

subsection \<open>What a prober sees\<close>

text \<open>
  A connection whose first segment is not an authenticated request gets the redirect to the
  mask domain and nothing else; an authenticated one gets the proxy's reply.
\<close>

text \<open>The mask holds: whatever the first read of a connection returns, the server answers
  with exactly one of two fixed texts, the redirect to the mask domain unless the data
  carries the token of the server's key; it consumes only that read, and never panics.\<close>

theorem handle_tls_connection_masks:
  assumes "wr_limit (c_out c) = None" and "src_segs (c_in c) = g # gs"
    and "g \<noteq> []" and "length g \<le> 4096"
  shows "handle_tls_connection config c =
     (Ok (), c\<lparr>c_in := (c_in c)\<lparr>src_segs := gs\<rparr>,
               c_out := (c_out c)\<lparr>wr_data := wr_data (c_out c) @
                 (if RealityServer_detect_ghost_auth g (rc_auth_key config) =
                       (Ok True :: (RealityError, bool) res)
                  then ghost_proxy_reply else mask_redirect (rc_mask_domain config))\<rparr>\<rparr>)"
proof -
  obtain b where "(RealityServer_detect_ghost_auth g (rc_auth_key config) :: (RealityError, bool) res)
      = Ok b"
    using detect_auth_total by blast
  with assms show ?thesis
    by (cases b) (simp_all add: handle_tls_connection_def bind_def with_err_def on_in_def on_out_def
        read_some_def)
qed

theorem handle_tls_connection_masks_witness:
  "fst (handle_tls_connection RealityConfig_default (fresh_conn [lit ''GET / HTTP/1.1''])) = Ok ()"
proof -
  have "lit ''GET / HTTP/1.1'' \<noteq> []" and "length (lit ''GET / HTTP/1.1'') \<le> 4096" by simp_all
  from handle_tls_connection_masks [OF _ _ this, of "fresh_conn [lit ''GET / HTTP/1.1'']" "[]"] show ?thesis
    by (simp del: lit_Cons)
qed

end
