(* ===== verification/Display_Texts.thy ===== *)
theory Display_Texts
  imports Protocol Crypto Reality
begin

section \<open>The texts of addresses and errors\<close>

text \<open>
  The Display implementations: ghost-common/src/lib.rs (addresses, protocol errors), ghost-crypto/src/lib.rs,
  ghost-reality/src/lib.rs, and \<^verbatim>\<open>pretty_ip\<close> of ghost-tun/src/lib.rs. How the standard library prints an IPv6
  address and an I/O error are the arguments \<open>show_v6\<close> and \<open>show_io\<close>.
\<close>

definition dotted :: "bytes \<Rightarrow> bytes" where
  "dotted ip =
     dec_digits (unat (ip ! 0)) @ [46] @ dec_digits (unat (ip ! 1)) @ [46] @
     dec_digits (unat (ip ! 2)) @ [46] @ dec_digits (unat (ip ! 3))"

definition pretty_ip :: "bytes \<Rightarrow> bytes" where
  "pretty_ip ip = dotted ip"

text \<open>The standard library's text of an IPv4 socket address.\<close>

definition show_v4 :: "SocketAddrV4 \<Rightarrow> bytes" where
  "show_v4 a = dotted (be32 (v4_ip a)) @ [58] @ dec_digits (unat (v4_port a))"

fun TargetAddr_display :: "(SocketAddrV6 \<Rightarrow> bytes) \<Rightarrow> TargetAddr \<Rightarrow> bytes" where
  "TargetAddr_display show_v6 TargetNone = lit ''None''"
| "TargetAddr_display show_v6 (IpV4 a) = show_v4 a"
| "TargetAddr_display show_v6 (IpV6 a) = show_v6 a"
| "TargetAddr_display show_v6 (Domain d p) = d @ [58] @ dec_digits (unat p)"

fun ProtocolError_display :: "(io_error \<Rightarrow> bytes) \<Rightarrow> ProtocolError \<Rightarrow> bytes" where
  "ProtocolError_display show_io (InvalidVersion expected got) =
     lit ''invalid protocol version: expected '' @ dec_digits (unat expected) @ lit '', got '' @ dec_digits (unat got)"
| "ProtocolError_display show_io (InvalidAddrType t) =
     lit ''invalid address type: 0x'' @ fmt_hex 2 (unat t)"
| "ProtocolError_display show_io (FrameTooLarge n limit) =
     lit ''frame too large: '' @ dec_digits n @ lit '' > '' @ dec_digits limit"
| "ProtocolError_display show_io (BufferUnderflow need have') =
     lit ''buffer underflow: need '' @ dec_digits need @ lit '' bytes, have '' @ dec_digits have'"
| "ProtocolError_display show_io (InvalidDomainLength n) = lit ''invalid domain length: '' @ dec_digits n"
| "ProtocolError_display show_io (ProtocolIo e) = lit ''IO error: '' @ show_io e"

fun CryptoError_display :: "CryptoError \<Rightarrow> bytes" where
  "CryptoError_display (EncryptionFailed e) = lit ''encryption failed: '' @ e"
| "CryptoError_display (DecryptionFailed e) = lit ''decryption failed: '' @ e"
| "CryptoError_display (InvalidKeyLength len) =
     lit ''invalid key length: '' @ dec_digits len @ lit '' (expected '' @ dec_digits KEY_SIZE @ lit '')''"

fun RealityError_display :: "(io_error \<Rightarrow> bytes) \<Rightarrow> RealityError \<Rightarrow> bytes" where
  "RealityError_display show_io (TlsHandshake e) = lit ''TLS handshake failed: '' @ e"
| "RealityError_display show_io AuthFailed = lit ''client authentication failed: invalid auth token''"
| "RealityError_display show_io (SniMismatch expected got) =
     lit ''SNI mismatch: expected '' @ expected @ lit '', got '' @ got"
| "RealityError_display show_io (Ja4Rejected e) = lit ''JA4 fingerprint rejected: '' @ e"
| "RealityError_display show_io (CertificateError e) = lit ''certificate generation failed: '' @ e"
| "RealityError_display show_io (RealityIo e) = lit ''IO error: '' @ show_io e"

subsection \<open>The text of an IPv4 address tells the address\<close>

lemma digit_value: "k < 10 \<Longrightarrow> unat (of_nat (48 + k) :: u8) = 48 + k"
  by (simp only: unat_of_nat_byte) simp

lemma dec_digits_range: "b \<in> set (dec_digits n) \<Longrightarrow> 48 \<le> unat b \<and> unat b \<le> 57"
proof (induction n arbitrary: b rule: dec_digits.induct)
  case (1 n)
  have "unat (of_nat (48 + k) :: u8) = 48 + k" if "k < 10" for k using that by (rule digit_value)
  with 1 show ?case by (subst (asm) (2) dec_digits.simps) (auto split: if_splits)
qed

definition dec_value :: "bytes \<Rightarrow> nat" where
  "dec_value bs = foldl (\<lambda>n b. 10 * n + (unat b - 48)) 0 bs"

lemma dec_value_digits: "dec_value (dec_digits n) = n"
proof (induction n rule: dec_digits.induct)
  case (1 n)
  then show ?case
    by (subst dec_digits.simps) (simp add: dec_value_def digit_value del: of_nat_add)
qed

lemma dec_digits_inj [simp]: "dec_digits m = dec_digits n \<longleftrightarrow> m = n"
  using dec_value_digits by metis

text \<open>A number ends where a byte that is no digit begins.\<close>

lemma dec_digits_split:
  assumes "dec_digits m @ c # xs = dec_digits n @ d # ys" and "unat c < 48 \<or> 57 < unat c" and "unat d < 48 \<or> 57 < unat d"
  shows "m = n \<and> c = d \<and> xs = ys"
proof -
  let ?P = "\<lambda>b :: u8. 48 \<le> unat b \<and> unat b \<le> 57"
  have "takeWhile ?P (dec_digits k @ e # zs) = dec_digits k" if "unat e < 48 \<or> 57 < unat e" for k e zs
    using that dec_digits_range [of _ k] by (subst takeWhile_append2) auto
  from this [OF assms(2), of m xs] this [OF assms(3), of n ys] assms(1)
  have "dec_digits m = dec_digits n" by metis
  with assms(1) show ?thesis by simp
qed

text \<open>The text of an IPv4 target names exactly one address and port: two targets print alike only if they are equal. (A
  domain may print like an address: the text alone does not tell the two kinds apart.)\<close>

theorem TargetAddr_display_v4_inj:
  "TargetAddr_display show_v6 (IpV4 a) = TargetAddr_display show_v6 (IpV4 b) \<longleftrightarrow> a = b"
proof
  assume "TargetAddr_display show_v6 (IpV4 a) = TargetAddr_display show_v6 (IpV4 b)"
  then have eq: "show_v4 a = show_v4 b" by simp
  have four: "\<exists>a b c d. be32 w = [a, b, c, d]" for w
  proof -
    have "length (be32 w) = Suc (Suc (Suc (Suc 0)))" by simp
    then show ?thesis unfolding length_Suc_conv by auto
  qed
  obtain a0 a1 a2 a3 b0 b1 b2 b3 where ab: "be32 (v4_ip a) = [a0, a1, a2, a3]" "be32 (v4_ip b) = [b0, b1, b2, b3]"
    using four by meson
  have "a0 = b0 \<and> a1 = b1 \<and> a2 = b2 \<and> a3 = b3 \<and> v4_port a = v4_port b"
    using eq by (auto simp: show_v4_def dotted_def ab word_unat_eq_iff dest!: dec_digits_split)
  moreover from this ab have "v4_ip a = v4_ip b" by (metis of_be32_be32)
  ultimately show "a = b" by (cases a; cases b) simp
qed simp

end
