(* ===== verification/Relay.thy ===== *)
theory Relay
  imports Crypto Protocol
begin

section \<open>The relay loops: frames over a connection\<close>

text \<open>
  Once a tunnel is open, both programs run the same two loops, one per direction
  (ghost-server/src/handler.rs and ghost-client/src/tunnel.rs): one reads chunks of plain
  data, puts each in a frame, encrypts it and sends it behind its length; the other reads
  length, packet, decrypts, decodes and writes the payload. A loop works on a \<open>pipe\<close>: the
  random generator of the process, the stream it reads and the stream it writes. The body
  of a loop is a step whose error is the reason to leave the loop.
\<close>

record 'r pipe =
  p_rng :: 'r
  p_src :: source
  p_dst :: writer

datatype loop_end =
    EndOfStream
  | ReadFailed io_error
  | FrameTooBig nat
  | DecryptFailed CryptoError
  | DecodeFailed ProtocolError
  | EncryptFailed CryptoError
  | WriteFailed io_error
  | TaskPanic

definition on_rng :: "('r, 'e, 'a) stm \<Rightarrow> ('r pipe, 'e, 'a) stm" where
  "on_rng m p = (case m (p_rng p) of (r, s) \<Rightarrow> (r, p\<lparr>p_rng := s\<rparr>))"

definition on_src :: "(source, 'e, 'a) stm \<Rightarrow> ('r pipe, 'e, 'a) stm" where
  "on_src m p = (case m (p_src p) of (r, s) \<Rightarrow> (r, p\<lparr>p_src := s\<rparr>))"

definition on_dst :: "(writer, 'e, 'a) stm \<Rightarrow> ('r pipe, 'e, 'a) stm" where
  "on_dst m p = (case m (p_dst p) of (r, w) \<Rightarrow> (r, p\<lparr>p_dst := w\<rparr>))"

text \<open>A draw from the generator as a computation.\<close>

definition draw :: "('r \<Rightarrow> 'a \<times> 'r) \<Rightarrow> ('r, 'e, 'a) stm" where
  "draw f s = (case f s of (x, t) \<Rightarrow> (Ok x, t))"

lemma on_rng_OkD: "on_rng m p = (Ok x, q) \<longleftrightarrow> (\<exists>t. m (p_rng p) = (Ok x, t) \<and> q = p\<lparr>p_rng := t\<rparr>)"
  by (cases "m (p_rng p)") (auto simp: on_rng_def)

lemma on_src_OkD: "on_src m p = (Ok x, q) \<longleftrightarrow> (\<exists>t. m (p_src p) = (Ok x, t) \<and> q = p\<lparr>p_src := t\<rparr>)"
  by (cases "m (p_src p)") (auto simp: on_src_def)

lemma on_dst_OkD: "on_dst m p = (Ok x, q) \<longleftrightarrow> (\<exists>t. m (p_dst p) = (Ok x, t) \<and> q = p\<lparr>p_dst := t\<rparr>)"
  by (cases "m (p_dst p)") (auto simp: on_dst_def)

lemma draw_OkD: "draw f s = (Ok x, t) \<longleftrightarrow> f s = (x, t)"
  by (cases "f s") (simp add: draw_def)

lemmas pipe_OkD = on_rng_OkD on_src_OkD on_dst_OkD draw_OkD

lemma panic_free_on_rng [panic_free_intros]: "panic_free m (p_rng p) \<Longrightarrow> panic_free (on_rng m) p"
  by (cases "m (p_rng p)") (simp add: on_rng_def panic_free_def)

lemma panic_free_on_src [panic_free_intros]: "panic_free m (p_src p) \<Longrightarrow> panic_free (on_src m) p"
  by (cases "m (p_src p)") (simp add: on_src_def panic_free_def)

lemma panic_free_on_dst [panic_free_intros]: "panic_free m (p_dst p) \<Longrightarrow> panic_free (on_dst m) p"
  by (cases "m (p_dst p)") (simp add: on_dst_def panic_free_def)

lemma panic_free_draw [panic_free_intros]: "panic_free (draw f) s"
  by (cases "f s") (simp add: draw_def panic_free_def)

lemma panic_free_lift_res: "r \<noteq> Panic \<Longrightarrow> panic_free (lift_res r) s"
  by (simp add: panic_free_def)

subsection \<open>The loops of the server\<close>

definition ENC_BUF_LEN :: nat where
  "ENC_BUF_LEN = 65536 + 256"

definition CHUNK_LEN :: nat where
  "CHUNK_LEN = 8192"

text \<open>An end of file before a length field ends the loop quietly.\<close>

definition end_of_read :: "io_error \<Rightarrow> loop_end" where
  "end_of_read e = (if e = UnexpectedEof then EndOfStream else ReadFailed e)"

definition server_upload_step :: "GhostCipher \<Rightarrow> ('r pipe, loop_end, unit) stm" where
  "server_upload_step cipher_c2s =
     bind (with_err end_of_read (on_src (read_exact 2))) (\<lambda>len_buf.
     let frame_len = unat (of_be16 len_buf) in
     if frame_len > ENC_BUF_LEN then throw (FrameTooBig frame_len)
     else
       bind (with_err ReadFailed (on_src (read_exact frame_len))) (\<lambda>enc_buf.
       bind (with_err DecryptFailed (lift_res (GhostCipher_decrypt cipher_c2s enc_buf))) (\<lambda>plaintext.
       bind (with_err DecodeFailed (lift_res (GhostFrame_decode plaintext))) (\<lambda>frame.
       if gf_payload frame = [] then ret ()
       else with_err WriteFailed (on_dst (write_all (gf_payload frame)))))))"

definition server_download_step ::
  "'r rng \<Rightarrow> ServerConfig \<Rightarrow> bytes \<Rightarrow> GhostCipher \<Rightarrow> ('r pipe, loop_end, unit) stm" where
  "server_download_step R config user_id cipher_s2c =
     bind (with_err ReadFailed (on_src (read_some CHUNK_LEN))) (\<lambda>buf.
     if buf = [] then throw EndOfStream
     else
       let frame = GhostFrame_new user_id TargetNone buf in
       bind (if sc_enable_padding config
             then on_rng (draw (with_random_padding R (unat (sc_max_padding_len config)) frame))
             else ret frame) (\<lambda>frame.
       bind (lift_res (GhostFrame_encode frame)) (\<lambda>frame_data.
       bind (with_err EncryptFailed (on_rng (GhostCipher_encrypt R cipher_s2c frame_data))) (\<lambda>encrypted.
       let len = of_nat (length encrypted) :: u16 in
       bind (with_err WriteFailed (on_dst (write_all (be16 len)))) (\<lambda>_.
       with_err WriteFailed (on_dst (write_all encrypted)))))))"

subsection \<open>The loops of the client\<close>

definition client_upload_step ::
  "'r rng \<Rightarrow> ClientConfig \<Rightarrow> bytes \<Rightarrow> GhostCipher \<Rightarrow> ('r pipe, loop_end, unit) stm" where
  "client_upload_step R config user_id cipher_c2s =
     bind (with_err ReadFailed (on_src (read_some CHUNK_LEN))) (\<lambda>buf.
     if buf = [] then throw EndOfStream
     else
       let frame = GhostFrame_new user_id TargetNone buf in
       bind (if cc_enable_padding config
             then on_rng (draw (with_random_padding R (unat (cc_max_padding_len config)) frame))
             else ret frame) (\<lambda>frame.
       bind (lift_res (GhostFrame_encode frame)) (\<lambda>frame_data.
       bind (with_err EncryptFailed (on_rng (GhostCipher_encrypt R cipher_c2s frame_data))) (\<lambda>encrypted.
       let len = of_nat (length encrypted) :: u16 in
       bind (with_err WriteFailed (on_dst (write_all (be16 len)))) (\<lambda>_.
       with_err WriteFailed (on_dst (write_all encrypted)))))))"

definition client_download_step :: "GhostCipher \<Rightarrow> ('r pipe, loop_end, unit) stm" where
  "client_download_step cipher_s2c =
     bind (with_err end_of_read (on_src (read_exact 2))) (\<lambda>len_buf.
     let frame_len = unat (of_be16 len_buf) in
     if frame_len > ENC_BUF_LEN then throw (FrameTooBig frame_len)
     else
       bind (with_err ReadFailed (on_src (read_exact frame_len))) (\<lambda>enc_buf.
       bind (with_err DecryptFailed (lift_res (GhostCipher_decrypt cipher_s2c enc_buf))) (\<lambda>plaintext.
       bind (with_err DecodeFailed (lift_res (GhostFrame_decode plaintext))) (\<lambda>frame.
       if gf_payload frame = [] then ret ()
       else with_err WriteFailed (on_dst (write_all (gf_payload frame)))))))"

text \<open>
  The receiving loops of the two programs are the same, and so are the sending loops up to
  where their configuration says how much to pad.
\<close>

lemma client_download_is_server_upload: "client_download_step = server_upload_step"
  by (intro ext) (simp add: client_download_step_def server_upload_step_def)

definition send_step ::
  "'r rng \<Rightarrow> bool \<Rightarrow> u8 \<Rightarrow> bytes \<Rightarrow> GhostCipher \<Rightarrow> ('r pipe, loop_end, unit) stm" where
  "send_step R padding max_len user_id cipher =
     bind (with_err ReadFailed (on_src (read_some CHUNK_LEN))) (\<lambda>buf.
     if buf = [] then throw EndOfStream
     else
       let frame = GhostFrame_new user_id TargetNone buf in
       bind (if padding then on_rng (draw (with_random_padding R (unat max_len) frame))
             else ret frame) (\<lambda>frame.
       bind (lift_res (GhostFrame_encode frame)) (\<lambda>frame_data.
       bind (with_err EncryptFailed (on_rng (GhostCipher_encrypt R cipher frame_data))) (\<lambda>encrypted.
       let len = of_nat (length encrypted) :: u16 in
       bind (with_err WriteFailed (on_dst (write_all (be16 len)))) (\<lambda>_.
       with_err WriteFailed (on_dst (write_all encrypted)))))))"

lemma client_upload_is_send:
  "client_upload_step R config uid c =
     send_step R (cc_enable_padding config) (cc_max_padding_len config) uid c"
  by (simp only: client_upload_step_def send_step_def)

lemma server_download_is_send:
  "server_download_step R config uid c =
     send_step R (sc_enable_padding config) (sc_max_padding_len config) uid c"
  by (simp only: server_download_step_def send_step_def)

subsection \<open>Every step that goes on consumes input\<close>

lemma recv_step_decreases:
  assumes "server_upload_step c p = (Ok u, q)"
  shows "src_size (p_src q) < src_size (p_src p)"
proof -
  obtain x s y t where x: "read_exact 2 (p_src p) = (Ok x, s)"
    and y: "read_exact (unat (of_be16 x)) s = (Ok y, t)" and q: "p_src q = t"
    using assms
    by (auto simp: server_upload_step_def bind_eq_Ok pipe_OkD Let_def split: if_splits)
  from read_exact_decreases [OF x] read_exact_size_le [OF y] q show ?thesis by simp
qed

lemma send_step_decreases:
  assumes "send_step R padding m uid c p = (Ok u, q)"
  shows "src_size (p_src q) < src_size (p_src p)"
proof -
  obtain x s where x: "read_some CHUNK_LEN (p_src p) = (Ok x, s)" "x \<noteq> []" and q: "p_src q = s"
    using assms
    by (auto simp: send_step_def bind_eq_Ok pipe_OkD Let_def split: if_splits)
  from read_some_decreases [OF x] q show ?thesis by simp
qed

function server_upload :: "GhostCipher \<Rightarrow> 'r pipe \<Rightarrow> loop_end \<times> 'r pipe" where
  "server_upload c p =
     (case server_upload_step c p of
        (Ok _, q) \<Rightarrow> server_upload c q
      | (Err e, q) \<Rightarrow> (e, q)
      | (Panic, q) \<Rightarrow> (TaskPanic, q))"
  by pat_completeness auto
termination
  by (relation "measure (\<lambda>(c, p). src_size (p_src p))") (auto dest: sym intro: recv_step_decreases)

function server_download ::
  "'r rng \<Rightarrow> ServerConfig \<Rightarrow> bytes \<Rightarrow> GhostCipher \<Rightarrow> 'r pipe \<Rightarrow> loop_end \<times> 'r pipe" where
  "server_download R config uid c p =
     (case server_download_step R config uid c p of
        (Ok _, q) \<Rightarrow> server_download R config uid c q
      | (Err e, q) \<Rightarrow> (e, q)
      | (Panic, q) \<Rightarrow> (TaskPanic, q))"
  by pat_completeness auto
termination
  by (relation "measure (\<lambda>(R, config, uid, c, p). src_size (p_src p))")
    (auto simp: server_download_is_send dest!: sym [of "send_step _ _ _ _ _ _"] intro: send_step_decreases)

function client_upload ::
  "'r rng \<Rightarrow> ClientConfig \<Rightarrow> bytes \<Rightarrow> GhostCipher \<Rightarrow> 'r pipe \<Rightarrow> loop_end \<times> 'r pipe" where
  "client_upload R config uid c p =
     (case client_upload_step R config uid c p of
        (Ok _, q) \<Rightarrow> client_upload R config uid c q
      | (Err e, q) \<Rightarrow> (e, q)
      | (Panic, q) \<Rightarrow> (TaskPanic, q))"
  by pat_completeness auto
termination
  by (relation "measure (\<lambda>(R, config, uid, c, p). src_size (p_src p))")
    (auto simp: client_upload_is_send dest!: sym [of "send_step _ _ _ _ _ _"] intro: send_step_decreases)

function client_download :: "GhostCipher \<Rightarrow> 'r pipe \<Rightarrow> loop_end \<times> 'r pipe" where
  "client_download c p =
     (case client_download_step c p of
        (Ok _, q) \<Rightarrow> client_download c q
      | (Err e, q) \<Rightarrow> (e, q)
      | (Panic, q) \<Rightarrow> (TaskPanic, q))"
  by pat_completeness auto
termination
  by (relation "measure (\<lambda>(c, p). src_size (p_src p))")
    (auto simp: client_download_is_server_upload dest: sym intro: recv_step_decreases)

declare server_upload.simps [simp del] server_download.simps [simp del]
  client_upload.simps [simp del] client_download.simps [simp del]

subsection \<open>The contract of a relay loop\<close>

text \<open>
  What the four loops share: the loop repeats its step until the step fails, and a step
  that succeeds makes its input smaller, so every loop ends.
\<close>

locale relay_loop =
  fixes step :: "('r pipe, loop_end, unit) stm" and loop :: "'r pipe \<Rightarrow> loop_end \<times> 'r pipe"
  assumes loop_unfold: "loop p =
      (case step p of (Ok _, q) \<Rightarrow> loop q | (Err e, q) \<Rightarrow> (e, q) | (Panic, q) \<Rightarrow> (TaskPanic, q))"
    and step_less: "step p = (Ok u, q) \<Longrightarrow> src_size (p_src q) < src_size (p_src p)"
begin

lemma loop_induct:
  assumes "\<And>p. (\<And>q u. step p = (Ok u, q) \<Longrightarrow> P q) \<Longrightarrow> P p"
  shows "P p"
proof (induction "src_size (p_src p)" arbitrary: p rule: less_induct)
  case less
  show ?case
  proof (rule assms)
    fix q u assume "step p = (Ok u, q)"
    then show "P q" using less step_less by blast
  qed
qed

lemma loop_Ok: "step p = (Ok u, q) \<Longrightarrow> loop p = loop q"
  by (subst loop_unfold) simp

lemma loop_Err: "step p = (Err e, q) \<Longrightarrow> loop p = (e, q)"
  by (subst loop_unfold) simp

lemma loop_Panic: "step p = (Panic, q) \<Longrightarrow> loop p = (TaskPanic, q)"
  by (subst loop_unfold) simp

lemma loop_invariant:
  assumes "I p" and "\<And>p r q. I p \<Longrightarrow> step p = (r, q) \<Longrightarrow> I q"
  shows "I (snd (loop p))"
  using assms(1)
proof (induction p rule: loop_induct)
  case (1 p)
  obtain r q where s: "step p = (r, q)" by fastforce
  with 1(2) assms(2) have "I q" by blast
  with s 1(1) show ?case by (cases r) (simp_all add: loop_Ok loop_Err loop_Panic)
qed

text \<open>The reason a loop ends is the failure of its last step.\<close>

lemma loop_end_reason:
  obtains q where "step q = (Err (fst (loop p)), snd (loop p))"
    | q where "fst (loop p) = TaskPanic" "step q = (Panic, snd (loop p))"
proof (induction p arbitrary: thesis rule: loop_induct)
  case (1 p)
  obtain r q where s: "step p = (r, q)" by fastforce
  show ?case
  proof (cases r)
    case (Ok u)
    with s have "step p = (Ok u, q)" by simp
    with 1 show ?thesis by (metis loop_Ok)
  qed (use s 1(2,3) in \<open>auto simp: loop_Err loop_Panic\<close>)
qed

end

interpretation server_upload: relay_loop "server_upload_step c" "server_upload c" for c
  by unfold_locales (rule server_upload.simps, rule recv_step_decreases)

interpretation client_download: relay_loop "client_download_step c" "client_download c" for c
  by unfold_locales (rule client_download.simps, simp add: client_download_is_server_upload recv_step_decreases)

interpretation server_download:
  relay_loop "server_download_step R config uid c" "server_download R config uid c" for R config uid c
  by unfold_locales (rule server_download.simps, simp add: server_download_is_send send_step_decreases)

interpretation client_upload:
  relay_loop "client_upload_step R config uid c" "client_upload R config uid c" for R config uid c
  by unfold_locales (rule client_upload.simps, simp add: client_upload_is_send send_step_decreases)

lemma client_download_eq: "client_download c p = server_upload c p"
proof (induction p rule: server_upload.loop_induct [of c])
  case (1 p)
  then show ?case
    by (subst client_download.simps, subst server_upload.simps)
      (auto simp: client_download_is_server_upload split: prod.splits res.splits)
qed

subsection \<open>What a sending step writes\<close>

text \<open>A packet on the wire, and the data it carries under a cipher.\<close>

definition packet :: "GhostCipher \<Rightarrow> bytes \<Rightarrow> bytes \<Rightarrow> bool" where
  "packet c w bs \<longleftrightarrow>
     (\<exists>d pt f. w = be16 (of_nat (length d)) @ d \<and> length d < 65536 \<and>
        GhostCipher_decrypt c d = Ok pt \<and> GhostFrame_decode pt = Ok f \<and> gf_payload f = bs)"

definition data_frame :: "bytes \<Rightarrow> bytes \<Rightarrow> GhostFrame \<Rightarrow> bool" where
  "data_frame uid buf f \<longleftrightarrow>
     (\<exists>pad. length pad \<le> 255 \<and> f = (GhostFrame_new uid TargetNone buf)\<lparr>gf_padding := pad\<rparr>)"

lemma data_frame_wire:
  assumes "data_frame uid buf f" and "length uid = USER_ID_LEN" and "length buf \<le> CHUNK_LEN"
  shows "GhostFrame_encode f = Ok (frame_wire f)" and "GhostFrame_decode (frame_wire f) = Ok f"
    and "gf_payload f = buf" and "length (frame_wire f) \<le> 8500"
proof -
  from assms have w: "wf_frame f"
    by (auto simp: data_frame_def wf_frame_def GhostFrame_new_def CHUNK_LEN_def)
  then show "GhostFrame_encode f = Ok (frame_wire f)"
    by (intro GhostFrame_encode_fits wf_addr_fits) (simp add: wf_frame_def)
  show "GhostFrame_decode (frame_wire f) = Ok f"
    using frame_code.decode_enc_exact [OF w] by (simp add: GhostFrame_decode_def)
  show "gf_payload f = buf" using assms(1) by (auto simp: data_frame_def GhostFrame_new_def)
  show "length (frame_wire f) \<le> 8500"
    using assms by (auto simp: data_frame_def frame_wire_def GhostFrame_new_def CHUNK_LEN_def USER_ID_LEN_def)
qed

lemma data_frame_new: "data_frame uid buf (GhostFrame_new uid TargetNone buf)"
  by (auto simp: data_frame_def GhostFrame_new_def intro!: exI [of _ "[]"])

lemma data_frame_padded:
  assumes "rng_ok R" and "with_random_padding R m (GhostFrame_new uid TargetNone buf) s = (f, t)"
  shows "data_frame uid buf f"
  using assms
proof (rule with_random_padding_shape)
  fix pad assume "f = (GhostFrame_new uid TargetNone buf)\<lparr>gf_padding := pad\<rparr>"
    and "length pad \<le> min m MAX_PADDING_LEN"
  then show ?thesis by (auto simp: data_frame_def MAX_PADDING_LEN_def)
qed

text \<open>Building the packet: the padding, the encoding and the encryption of a sending step.\<close>

definition seal_chunk ::
  "'r rng \<Rightarrow> bool \<Rightarrow> u8 \<Rightarrow> bytes \<Rightarrow> GhostCipher \<Rightarrow> bytes \<Rightarrow> ('r pipe, loop_end, bytes) stm" where
  "seal_chunk R padding max_len user_id cipher buf =
     (let frame = GhostFrame_new user_id TargetNone buf in
       bind (if padding then on_rng (draw (with_random_padding R (unat max_len) frame))
             else ret frame) (\<lambda>frame.
       bind (lift_res (GhostFrame_encode frame)) (\<lambda>frame_data.
       with_err EncryptFailed (on_rng (GhostCipher_encrypt R cipher frame_data)))))"

lemma bind_assoc: "bind (bind m f) g = bind m (\<lambda>x. bind (f x) g)"
  by (rule ext) (simp add: bind_def split: prod.splits res.splits)

lemma send_step_seal:
  "send_step R padding m uid c =
     bind (with_err ReadFailed (on_src (read_some CHUNK_LEN))) (\<lambda>buf.
     if buf = [] then throw EndOfStream
     else bind (seal_chunk R padding m uid c buf) (\<lambda>encrypted.
       bind (with_err WriteFailed (on_dst (write_all (be16 (of_nat (length encrypted)))))) (\<lambda>_.
       with_err WriteFailed (on_dst (write_all encrypted)))))"
  by (rule ext) (simp add: send_step_def seal_chunk_def bind_assoc Let_def cong: if_cong)

lemma seal_chunk_Ok:
  assumes "rng_ok R" and "cipher_ok c" and "length uid = USER_ID_LEN" and "length buf \<le> CHUNK_LEN"
  obtains d t where "seal_chunk R padding m uid c buf p = (Ok d, p\<lparr>p_rng := t\<rparr>)"
    and "packet c (be16 (of_nat (length d)) @ d) buf"
proof -
  let ?frame = "GhostFrame_new uid TargetNone buf"
  obtain f s where f: "(if padding then on_rng (draw (with_random_padding R (unat m) ?frame))
      else ret ?frame) p = ((Ok f :: (loop_end, GhostFrame) res), p\<lparr>p_rng := s\<rparr>)"
    and d: "data_frame uid buf f"
  proof (cases padding)
    case True
    obtain f s where w: "with_random_padding R (unat m) ?frame (p_rng p) = (f, s)" by fastforce
    with True show thesis
      by (intro that [of f s]) (simp_all add: on_rng_def draw_def data_frame_padded [OF assms(1) w])
  next
    case False
    then show thesis by (intro that [of ?frame "p_rng p"]) (simp_all add: data_frame_new)
  qed
  note wire = data_frame_wire [OF d assms(3,4)]
  have g: "rng_ok R \<and> cipher_ok c" using assms by simp
  have "length (frame_wire f) < 2 ^ 32" using wire(4) by simp
  from ghost_cipher.seal_open [OF g this, of s]
  obtain e t where e: "GhostCipher_encrypt R c (frame_wire f) s = (Ok e, t)"
    and o: "GhostCipher_decrypt c e = Ok (frame_wire f)"
    and l: "length e = length (frame_wire f) + (NONCE_SIZE + TAG_SIZE)"
    by metis
  have "seal_chunk R padding m uid c buf p = (Ok e, p\<lparr>p_rng := t\<rparr>)"
    using f e by (simp add: seal_chunk_def Let_def bind_def with_err_def on_rng_def wire(1))
  moreover have "packet c (be16 (of_nat (length e)) @ e) buf"
    using o wire l by (auto simp: packet_def crypto_sizes)
  ultimately show thesis by (rule that)
qed

lemma read_some_not_Panic [simp]: "read_some n s \<noteq> (Panic, t)"
  by (auto simp: read_some_def split: list.splits option.splits)

text \<open>Into a stream that takes everything, a sending step sends the packet of what it read.\<close>

lemma send_step_cases:
  assumes "rng_ok R" and "cipher_ok c" and "length uid = USER_ID_LEN" and "wr_limit (p_dst p) = None"
  obtains s where "read_some CHUNK_LEN (p_src p) = (Ok [], s)"
      "send_step R padding m uid c p = (Err EndOfStream, p\<lparr>p_src := s\<rparr>)"
    | e s where "read_some CHUNK_LEN (p_src p) = (Err e, s)"
      "send_step R padding m uid c p = (Err (ReadFailed e), p\<lparr>p_src := s\<rparr>)"
    | buf s t w where "read_some CHUNK_LEN (p_src p) = (Ok buf, s)" "buf \<noteq> []" "packet c w buf"
      "send_step R padding m uid c p =
         (Ok (), \<lparr>p_rng = t, p_src = s, p_dst = (p_dst p)\<lparr>wr_data := wr_data (p_dst p) @ w\<rparr>\<rparr>)"
proof -
  obtain r s where r: "read_some CHUNK_LEN (p_src p) = (r, s)" by fastforce
  consider "r = Ok []" | e where "r = Err e" | buf where "r = Ok buf" "buf \<noteq> []"
    using r by (cases r) auto
  then show thesis
  proof cases
    case 3
    with r have "length buf \<le> CHUNK_LEN" using read_some_cap by blast
    then obtain d t where d: "seal_chunk R padding m uid c buf (p\<lparr>p_src := s\<rparr>) = (Ok d, p\<lparr>p_src := s, p_rng := t\<rparr>)"
      and w: "packet c (be16 (of_nat (length d)) @ d) buf"
      using seal_chunk_Ok [OF assms(1-3)] by metis
    show ?thesis
      by (rule that(3) [OF _ 3(2) w, of s t])
        (use r 3 d assms(4) in \<open>simp_all add: send_step_seal bind_def with_err_def on_src_def on_dst_def\<close>)
  qed (use r that in \<open>simp_all add: send_step_def bind_def with_err_def on_src_def\<close>)
qed

subsection \<open>The receiving loop as a function of the bytes\<close>

text \<open>
  The abstract specification of a receiving loop: from the bytes a stream will deliver,
  however they are cut into segments, and the way the stream ends, the data delivered
  and the reason the loop ends.
\<close>

function open_stream :: "GhostCipher \<Rightarrow> io_error \<Rightarrow> bytes \<Rightarrow> bytes \<times> loop_end" where
  "open_stream c flt w =
     (if length w < 2 then ([], end_of_read flt)
      else
        let n = unat (of_be16 (take 2 w)); rest = drop 2 w in
        if length rest < n then ([], ReadFailed flt)
        else
          case GhostCipher_decrypt c (take n rest) of
            Err e \<Rightarrow> ([], DecryptFailed e)
          | Panic \<Rightarrow> ([], TaskPanic)
          | Ok pt \<Rightarrow>
              (case GhostFrame_decode pt of
                 Err e \<Rightarrow> ([], DecodeFailed e)
               | Panic \<Rightarrow> ([], TaskPanic)
               | Ok f \<Rightarrow>
                   (case open_stream c flt (drop n rest) of
                      (bs, e) \<Rightarrow> (gf_payload f @ bs, e))))"
  by pat_completeness auto
termination
  by (relation "measure (\<lambda>(c, flt, w). length w)") auto

declare open_stream.simps [simp del]

text \<open>The error a read past the end gives.\<close>

definition fault_of :: "source \<Rightarrow> io_error" where
  "fault_of s = (case src_fault s of None \<Rightarrow> UnexpectedEof | Some e \<Rightarrow> e)"

lemma of_be16_bound: "\<not> ENC_BUF_LEN < unat (of_be16 x)"
  unfolding ENC_BUF_LEN_def using unat_u16_lt [of "of_be16 x"] by linarith

text \<open>
  The buffer of the receiving loop is larger than any 16-bit length, so the check against
  it never fires.
\<close>

lemma recv_step_unfold:
  "server_upload_step c p =
     bind (with_err end_of_read (on_src (read_exact 2))) (\<lambda>len_buf.
     bind (with_err ReadFailed (on_src (read_exact (unat (of_be16 len_buf))))) (\<lambda>enc_buf.
     bind (with_err DecryptFailed (lift_res (GhostCipher_decrypt c enc_buf))) (\<lambda>plaintext.
     bind (with_err DecodeFailed (lift_res (GhostFrame_decode plaintext))) (\<lambda>frame.
     if gf_payload frame = [] then ret ()
     else with_err WriteFailed (on_dst (write_all (gf_payload frame))))))) p"
  by (simp add: server_upload_step_def Let_def of_be16_bound)

lemma decode_not_Panic [simp]: "GhostFrame_decode b \<noteq> Panic"
  using panic_free_GhostFrame_decode [of b] by (simp add: GhostFrame_decode_def panic_free_def)

lemma decrypt_not_Panic [simp]: "GhostCipher_decrypt c d \<noteq> Panic"
  by (auto simp: GhostCipher_decrypt_def Let_def split: option.splits)

lemma read_exact_eq:
  "read_exact n s =
     (if n \<le> length (src_data s)
      then (Ok (take n (src_data s)), s\<lparr>src_segs := drop_segs n (src_segs s)\<rparr>)
      else (Err (fault_of s), s\<lparr>src_segs := []\<rparr>))"
  by (simp add: read_exact_def fault_of_def)

lemma src_data_drop [simp]:
  "src_data (s\<lparr>src_segs := drop_segs n (src_segs s)\<rparr>) = drop n (src_data s)"
  "src_data (s\<lparr>src_segs := drop_segs n (drop_segs m (src_segs s))\<rparr>) = drop n (drop m (src_data s))"
  by (simp_all add: src_data_def concat_drop_segs)

lemma fault_of_segs [simp]: "fault_of (s\<lparr>src_segs := g\<rparr>) = fault_of s"
  by (simp add: fault_of_def)

text \<open>The server's upload loop refines its specification: how the network cuts the stream
  into segments makes no difference, and into a target that takes everything the loop
  writes exactly the data of \<open>open_stream\<close> and ends for its reason.\<close>

lemma server_upload_opens:
  assumes "wr_limit (p_dst p) = None" and "server_upload c p = (e, q)"
  shows "e = snd (open_stream c (fault_of (p_src p)) (src_data (p_src p))) \<and>
    p_dst q = (p_dst p)\<lparr>wr_data := wr_data (p_dst p) @
      fst (open_stream c (fault_of (p_src p)) (src_data (p_src p)))\<rparr>"
  using assms
proof (induction p arbitrary: e q rule: server_upload.loop_induct [of c])
  case (1 p)
  let ?s = "p_src p" and ?w = "src_data (p_src p)"
  let ?n = "unat (of_be16 (take 2 ?w))"
  let ?s1 = "?s\<lparr>src_segs := drop_segs 2 (src_segs ?s)\<rparr>"
  let ?s2 = "?s1\<lparr>src_segs := drop_segs ?n (src_segs ?s1)\<rparr>"
  let ?d = "take ?n (drop 2 ?w)"
  consider "length ?w < 2" | "2 \<le> length ?w" "length (drop 2 ?w) < ?n"
    | err where "2 \<le> length ?w" "?n \<le> length (drop 2 ?w)" "GhostCipher_decrypt c ?d = Err err"
    | pt err where "2 \<le> length ?w" "?n \<le> length (drop 2 ?w)" "GhostCipher_decrypt c ?d = Ok pt"
        "GhostFrame_decode pt = Err err"
    | pt f where "2 \<le> length ?w" "?n \<le> length (drop 2 ?w)" "GhostCipher_decrypt c ?d = Ok pt"
        "GhostFrame_decode pt = Ok f"
    by (metis decode_not_Panic decrypt_not_Panic not_le res.exhaust)
  then show ?case
  proof cases
    case 5
    define q1 where "q1 = p\<lparr>p_src := ?s2, p_dst := (p_dst p)\<lparr>wr_data := wr_data (p_dst p) @ gf_payload f\<rparr>\<rparr>"
    have step: "server_upload_step c p = (Ok (), q1)"
      using 5 1(2) by (cases "gf_payload f = []")
        (simp_all add: recv_step_unfold bind_def with_err_def on_src_def on_dst_def read_exact_eq q1_def)
    then have "server_upload c q1 = (e, q)" using 1(3) server_upload.loop_Ok by metis
    moreover have "wr_limit (p_dst q1) = None" using 1(2) by (simp add: q1_def)
    ultimately have "e = snd (open_stream c (fault_of (p_src q1)) (src_data (p_src q1))) \<and>
      p_dst q = (p_dst q1)\<lparr>wr_data := wr_data (p_dst q1) @
        fst (open_stream c (fault_of (p_src q1)) (src_data (p_src q1)))\<rparr>"
      using 1(1) [OF step] by blast
    moreover have "open_stream c (fault_of ?s) ?w =
        (case open_stream c (fault_of (p_src q1)) (src_data (p_src q1)) of
           (bs, e) \<Rightarrow> (gf_payload f @ bs, e))"
      using 5 by (subst open_stream.simps) (simp add: q1_def Let_def)
    ultimately show ?thesis by (simp add: q1_def case_prod_beta)
  qed (use 1(2,3) in \<open>auto simp: open_stream.simps [of c "fault_of ?s" ?w] Let_def
         server_upload.simps [of c p] recv_step_unfold bind_def with_err_def on_src_def read_exact_eq
         lift_res_def\<close>)
qed

subsection \<open>Opening what was sent\<close>

lemma open_stream_packet:
  assumes "packet c w bs"
  shows "open_stream c flt (w @ rest) = (case open_stream c flt rest of (bs', e) \<Rightarrow> (bs @ bs', e))"
proof -
  obtain d pt f where w: "w = be16 (of_nat (length d)) @ d" and l: "length d < 65536"
    and o: "GhostCipher_decrypt c d = Ok pt" "GhostFrame_decode pt = Ok f" "gf_payload f = bs"
    using assms by (auto simp: packet_def)
  have n: "unat (of_be16 (be16 (of_nat (length d)))) = length d" using l by simp
  have "take 2 (w @ rest) = be16 (of_nat (length d))" and "drop 2 (w @ rest) = d @ rest"
    by (simp_all add: w)
  with n o show ?thesis
    by (subst open_stream.simps) (simp add: Let_def w)
qed

text \<open>More input only adds to what is delivered.\<close>

lemma open_stream_prefix:
  "\<exists>more. fst (open_stream c flt' (w @ rest)) = fst (open_stream c flt w) @ more"
proof (induction c flt w rule: open_stream.induct)
  case (1 c flt w)
  let ?n = "unat (of_be16 (take 2 w))" and ?r = "drop 2 w"
  show ?case
  proof (cases "length w < 2 \<or> length ?r < ?n")
    case True
    then have "fst (open_stream c flt w) = []"
      by (subst open_stream.simps) (auto simp: Let_def)
    then show ?thesis by simp
  next
    case False
    then have l: "\<not> length w < 2" "\<not> length ?r < ?n" by auto
    have t: "take 2 (w @ rest) = take 2 w" "drop 2 (w @ rest) = ?r @ rest"
      "take ?n (?r @ rest) = take ?n ?r" "drop ?n (?r @ rest) = drop ?n ?r @ rest"
      "\<not> length w + length rest - 2 < ?n"
      using l by simp_all
    note u = open_stream.simps [of c flt w] open_stream.simps [of c flt' "w @ rest"]
    show ?thesis
    proof (cases "GhostCipher_decrypt c (take ?n ?r)")
      case (Ok pt)
      show ?thesis
      proof (cases "GhostFrame_decode pt")
        case (Ok f)
        from 1 [OF l(1) refl refl l(2) \<open>GhostCipher_decrypt c (take ?n ?r) = Ok pt\<close> Ok]
        obtain more where "fst (open_stream c flt' (drop ?n ?r @ rest)) = fst (open_stream c flt (drop ?n ?r)) @ more"
          by blast
        moreover have "fst (open_stream c flt w) = gf_payload f @ fst (open_stream c flt (drop ?n ?r))"
          using Ok \<open>GhostCipher_decrypt c (take ?n ?r) = Ok pt\<close> l
          by (subst open_stream.simps) (simp add: Let_def case_prod_beta)
        moreover have "fst (open_stream c flt' (w @ rest)) =
            gf_payload f @ fst (open_stream c flt' (drop ?n ?r @ rest))"
          using Ok \<open>GhostCipher_decrypt c (take ?n ?r) = Ok pt\<close> l
          by (subst open_stream.simps) (simp add: Let_def case_prod_beta t del: drop_append take_append)
        ultimately show ?thesis by simp
      qed (use l Ok in \<open>simp_all add: u Let_def\<close>)
    qed (use l in \<open>simp_all add: u Let_def\<close>)
  qed
qed

text \<open>\<open>carries c w bs\<close>: in any stream, \<open>w\<close> delivers \<open>bs\<close> and what follows it is opened next.\<close>

definition carries :: "GhostCipher \<Rightarrow> bytes \<Rightarrow> bytes \<Rightarrow> bool" where
  "carries c w bs \<longleftrightarrow>
     (\<forall>flt rest. open_stream c flt (w @ rest) =
        (case open_stream c flt rest of (bs', e) \<Rightarrow> (bs @ bs', e)))"

lemma carries_Nil: "carries c [] []"
  by (simp add: carries_def)

lemma carries_append: "carries c v as \<Longrightarrow> carries c w bs \<Longrightarrow> carries c (v @ w) (as @ bs)"
  by (simp add: carries_def case_prod_beta)

lemma packet_carries: "packet c w bs \<Longrightarrow> carries c w bs"
  by (simp add: carries_def open_stream_packet)

lemma carries_open: "carries c w bs \<Longrightarrow> open_stream c flt w = (bs, end_of_read flt)"
  unfolding carries_def using open_stream.simps [of c flt "[]"]
  by (auto dest!: spec [of _ flt] spec [of _ "[]"])

lemma carries_open_take:
  assumes "carries c w bs"
  shows "\<exists>m. fst (open_stream c flt (take k w)) = take m bs"
proof -
  obtain more where "fst (open_stream c UnexpectedEof (take k w @ drop k w)) =
      fst (open_stream c flt (take k w)) @ more"
    using open_stream_prefix by blast
  with carries_open [OF assms] have "bs = fst (open_stream c flt (take k w)) @ more" by simp
  then show ?thesis by (intro exI [of _ "length (fst (open_stream c flt (take k w)))"]) simp
qed

subsection \<open>The sending loops\<close>

text \<open>A loop whose step is the sending step, with the parameters of its program.\<close>

locale sending_loop = relay_loop step loop
  for step :: "('r pipe, loop_end, unit) stm" and loop :: "'r pipe \<Rightarrow> loop_end \<times> 'r pipe" +
  fixes R :: "'r rng" and padding :: bool and m :: u8 and uid :: bytes and c :: GhostCipher
  assumes step_sends: "step p = send_step R padding m uid c p"
begin

text \<open>Into a stream that takes everything, the loop sends all that it reads.\<close>

lemma sends_all:
  assumes "rng_ok R" and "cipher_ok c" and "length uid = USER_ID_LEN"
    and "wr_limit (p_dst p) = None" and "src_ok (p_src p)"
  shows "\<exists>w. p_dst (snd (loop p)) = (p_dst p)\<lparr>wr_data := wr_data (p_dst p) @ w\<rparr> \<and>
     carries c w (src_data (p_src p)) \<and>
     fst (loop p) = (case src_fault (p_src p) of None \<Rightarrow> EndOfStream | Some e \<Rightarrow> ReadFailed e)"
  using assms(4,5)
proof (induction p rule: loop_induct)
  case (1 p)
  have cap: "0 < CHUNK_LEN" by (simp add: CHUNK_LEN_def)
  show ?case
  proof (cases rule: send_step_cases [OF assms(1-3) 1(2), where padding = padding and m = m])
    case (1 s)
    with \<open>src_ok (p_src p)\<close> read_some_eof [OF 1(1) _ cap] show ?thesis
      by (intro exI [of _ "[]"]) (simp add: loop_Err step_sends carries_Nil)
  next
    case (2 e s)
    then have "src_segs (p_src p) = []" and "src_fault (p_src p) = Some e"
      by (auto simp: read_some_def split: list.splits option.splits if_splits)
    with 2 show ?thesis
      by (intro exI [of _ "[]"]) (simp add: loop_Err step_sends carries_Nil src_data_def)
  next
    case (3 buf s t w)
    let ?q = "\<lparr>p_rng = t, p_src = s, p_dst = (p_dst p)\<lparr>wr_data := wr_data (p_dst p) @ w\<rparr>\<rparr>"
    have step: "step p = (Ok (), ?q)" using 3(4) by (simp add: step_sends)
    have "src_ok s" using read_some_Ok(3) [OF 3(1) 1(3)] .
    with 1(1) [OF step] 1(2) obtain v where
      v: "p_dst (snd (loop ?q)) = (p_dst ?q)\<lparr>wr_data := wr_data (p_dst ?q) @ v\<rparr>"
        "carries c v (src_data s)"
        "fst (loop ?q) = (case src_fault s of None \<Rightarrow> EndOfStream | Some e \<Rightarrow> ReadFailed e)"
      by auto
    have "carries c (w @ v) (src_data (p_src p))"
      using carries_append [OF packet_carries [OF 3(3)] v(2)] read_some_Ok(1) [OF 3(1)] by simp
    with v step read_some_Ok(2) [OF 3(1)] show ?thesis
      by (intro exI [of _ "w @ v"]) (simp add: loop_Ok)
  qed
qed

end

interpretation client_sending:
  sending_loop "client_upload_step R config uid c" "client_upload R config uid c"
    R "cc_enable_padding config" "cc_max_padding_len config" uid c for R config uid c
  by unfold_locales (simp add: client_upload_is_send)

interpretation server_sending:
  sending_loop "server_download_step R config uid c" "server_download R config uid c"
    R "sc_enable_padding config" "sc_max_padding_len config" uid c for R config uid c
  by unfold_locales (simp add: server_download_is_send)

subsection \<open>Properties of the tunnel\<close>

text \<open>C9: How the network cuts the stream into segments makes no difference: both receiving
  loops end for the same reason and deliver the same data for any two streams with the
  same bytes and the same end, namely those of \<open>open_stream\<close>, a function of the bytes.\<close>

theorem receiving_refines_open_stream:
  assumes "wr_limit (p_dst p) = None"
    and "open_stream c (fault_of (p_src p)) (src_data (p_src p)) = (bs, e)"
  shows "fst (server_upload c p) = e \<and>
         p_dst (snd (server_upload c p)) = (p_dst p)\<lparr>wr_data := wr_data (p_dst p) @ bs\<rparr> \<and>
         client_download c p = server_upload c p"
  using server_upload_opens [OF assms(1) surjective_pairing] assms(2) by (simp add: client_download_eq)

text \<open>End to end, upload: whatever the application writes to the SOCKS socket, in whatever
  segments, the target receives unchanged and in order, after encryption, framing, padding and any
  segmentation by the network; and both loops end at the end of their streams.\<close>

theorem tunnel_upload_delivers:
  assumes "rng_ok R" and "cipher_ok c" and "length uid = USER_ID_LEN"
    and "wr_limit (p_dst p) = None" and "wr_data (p_dst p) = []" and "src_ok (p_src p)"
    and "src_fault (p_src p) = None"
    and "client_upload R config uid c p = (e, p')"
    and "wr_limit (p_dst r) = None" and "src_fault (p_src r) = None"
    and "src_data (p_src r) = wr_data (p_dst p')"
    and "server_upload c r = (e', r')"
  shows "e = EndOfStream \<and> e' = EndOfStream \<and>
         wr_data (p_dst r') = wr_data (p_dst r) @ src_data (p_src p)"
proof -
  from client_sending.sends_all [OF assms(1-4,6), of config] assms(5,7,8) obtain w where
    w: "wr_data (p_dst p') = w" "carries c w (src_data (p_src p))" "e = EndOfStream" by auto
  with server_upload_opens [OF assms(9,12)] carries_open [OF w(2)] assms(10,11) show ?thesis
    by (simp add: fault_of_def end_of_read_def)
qed

text \<open>C2: End to end, download: whatever the target answers, the application receives unchanged
  and in order.\<close>

theorem tunnel_download_delivers:
  assumes "rng_ok R" and "cipher_ok c" and "length uid = USER_ID_LEN"
    and "wr_limit (p_dst p) = None" and "wr_data (p_dst p) = []" and "src_ok (p_src p)"
    and "src_fault (p_src p) = None"
    and "server_download R config uid c p = (e, p')"
    and "wr_limit (p_dst r) = None" and "src_fault (p_src r) = None"
    and "src_data (p_src r) = wr_data (p_dst p')"
    and "client_download c r = (e', r')"
  shows "e = EndOfStream \<and> e' = EndOfStream \<and>
         wr_data (p_dst r') = wr_data (p_dst r) @ src_data (p_src p)"
proof -
  from server_sending.sends_all [OF assms(1-4,6), of config] assms(5,7,8) obtain w where
    w: "wr_data (p_dst p') = w" "carries c w (src_data (p_src p))" "e = EndOfStream" by auto
  with server_upload_opens [OF assms(9) assms(12) [unfolded client_download_eq]]
    carries_open [OF w(2)] assms(10,11) show ?thesis
    by (simp add: fault_of_def end_of_read_def)
qed

text \<open>A connection that breaks anywhere, even in the middle of a packet, delivers a prefix of
  what was sent: for any cut of the client's bytes, and any error the server's socket then
  reports, the target has received an initial part of the application's data, nothing else.\<close>

theorem tunnel_upload_cut_prefix:
  assumes "rng_ok R" and "cipher_ok c" and "length uid = USER_ID_LEN"
    and "wr_limit (p_dst p) = None" and "wr_data (p_dst p) = []" and "src_ok (p_src p)"
    and "client_upload R config uid c p = (e, p')"
    and "wr_limit (p_dst r) = None" and "src_data (p_src r) = take k (wr_data (p_dst p'))"
    and "server_upload c r = (e', r')"
  shows "\<exists>m. wr_data (p_dst r') = wr_data (p_dst r) @ take m (src_data (p_src p))"
proof -
  from client_sending.sends_all [OF assms(1-4,6), of config] assms(5,7) obtain w where
    w: "wr_data (p_dst p') = w" "carries c w (src_data (p_src p))" by auto
  obtain m where "fst (open_stream c (fault_of (p_src r)) (take k w)) = take m (src_data (p_src p))"
    using carries_open_take [OF w(2)] by blast
  with server_upload_opens [OF assms(8,10)] assms(9) w(1) show ?thesis
    by (auto intro: exI [of _ m])
qed

subsection \<open>Concrete tunnels\<close>

definition example_uid :: bytes where
  "example_uid = replicate 15 0 @ [1]"

definition pipe_from :: "bytes list \<Rightarrow> nat pipe" where
  "pipe_from gs = \<lparr>p_rng = 0, p_src = src_of gs, p_dst = fresh_writer\<rparr>"

lemma pipe_from_simps [simp]:
  "p_rng (pipe_from gs) = 0" "p_src (pipe_from gs) = src_of gs" "p_dst (pipe_from gs) = fresh_writer"
  by (simp_all add: pipe_from_def)

lemma src_ok_src_of: "src_ok (src_of gs) \<longleftrightarrow> [] \<notin> set gs"
  by (simp add: src_ok_def)

lemma length_example_uid: "length example_uid = USER_ID_LEN"
  by (simp add: example_uid_def USER_ID_LEN_def)

definition example_sent :: bytes where
  "example_sent = wr_data (p_dst (snd (client_upload counter_rng ClientConfig_default example_uid
     example_cipher (pipe_from [[1, 2], [3]]))))"

definition example_answered :: bytes where
  "example_answered = wr_data (p_dst (snd (server_download counter_rng ServerConfig_default example_uid
     example_cipher (pipe_from [[1, 2], [3]]))))"

theorem receiving_refines_open_stream_witness:
  "wr_data (p_dst (snd (server_upload example_cipher (pipe_from [[0], [28], [5]])))) = []"
proof -
  have "open_stream example_cipher (fault_of (p_src (pipe_from [[0], [28], [5]])))
      (src_data (p_src (pipe_from [[0], [28], [5]]))) = ([], ReadFailed UnexpectedEof)"
    by (subst open_stream.simps) (simp add: fault_of_def of_be16_def be_nat_def)
  from receiving_refines_open_stream [OF _ this] show ?thesis by simp
qed

theorem tunnel_upload_delivers_witness:
  "wr_data (p_dst (snd (server_upload example_cipher (pipe_from [example_sent])))) = [1, 2, 3]"
  using tunnel_upload_delivers [OF rng_ok_counter cipher_ok_example length_example_uid _ _ _ _
      surjective_pairing _ _ _ surjective_pairing,
      of "pipe_from [[1, 2], [3]]" "pipe_from [example_sent]" ClientConfig_default]
  by (simp add: src_ok_src_of example_sent_def)

theorem tunnel_download_delivers_witness:
  "wr_data (p_dst (snd (client_download example_cipher (pipe_from [example_answered])))) = [1, 2, 3]"
  using tunnel_download_delivers [OF rng_ok_counter cipher_ok_example length_example_uid _ _ _ _
      surjective_pairing _ _ _ surjective_pairing,
      of "pipe_from [[1, 2], [3]]" "pipe_from [example_answered]" ServerConfig_default]
  by (simp add: src_ok_src_of example_answered_def)

theorem tunnel_upload_cut_prefix_witness:
  "\<exists>m. wr_data (p_dst (snd (server_upload example_cipher (pipe_from [take 40 example_sent])))) =
         take m [1, 2, 3]"
  using tunnel_upload_cut_prefix [OF rng_ok_counter cipher_ok_example length_example_uid _ _ _
      surjective_pairing _ _ surjective_pairing,
      of "pipe_from [[1, 2], [3]]" "pipe_from [take 40 example_sent]" 40 ClientConfig_default]
  by (simp add: src_ok_src_of example_sent_def)

subsection \<open>What reaches the target is authentic, but not fresh\<close>

text \<open>A packet that was sealed under the cipher's key.\<close>

definition sealed_packet :: "GhostCipher \<Rightarrow> bytes \<times> bytes \<Rightarrow> bool" where
  "sealed_packet c x \<longleftrightarrow>
     (case x of (w, bs) \<Rightarrow>
       \<exists>n ct pt f. w = be16 (of_nat (length (n @ ct))) @ n @ ct \<and> length n = NONCE_SIZE \<and>
         aead_seal (gc_aead c) (gc_key c) n pt = Some ct \<and>
         GhostFrame_decode pt = Ok f \<and> gf_payload f = bs)"

lemma open_stream_sealed:
  assumes "cipher_ok c"
  shows "\<exists>ps rest. w = concat (map fst ps) @ rest \<and>
    fst (open_stream c flt w) = concat (map snd ps) \<and> (\<forall>x \<in> set ps. sealed_packet c x)"
  using assms
proof (induction c flt w rule: open_stream.induct)
  case (1 c flt w)
  let ?n = "unat (of_be16 (take 2 w))" and ?r = "drop 2 w"
  let ?d = "take ?n ?r"
  show ?case
  proof (cases "\<exists>pt f. \<not> length w < 2 \<and> \<not> length ?r < ?n \<and>
      GhostCipher_decrypt c ?d = Ok pt \<and> GhostFrame_decode pt = Ok f")
    case True
    then obtain pt f where l: "\<not> length w < 2" "\<not> length ?r < ?n"
      and o: "GhostCipher_decrypt c ?d = Ok pt" "GhostFrame_decode pt = Ok f" by blast
    from 1(1) [OF l(1) refl refl l(2) o 1(2)] obtain ps rest where
      ps: "drop ?n ?r = concat (map fst ps) @ rest"
        "fst (open_stream c flt (drop ?n ?r)) = concat (map snd ps)" "\<forall>x \<in> set ps. sealed_packet c x"
      by blast
    have len: "length ?d = ?n" using l by simp
    have h: "take 2 w = be16 (of_nat (length ?d))"
      using l by (simp add: len)
    have "sealed_packet c (take 2 w @ ?d, gf_payload f)"
    proof -
      obtain n ct where n: "?d = n @ ct" "length n = NONCE_SIZE"
        "aead_seal (gc_aead c) (gc_key c) n pt = Some ct"
        using decrypt_sealed [OF 1(2) o(1)] by blast
      with o(2) h show ?thesis unfolding sealed_packet_def n(1) by blast
    qed
    moreover have "w = (take 2 w @ ?d) @ concat (map fst ps) @ rest"
      using ps(1) by (metis append.assoc append_take_drop_id)
    moreover have "fst (open_stream c flt w) = gf_payload f @ concat (map snd ps)"
      using l o ps(2) by (subst open_stream.simps) (simp add: Let_def case_prod_beta)
    ultimately show ?thesis
      using ps(3)
      by (intro exI [of _ "(take 2 w @ ?d, gf_payload f) # ps"] exI [of _ rest]) simp
  next
    case False
    then have "fst (open_stream c flt w) = []"
      by (subst open_stream.simps) (auto simp: Let_def split: res.splits)
    then show ?thesis by (intro exI [of _ "[]"] exI [of _ w]) simp
  qed
qed

text \<open>C6: Whatever bytes reach the server, from the client or from an attacker, it writes to the
  target only the payloads of packets sealed under the user's key, from the front of the
  stream and in the stream's order; the first packet that is not ends the tunnel.\<close>

theorem target_gets_only_sealed:
  assumes "cipher_ok c" and "wr_limit (p_dst p) = None" and "server_upload c p = (e, q)"
  shows "\<exists>ps rest. src_data (p_src p) = concat (map fst ps) @ rest \<and>
    wr_data (p_dst q) = wr_data (p_dst p) @ concat (map snd ps) \<and> (\<forall>x \<in> set ps. sealed_packet c x)"
  using open_stream_sealed [OF assms(1), of "src_data (p_src p)" "fault_of (p_src p)"]
    server_upload_opens [OF assms(2,3)] by auto

theorem target_gets_only_sealed_witness:
  "\<exists>ps rest. [0, 28, 5] = concat (map fst ps) @ rest \<and>
    wr_data (p_dst (snd (server_upload example_cipher (pipe_from [[0, 28], [5]])))) = concat (map snd ps) \<and>
    (\<forall>x \<in> set ps. sealed_packet example_cipher x)"
  using target_gets_only_sealed [OF cipher_ok_example _ surjective_pairing, of "pipe_from [[0, 28], [5]]"]
  by simp

text \<open>C35: Packets are bound neither to their position nor to their direction. What a client has
  sent, played twice to the server, is written to the target twice; and what the server
  has sent to a client, reflected to the server, is accepted and written to the target,
  since both directions use one key, random nonces and no counter.\<close>

theorem tunnel_accepts_replay_and_reflection:
  assumes "rng_ok R" and "cipher_ok c" and "length uid = USER_ID_LEN"
    and "wr_limit (p_dst p) = None" and "wr_data (p_dst p) = []" and "src_ok (p_src p)"
    and "sent = wr_data (p_dst (snd (client_upload R cconf uid c p)))"
    and "answered = wr_data (p_dst (snd (server_download R sconf uid c p)))"
    and "wr_limit (p_dst r) = None" and "src_data (p_src r) = sent @ sent @ answered"
  shows "wr_data (p_dst (snd (server_upload c r))) =
    wr_data (p_dst r) @ src_data (p_src p) @ src_data (p_src p) @ src_data (p_src p)"
proof -
  have "carries c sent (src_data (p_src p))"
    using client_sending.sends_all [OF assms(1-4,6), of cconf] assms(5,7) by auto
  moreover have "carries c answered (src_data (p_src p))"
    using server_sending.sends_all [OF assms(1-4,6), of sconf] assms(5,8) by auto
  ultimately have "carries c (sent @ sent @ answered)
      (src_data (p_src p) @ src_data (p_src p) @ src_data (p_src p))"
    by (intro carries_append)
  from server_upload_opens [OF assms(9) surjective_pairing] carries_open [OF this] assms(10)
  show ?thesis by simp
qed

theorem tunnel_accepts_replay_and_reflection_witness:
  "wr_data (p_dst (snd (server_upload example_cipher
     (pipe_from [example_sent, example_sent, example_answered])))) = [1, 2, 3, 1, 2, 3, 1, 2, 3]"
  using tunnel_accepts_replay_and_reflection [OF rng_ok_counter cipher_ok_example length_example_uid
      _ _ _ refl refl, of "pipe_from [[1, 2], [3]]"
      "pipe_from [example_sent, example_sent, example_answered]" ClientConfig_default ServerConfig_default]
  by (simp add: src_ok_src_of example_sent_def example_answered_def)

end
