(* ===== verification/Packet_Bounds.thy ===== *)
theory Packet_Bounds
  imports Relay
begin

section \<open>The size of the packets of a sending loop\<close>

text \<open>
  A packet is announced by a 16-bit length. The sending loops read at most 8192 bytes at a time and add the head of the
  frame, the padding and what the cipher adds, so that the length never wraps, and what an observer sees of a chunk
  is its size plus 49 bytes and the padding.
\<close>

definition FRAME_OVERHEAD :: nat where
  "FRAME_OVERHEAD = 1 + USER_ID_LEN + 1 + 2 + 1"

definition pad_limit :: "bool \<Rightarrow> u8 \<Rightarrow> nat" where
  "pad_limit padding m = (if padding then unat m else 0)"

lemma pad_limit_le: "pad_limit padding m \<le> MAX_PADDING_LEN"
  proof -
  have "unat m < 256" by simp
  then have "unat m \<le> 255" by linarith
  then show ?thesis by (simp add: pad_limit_def MAX_PADDING_LEN_def)
qed

text \<open>The frame of a chunk, and its size on the wire.\<close>

lemma chunk_frame:
  fixes p :: "'r pipe"
  assumes "rng_ok R" and "length uid = USER_ID_LEN" and "length buf \<le> CHUNK_LEN"
    and "(if padding then on_rng (draw (with_random_padding R (unat m) (GhostFrame_new uid TargetNone buf)))
      else ret (GhostFrame_new uid TargetNone buf)) p = ((Ok f :: (loop_end, GhostFrame) res), q)"
  obtains pad :: bytes where "length pad \<le> pad_limit padding m" and "data_frame uid buf f"
    and "length (frame_wire f) = FRAME_OVERHEAD + length buf + length pad"
proof -
  let ?frame = "GhostFrame_new uid TargetNone buf"
  obtain pad where pad: "length pad \<le> pad_limit padding m" "f = ?frame\<lparr>gf_padding := pad\<rparr>"
  proof (cases padding)
    case True
    with assms(4) obtain t where "with_random_padding R (unat m) ?frame (p_rng p) = (f, t)"
      by (auto simp: pipe_OkD)
    with assms(1) obtain pad where "f = ?frame\<lparr>gf_padding := pad\<rparr>" "length pad \<le> min (unat m) MAX_PADDING_LEN"
      by (rule with_random_padding_shape)
    with True that [of pad] show thesis by (simp add: pad_limit_def)
  next
    case False
    with assms(4) have "f = ?frame\<lparr>gf_padding := []\<rparr>" by (auto simp: GhostFrame_new_def)
    with False that [of "[]"] show thesis by (simp add: pad_limit_def)
  qed
  moreover have "length pad \<le> 255"
    using pad(1) pad_limit_le [of padding m] by (simp add: MAX_PADDING_LEN_def)
  ultimately show thesis
    using assms(2) by (intro that [of pad])
      (auto simp: data_frame_def frame_wire_def GhostFrame_new_def FRAME_OVERHEAD_def)
qed

lemma seal_chunk_size:
  assumes "rng_ok R" and "cipher_ok c" and "length uid = USER_ID_LEN" and "length buf \<le> CHUNK_LEN"
    and "seal_chunk R padding m uid c buf p = (Ok d, q)"
  shows "length buf + 49 \<le> length d" and "length d \<le> length buf + 49 + pad_limit padding m"
proof -
  obtain f p' t where f: "(if padding then on_rng (draw (with_random_padding R (unat m) (GhostFrame_new uid TargetNone buf)))
      else ret (GhostFrame_new uid TargetNone buf)) p = ((Ok f :: (loop_end, GhostFrame) res), p')"
    and e: "GhostFrame_encode f = (Ok t :: (loop_end, bytes) res)"
      "with_err EncryptFailed (on_rng (GhostCipher_encrypt R c t)) p' = (Ok d, q)"
    using assms(5) by (auto simp: seal_chunk_def Let_def bind_eq_Ok)
  obtain pad :: bytes where pad: "length pad \<le> pad_limit padding m" "data_frame uid buf f"
    "length (frame_wire f) = FRAME_OVERHEAD + length buf + length pad"
    by (rule chunk_frame [OF assms(1,3,4) f])
  obtain s where s: "GhostCipher_encrypt R c t (p_rng p') = (Ok d, s)"
    using e(2) by (auto simp: pipe_OkD)
  have "GhostFrame_encode f = (Ok (frame_wire f) :: (loop_end, bytes) res)"
    by (rule data_frame_wire(1) [OF pad(2) assms(3,4)])
  then have t: "t = frame_wire f" using e(1) by simp
  have "rng_ok R \<and> cipher_ok c" using assms by simp
  from ghost_cipher.seal_length [OF this s] pad t
  show "length buf + 49 \<le> length d" and "length d \<le> length buf + 49 + pad_limit padding m"
    by (simp_all add: FRAME_OVERHEAD_def crypto_sizes USER_ID_LEN_def)
qed

subsection \<open>What a sending step adds to the wire\<close>

lemma send_step_size:
  assumes "rng_ok R" and "cipher_ok c" and "length uid = USER_ID_LEN"
    and "send_step R padding m uid c p = (Ok u, q)"
  obtains d buf where "src_data (p_src p) = buf @ src_data (p_src q)" and "1 \<le> length buf" and "length buf \<le> CHUNK_LEN"
    and "wr_data (p_dst q) = wr_data (p_dst p) @ be16 (of_nat (length d)) @ d"
    and "length buf + 49 \<le> length d" and "length d \<le> length buf + 49 + pad_limit padding m"
proof -
  obtain buf s where r: "read_some CHUNK_LEN (p_src p) = (Ok buf, s)" "buf \<noteq> []"
    and w: "bind (seal_chunk R padding m uid c buf) (\<lambda>encrypted.
       bind (with_err WriteFailed (on_dst (write_all (be16 (of_nat (length encrypted)))))) (\<lambda>_.
       with_err WriteFailed (on_dst (write_all encrypted)))) (p\<lparr>p_src := s\<rparr>) = (Ok u, q)"
    using assms(4) by (auto simp: send_step_seal bind_eq_Ok pipe_OkD split: if_splits)
  have cap: "length buf \<le> CHUNK_LEN" by (rule read_some_cap [OF r(1)])
  obtain d t where d: "seal_chunk R padding m uid c buf (p\<lparr>p_src := s\<rparr>) = (Ok d, p\<lparr>p_src := s, p_rng := t\<rparr>)"
    using seal_chunk_Ok [OF assms(1-3) cap] by metis
  with w obtain w1 w2 where "write_all (be16 (of_nat (length d))) (p_dst p) = (Ok (), w1)"
    and "write_all d w1 = (Ok (), w2)" and q: "p_src q = s" "p_dst q = w2"
    by (auto simp: bind_eq_Ok pipe_OkD)
  then have "wr_data (p_dst q) = wr_data (p_dst p) @ be16 (of_nat (length d)) @ d"
    using write_all_Ok by (metis append.assoc)
  moreover have "1 \<le> length buf" using r(2) by (simp add: Suc_le_eq)
  ultimately show thesis
    using read_some_Ok(1) [OF r(1)] cap seal_chunk_size [OF assms(1-3) cap d] q by (intro that) simp_all
qed

text \<open>C10: Every packet of the tunnel, of the client as of the server, has a length between the size of its chunk plus 49 bytes
  and that plus the configured padding, at most 8496 bytes in all: the length field holds it without wrapping, it fits
  the buffer of the peer, and an iteration that goes on takes between 1 and 8192 bytes from the plain side.\<close>

theorem packet_length_bounds:
  assumes "rng_ok R" and "cipher_ok c" and "length uid = USER_ID_LEN"
    and "server_download_step R config uid c p = (Ok u, q) \<and> limit = pad_limit (sc_enable_padding config) (sc_max_padding_len config) \<or>
      client_upload_step R config' uid c p = (Ok u, q) \<and> limit = pad_limit (cc_enable_padding config') (cc_max_padding_len config')"
  shows "\<exists>d n. wr_data (p_dst q) = wr_data (p_dst p) @ be16 (of_nat (length d)) @ d \<and>
     unat (of_be16 (be16 (of_nat (length d)))) = length d \<and> length d < ENC_BUF_LEN \<and>
     length (src_data (p_src p)) = n + length (src_data (p_src q)) \<and> 1 \<le> n \<and> n \<le> CHUNK_LEN \<and>
     n + 49 \<le> length d \<and> length d \<le> n + 49 + limit \<and> length d \<le> 8496"
proof -
  obtain padding m where "send_step R padding m uid c p = (Ok u, q)" and l: "limit = pad_limit padding m"
    using assms(4) by (auto simp: server_download_is_send client_upload_is_send)
  from send_step_size [OF assms(1-3) this(1)] obtain d buf where
    d: "src_data (p_src p) = buf @ src_data (p_src q)" "1 \<le> length buf" "length buf \<le> CHUNK_LEN"
      "wr_data (p_dst q) = wr_data (p_dst p) @ be16 (of_nat (length d)) @ d"
      "length buf + 49 \<le> length d" "length d \<le> length buf + 49 + limit"
    unfolding l by blast
  have "limit \<le> 255" using pad_limit_le [of padding m] by (simp add: l MAX_PADDING_LEN_def)
  with d have "length d \<le> 8496" by (simp add: CHUNK_LEN_def)
  with d show ?thesis
    by (intro exI [of _ d] exI [of _ "length buf"]) (simp add: ENC_BUF_LEN_def)
qed

definition example_chunk :: "nat pipe" where
  "example_chunk = \<lparr>p_rng = 3, p_src = src_of [[1, 2, 3]], p_dst = \<lparr>wr_data = [], wr_limit = None\<rparr>\<rparr>"

theorem packet_length_bounds_witness:
  "\<exists>d q. server_download_step counter_rng ServerConfig_default example_uid example_cipher example_chunk = (Ok (), q) \<and>
     wr_data (p_dst q) = be16 (of_nat (length d)) @ d \<and> 3 + 49 \<le> length d \<and> length d \<le> 8496"
proof -
  let ?step = "server_download_step counter_rng ServerConfig_default example_uid example_cipher"
  obtain q where q: "?step example_chunk = (Ok (), q)" and s: "src_data (p_src q) = []"
    unfolding server_download_is_send
    by (cases rule: send_step_cases [OF rng_ok_counter cipher_ok_example length_example_uid,
          where p = example_chunk and padding = "sc_enable_padding ServerConfig_default"
            and m = "sc_max_padding_len ServerConfig_default"])
      (auto simp: example_chunk_def src_of_def read_some_def src_data_def CHUNK_LEN_def)
  let ?lim = "pad_limit (sc_enable_padding ServerConfig_default) (sc_max_padding_len ServerConfig_default)"
  from packet_length_bounds [OF rng_ok_counter cipher_ok_example length_example_uid, of ServerConfig_default example_chunk
      "()" q ?lim] q s
  show ?thesis by (auto simp: example_chunk_def)
qed

end
