(* ===== verification/Session.thy ===== *)
theory Session
  imports Relay
begin

section \<open>The two loops of a session, interleaved\<close>

text \<open>
  \<^verbatim>\<open>tokio::select!\<close> at the end of the server's \<^verbatim>\<open>handle_connection\<close> and of the client's
  \<^verbatim>\<open>proxy_through_ghost\<close>: the two loops run interleaved until one of them ends, and the
  other is then dropped wherever it is, possibly in the middle of a write. Both programs are an
  endpoint with a tunnel side and a plain side; the receiving loop goes from the tunnel to the
  plain side, the sending loop back. The scheduler is arbitrary: a step relation.
\<close>

datatype direction = Receiving | Sending

datatype phase = Running | Ended direction loop_end | Closed direction loop_end

record 'r endpoint =
  ep_rng :: 'r
  ep_tunnel :: conn
  ep_plain :: conn
  ep_phase :: phase

definition recv_pipe :: "'r endpoint \<Rightarrow> 'r pipe" where
  "recv_pipe s = \<lparr>p_rng = ep_rng s, p_src = c_in (ep_tunnel s), p_dst = c_out (ep_plain s)\<rparr>"

definition send_pipe :: "'r endpoint \<Rightarrow> 'r pipe" where
  "send_pipe s = \<lparr>p_rng = ep_rng s, p_src = c_in (ep_plain s), p_dst = c_out (ep_tunnel s)\<rparr>"

definition phase_after :: "direction \<Rightarrow> (loop_end, unit) res \<Rightarrow> phase" where
  "phase_after d r = (case r of Ok _ \<Rightarrow> Running | Err e \<Rightarrow> Ended d e | Panic \<Rightarrow> Ended d TaskPanic)"

text \<open>One iteration of one of the loops.\<close>

definition recv_turn ::
  "('r pipe, loop_end, unit) stm \<Rightarrow> 'r endpoint \<Rightarrow> 'r endpoint" where
  "recv_turn recv s =
     (case recv (recv_pipe s) of (r, q) \<Rightarrow>
        s\<lparr>ep_rng := p_rng q, ep_tunnel := (ep_tunnel s)\<lparr>c_in := p_src q\<rparr>,
          ep_plain := (ep_plain s)\<lparr>c_out := p_dst q\<rparr>, ep_phase := phase_after Receiving r\<rparr>)"

definition send_turn ::
  "('r pipe, loop_end, unit) stm \<Rightarrow> 'r endpoint \<Rightarrow> 'r endpoint" where
  "send_turn send s =
     (case send (send_pipe s) of (r, q) \<Rightarrow>
        s\<lparr>ep_rng := p_rng q, ep_plain := (ep_plain s)\<lparr>c_in := p_src q\<rparr>,
          ep_tunnel := (ep_tunnel s)\<lparr>c_out := p_dst q\<rparr>, ep_phase := phase_after Sending r\<rparr>)"

text \<open>An iteration that is dropped after \<open>k\<close> bytes of its writes.\<close>

definition cut_writer :: "nat \<Rightarrow> writer \<Rightarrow> writer" where
  "cut_writer k w = w\<lparr>wr_limit := Some (case wr_limit w of None \<Rightarrow> (k, WriteZero)
                                         | Some (l, e) \<Rightarrow> (min k l, e))\<rparr>"

definition recv_cut :: "nat \<Rightarrow> ('r pipe, loop_end, unit) stm \<Rightarrow> 'r endpoint \<Rightarrow> 'r endpoint" where
  "recv_cut k recv s =
     (let q = snd (recv ((recv_pipe s)\<lparr>p_dst := cut_writer k (p_dst (recv_pipe s))\<rparr>)) in
      s\<lparr>ep_plain := (ep_plain s)\<lparr>c_out := (c_out (ep_plain s))\<lparr>wr_data := wr_data (p_dst q)\<rparr>\<rparr>\<rparr>)"

definition send_cut :: "nat \<Rightarrow> ('r pipe, loop_end, unit) stm \<Rightarrow> 'r endpoint \<Rightarrow> 'r endpoint" where
  "send_cut k send s =
     (let q = snd (send ((send_pipe s)\<lparr>p_dst := cut_writer k (p_dst (send_pipe s))\<rparr>)) in
      s\<lparr>ep_tunnel := (ep_tunnel s)\<lparr>c_out := (c_out (ep_tunnel s))\<lparr>wr_data := wr_data (p_dst q)\<rparr>\<rparr>\<rparr>)"

inductive endpoint_step ::
  "('r pipe, loop_end, unit) stm \<Rightarrow> ('r pipe, loop_end, unit) stm \<Rightarrow> 'r endpoint \<Rightarrow> 'r endpoint \<Rightarrow> bool"
  for recv send where
  recv_iter: "ep_phase s = Running \<Longrightarrow> endpoint_step recv send s (recv_turn recv s)"
| send_iter: "ep_phase s = Running \<Longrightarrow> endpoint_step recv send s (send_turn send s)"
| drop_send: "ep_phase s = Ended Receiving e \<Longrightarrow>
    endpoint_step recv send s ((send_cut k send s)\<lparr>ep_phase := Closed Receiving e\<rparr>)"
| drop_recv: "ep_phase s = Ended Sending e \<Longrightarrow>
    endpoint_step recv send s ((recv_cut k recv s)\<lparr>ep_phase := Closed Sending e\<rparr>)"

inductive endpoint_reach ::
  "('r pipe, loop_end, unit) stm \<Rightarrow> ('r pipe, loop_end, unit) stm \<Rightarrow> 'r endpoint \<Rightarrow> 'r endpoint \<Rightarrow> bool"
  for recv send s where
  reach_here: "endpoint_reach recv send s s"
| reach_more: "endpoint_reach recv send s t \<Longrightarrow> endpoint_step recv send t u \<Longrightarrow> endpoint_reach recv send s u"

text \<open>A closed session takes no further step.\<close>

inductive_cases endpoint_step_closed: "endpoint_step recv send s t"

lemma closed_is_final: "endpoint_step recv send s t \<Longrightarrow> ep_phase s \<noteq> Closed d e"
  by (erule endpoint_step_closed) simp_all

lemma cut_writer_data [simp]: "wr_data (cut_writer k w) = wr_data w"
  by (simp add: cut_writer_def)

lemma pipe_simps [simp]:
  "p_rng (recv_pipe s) = ep_rng s" "p_src (recv_pipe s) = c_in (ep_tunnel s)"
  "p_dst (recv_pipe s) = c_out (ep_plain s)"
  "p_rng (send_pipe s) = ep_rng s" "p_src (send_pipe s) = c_in (ep_plain s)"
  "p_dst (send_pipe s) = c_out (ep_tunnel s)"
  by (simp_all add: recv_pipe_def send_pipe_def)

subsection \<open>One receiving step\<close>

lemma wr_data_update_inject: "w\<lparr>wr_data := a\<rparr> = w\<lparr>wr_data := b\<rparr> \<Longrightarrow> a = b"
  by (drule arg_cong [where f = wr_data]) simp

lemma wr_data_update_self: "w = w\<lparr>wr_data := wr_data w @ b\<rparr> \<Longrightarrow> b = []"
  by (drule arg_cong [where f = wr_data]) simp

lemma recv_step_unlimited:
  assumes "wr_limit (p_dst p) = None" and "server_upload_step c p = (r, q)"
  shows "\<exists>bs. p_dst q = (p_dst p)\<lparr>wr_data := wr_data (p_dst p) @ bs\<rparr> \<and>
     fault_of (p_src q) = fault_of (p_src p) \<and>
     (case r of
        Ok _ \<Rightarrow> open_stream c (fault_of (p_src p)) (src_data (p_src p)) =
           (bs @ fst (open_stream c (fault_of (p_src q)) (src_data (p_src q))),
            snd (open_stream c (fault_of (p_src q)) (src_data (p_src q))))
      | Err e \<Rightarrow> bs = [] \<and> open_stream c (fault_of (p_src p)) (src_data (p_src p)) = ([], e)
      | Panic \<Rightarrow> bs = [])"
proof -
  have "fault_of (p_src q) = fault_of (p_src p) \<and> wr_limit (p_dst q) = None \<and>
      (p_dst q = p_dst p \<or>
       (\<exists>bs. r = Ok () \<and> p_dst q = (p_dst p)\<lparr>wr_data := wr_data (p_dst p) @ bs\<rparr>))"
    using assms
    by (auto simp: recv_step_unfold bind_def with_err_def on_src_def on_dst_def read_exact_eq
        split: if_splits prod.splits res.splits)
  then have f: "fault_of (p_src q) = fault_of (p_src p)" "wr_limit (p_dst q) = None"
    and alt: "p_dst q = p_dst p \<or>
       (\<exists>bs. r = Ok () \<and> p_dst q = (p_dst p)\<lparr>wr_data := wr_data (p_dst p) @ bs\<rparr>)" by blast+
  obtain bs where d: "p_dst q = (p_dst p)\<lparr>wr_data := wr_data (p_dst p) @ bs\<rparr>"
    and nil: "\<And>u. r \<noteq> Ok u \<Longrightarrow> bs = []"
  proof (cases "p_dst q = p_dst p")
    case True
    then show thesis by (intro that [of "[]"]) simp_all
  next
    case False
    with alt that show thesis by auto
  qed
  show ?thesis
  proof (cases r)
    case (Ok u)
    have "server_upload c p = server_upload c q" using assms(2) Ok server_upload.loop_Ok by metis
    then have u: "server_upload c p = (fst (server_upload c q), snd (server_upload c q))" by simp
    from server_upload_opens [OF assms(1) u] server_upload_opens [OF f(2) surjective_pairing]
    show ?thesis using d f(1) Ok
      by (intro exI [of _ bs]) (auto simp: prod_eq_iff dest: wr_data_update_inject)
  next
    case (Err e)
    have u: "server_upload c p = (e, q)" using assms(2) Err server_upload.loop_Err by metis
    from server_upload_opens [OF assms(1) u] d nil Err f(1) show ?thesis
      by (intro exI [of _ bs]) (auto simp: prod_eq_iff dest: wr_data_update_self)
  next
    case Panic
    with d f(1) nil show ?thesis by auto
  qed
qed

text \<open>A receiving step into any writer: what is written is a part of what is delivered.\<close>

lemma recv_step_cut:
  assumes "server_upload_step c p = (r, q)"
  shows "\<exists>m. wr_data (p_dst q) = wr_data (p_dst p) @
      take m (fst (open_stream c (fault_of (p_src p)) (src_data (p_src p))))"
proof -
  let ?w = "src_data (p_src p)"
  let ?n = "unat (of_be16 (take 2 ?w))"
  let ?d = "take ?n (drop 2 ?w)"
  consider "p_dst q = p_dst p"
    | pt f where "2 \<le> length ?w" "?n \<le> length (drop 2 ?w)" "GhostCipher_decrypt c ?d = Ok pt"
        "GhostFrame_decode pt = Ok f" "p_dst q = snd (write_all (gf_payload f) (p_dst p))"
    using assms
    by (auto simp: recv_step_unfold bind_def with_err_def on_src_def on_dst_def read_exact_eq
        split: if_splits prod.splits res.splits)
  then show ?thesis
  proof cases
    case 1
    then show ?thesis by (intro exI [of _ 0]) simp
  next
    case 2
    then have o: "fst (open_stream c (fault_of (p_src p)) ?w) =
        gf_payload f @ fst (open_stream c (fault_of (p_src p)) (drop ?n (drop 2 ?w)))"
      by (subst open_stream.simps) (simp add: Let_def case_prod_beta)
    obtain k where "wr_data (p_dst q) = wr_data (p_dst p) @ take k (gf_payload f)"
      using write_all_prefix 2(5) by metis
    then show ?thesis
      by (intro exI [of _ "min k (length (gf_payload f))"]) (simp add: o take_Cons' min_def)
  qed
qed

subsection \<open>One sending step\<close>

lemma send_step_cut_packet:
  assumes "rng_ok R" and "cipher_ok c" and "length uid = USER_ID_LEN"
    and "send_step R padding m uid c p = (r, q)"
  shows "\<exists>k w bs rest. wr_data (p_dst q) = wr_data (p_dst p) @ take k w \<and>
     (w = [] \<and> bs = [] \<or> packet c w bs) \<and>
     src_data (p_src p) = bs @ rest \<and> length bs \<le> CHUNK_LEN"
proof -
  obtain x s where x: "read_some CHUNK_LEN (p_src p) = (x, s)" by fastforce
  show ?thesis
  proof (cases "\<exists>buf. x = Ok buf \<and> buf \<noteq> []")
    case False
    with x assms(4) have "p_dst q = p_dst p"
      by (auto simp: send_step_def bind_def with_err_def on_src_def split: res.splits if_splits)
    then show ?thesis
      by (intro exI [of _ 0] exI [of _ "[]"] exI [of _ "src_data (p_src p)"]) simp
  next
    case True
    then obtain buf where buf: "x = Ok buf" "buf \<noteq> []" by blast
    with x have cap: "length buf \<le> CHUNK_LEN" using read_some_cap by blast
    then obtain d t where d: "seal_chunk R padding m uid c buf (p\<lparr>p_src := s\<rparr>) = (Ok d, p\<lparr>p_src := s, p_rng := t\<rparr>)"
      and w: "packet c (be16 (of_nat (length d)) @ d) buf"
      using seal_chunk_Ok [OF assms(1-3)] by metis
    let ?h = "be16 (of_nat (length d))"
    obtain y u where y: "write_all ?h (p_dst p) = (y, u)" by fastforce
    have y_cases: "y = Ok () \<or> (\<exists>e. y = Err e)"
      using y write_all_no_panic [of ?h "p_dst p"] by (cases y) auto
    have "\<exists>k. wr_data (p_dst q) = wr_data (p_dst p) @ take k (?h @ d)"
    proof (cases "y = Ok ()")
      case True
      have "p_dst q = snd (write_all d u)"
        using assms(4) x buf d y True
        by (auto simp: send_step_seal bind_def with_err_def on_src_def on_dst_def split: prod.splits)
      moreover obtain k where "wr_data (snd (write_all d u)) = wr_data u @ take k d"
        using write_all_prefix by blast
      moreover have "wr_data u = wr_data (p_dst p) @ ?h" using y True write_all_Ok by simp
      ultimately show ?thesis by (intro exI [of _ "2 + k"]) simp
    next
      case False
      with y_cases have "p_dst q = u"
        using assms(4) x buf d y
        by (auto simp: send_step_seal bind_def with_err_def on_src_def on_dst_def)
      moreover obtain k where "wr_data u = wr_data (p_dst p) @ take k ?h"
        using write_all_prefix [of ?h "p_dst p"] y by auto
      ultimately show ?thesis by (intro exI [of _ "min k 2"]) (simp add: min_def)
    qed
    with w read_some_Ok(1) [of CHUNK_LEN "p_src p" buf s] x buf(1) cap show ?thesis
      by blast
  qed
qed

lemma send_step_cut:
  assumes "rng_ok R" and "cipher_ok c" and "length uid = USER_ID_LEN"
    and "send_step R padding m uid c p = (r, q)"
  shows "\<exists>k w bs rest. wr_data (p_dst q) = wr_data (p_dst p) @ take k w \<and> carries c w bs \<and>
     src_data (p_src p) = bs @ rest \<and> length bs \<le> CHUNK_LEN"
  using send_step_cut_packet [OF assms] carries_Nil packet_carries by metis

lemma send_step_unlimited:
  assumes "rng_ok R" and "cipher_ok c" and "length uid = USER_ID_LEN" and "wr_limit (p_dst p) = None"
    and "send_step R padding m uid c p = (r, q)"
  shows "\<exists>w bs. p_dst q = (p_dst p)\<lparr>wr_data := wr_data (p_dst p) @ w\<rparr> \<and> carries c w bs \<and>
     src_data (p_src p) = bs @ src_data (p_src q)"
proof (cases rule: send_step_cases [OF assms(1-4), where padding = padding and m = m])
  case (1 s)
  with assms(5) read_some_Ok(1) [OF 1(1)] show ?thesis
    by (intro exI [of _ "[]"]) (auto simp: carries_Nil)
next
  case (2 e s)
  then have "s = p_src p" by (auto simp: read_some_def split: list.splits option.splits if_splits)
  with 2 assms(5) show ?thesis by (intro exI [of _ "[]"]) (auto simp: carries_Nil)
next
  case (3 buf s t w)
  with assms(5) read_some_Ok(1) [OF 3(1)] packet_carries [OF 3(3)] show ?thesis
    by (intro exI [of _ w] exI [of _ buf]) auto
qed

subsection \<open>What each side has received at any time\<close>

text \<open>
  The invariant of a running endpoint that started in \<open>s\<close>: what was delivered and what is still to
  be opened are together what the tunnel delivers, and what was sent carries the plain data read.
\<close>

definition live :: "GhostCipher \<Rightarrow> 'r endpoint \<Rightarrow> 'r endpoint \<Rightarrow> bool" where
  "live c s t \<longleftrightarrow>
     (\<exists>bs rest. c_out (ep_plain t) = (c_out (ep_plain s))\<lparr>wr_data := wr_data (c_out (ep_plain s)) @ bs\<rparr> \<and>
        fst (open_stream c (fault_of (c_in (ep_tunnel s))) (src_data (c_in (ep_tunnel s)))) = bs @ rest \<and>
        (ep_phase t = Running \<or> (\<exists>e. ep_phase t = Ended Sending e) \<longrightarrow>
          rest = fst (open_stream c (fault_of (c_in (ep_tunnel t))) (src_data (c_in (ep_tunnel t)))))) \<and>
     (\<exists>w as. c_out (ep_tunnel t) = (c_out (ep_tunnel s))\<lparr>wr_data := wr_data (c_out (ep_tunnel s)) @ w\<rparr> \<and>
        carries c w as \<and> src_data (c_in (ep_plain s)) = as @ src_data (c_in (ep_plain t)))"

text \<open>What holds also after one of the loops was dropped.\<close>

definition safe :: "GhostCipher \<Rightarrow> 'r endpoint \<Rightarrow> 'r endpoint \<Rightarrow> bool" where
  "safe c s t \<longleftrightarrow>
     (\<exists>m. wr_data (c_out (ep_plain t)) = wr_data (c_out (ep_plain s)) @
        take m (fst (open_stream c (fault_of (c_in (ep_tunnel s))) (src_data (c_in (ep_tunnel s)))))) \<and>
     (\<exists>k w as rest. wr_data (c_out (ep_tunnel t)) = wr_data (c_out (ep_tunnel s)) @ take k w \<and>
        carries c w as \<and> src_data (c_in (ep_plain s)) = as @ rest)"

text \<open>
  The contract of an endpoint: its receiving loop opens what the peer seals and its sending loop
  seals what the peer opens. Both programs provide it.
\<close>

locale endpoint =
  fixes recv send :: "('r pipe, loop_end, unit) stm" and c :: GhostCipher and good :: bool
  assumes recv_advances: "wr_limit (p_dst p) = None \<Longrightarrow> recv p = (r, q) \<Longrightarrow>
      \<exists>bs. p_dst q = (p_dst p)\<lparr>wr_data := wr_data (p_dst p) @ bs\<rparr> \<and>
        fault_of (p_src q) = fault_of (p_src p) \<and>
        (r = Ok () \<longrightarrow> fst (open_stream c (fault_of (p_src p)) (src_data (p_src p))) =
           bs @ fst (open_stream c (fault_of (p_src q)) (src_data (p_src q)))) \<and>
        (r \<noteq> Ok () \<longrightarrow> bs = [])"
    and recv_partial: "recv p = (r, q) \<Longrightarrow>
      \<exists>m. wr_data (p_dst q) = wr_data (p_dst p) @
        take m (fst (open_stream c (fault_of (p_src p)) (src_data (p_src p))))"
    and send_advances: "good \<Longrightarrow> wr_limit (p_dst p) = None \<Longrightarrow> send p = (r, q) \<Longrightarrow>
      \<exists>w bs. p_dst q = (p_dst p)\<lparr>wr_data := wr_data (p_dst p) @ w\<rparr> \<and> carries c w bs \<and>
        src_data (p_src p) = bs @ src_data (p_src q)"
    and send_partial: "good \<Longrightarrow> send p = (r, q) \<Longrightarrow>
      \<exists>k w bs rest. wr_data (p_dst q) = wr_data (p_dst p) @ take k w \<and> carries c w bs \<and>
        src_data (p_src p) = bs @ rest"
begin

lemma live_init: "ep_phase s = Running \<Longrightarrow> live c s s"
  by (auto simp: live_def carries_Nil intro!: exI [of _ "[]"])

lemma live_safe: "live c s t \<Longrightarrow> safe c s t"
proof -
  assume "live c s t"
  then obtain bs rest w as where
    "c_out (ep_plain t) = (c_out (ep_plain s))\<lparr>wr_data := wr_data (c_out (ep_plain s)) @ bs\<rparr>"
    "fst (open_stream c (fault_of (c_in (ep_tunnel s))) (src_data (c_in (ep_tunnel s)))) = bs @ rest"
    "c_out (ep_tunnel t) = (c_out (ep_tunnel s))\<lparr>wr_data := wr_data (c_out (ep_tunnel s)) @ w\<rparr>"
    "carries c w as" "src_data (c_in (ep_plain s)) = as @ src_data (c_in (ep_plain t))"
    unfolding live_def by blast
  then have "wr_data (c_out (ep_plain t)) = wr_data (c_out (ep_plain s)) @ take (length bs)
        (fst (open_stream c (fault_of (c_in (ep_tunnel s))) (src_data (c_in (ep_tunnel s)))))"
    and "wr_data (c_out (ep_tunnel t)) = wr_data (c_out (ep_tunnel s)) @ take (length w) w"
    and "carries c w as" and "src_data (c_in (ep_plain s)) = as @ src_data (c_in (ep_plain t))"
    by simp_all
  then show ?thesis unfolding safe_def by blast
qed

lemma live_recv:
  assumes "live c s t" and "ep_phase t = Running" and "wr_limit (c_out (ep_plain s)) = None"
  shows "live c s (recv_turn recv t)"
proof -
  obtain r q where q: "recv (recv_pipe t) = (r, q)" by fastforce
  from assms(1,2) obtain bs where
    p: "c_out (ep_plain t) = (c_out (ep_plain s))\<lparr>wr_data := wr_data (c_out (ep_plain s)) @ bs\<rparr>"
    and o: "fst (open_stream c (fault_of (c_in (ep_tunnel s))) (src_data (c_in (ep_tunnel s)))) =
      bs @ fst (open_stream c (fault_of (c_in (ep_tunnel t))) (src_data (c_in (ep_tunnel t))))"
    unfolding live_def by blast
  from assms(1) have second: "\<exists>w as. c_out (ep_tunnel t) =
      (c_out (ep_tunnel s))\<lparr>wr_data := wr_data (c_out (ep_tunnel s)) @ w\<rparr> \<and>
      carries c w as \<and> src_data (c_in (ep_plain s)) = as @ src_data (c_in (ep_plain t))"
    unfolding live_def by blast
  have "wr_limit (p_dst (recv_pipe t)) = None" using assms(3) p by simp
  from recv_advances [OF this q] obtain ds where
    "p_dst q = (p_dst (recv_pipe t))\<lparr>wr_data := wr_data (p_dst (recv_pipe t)) @ ds\<rparr>"
      "fault_of (p_src q) = fault_of (p_src (recv_pipe t))"
      "r = Ok () \<longrightarrow> fst (open_stream c (fault_of (p_src (recv_pipe t))) (src_data (p_src (recv_pipe t)))) =
         ds @ fst (open_stream c (fault_of (p_src q)) (src_data (p_src q)))"
      "r \<noteq> Ok () \<longrightarrow> ds = []"
    by blast
  with p have d: "p_dst q = (c_out (ep_plain s))\<lparr>wr_data := wr_data (c_out (ep_plain s)) @ bs @ ds\<rparr>"
      "fault_of (p_src q) = fault_of (c_in (ep_tunnel t))"
      "r = Ok () \<Longrightarrow> fst (open_stream c (fault_of (c_in (ep_tunnel t))) (src_data (c_in (ep_tunnel t)))) =
         ds @ fst (open_stream c (fault_of (p_src q)) (src_data (p_src q)))"
      "r \<noteq> Ok () \<Longrightarrow> ds = []"
    by simp_all
  have first: "\<exists>bs' rest. p_dst q = (c_out (ep_plain s))\<lparr>wr_data := wr_data (c_out (ep_plain s)) @ bs'\<rparr> \<and>
      fst (open_stream c (fault_of (c_in (ep_tunnel s))) (src_data (c_in (ep_tunnel s)))) = bs' @ rest \<and>
      (r = Ok () \<longrightarrow> rest = fst (open_stream c (fault_of (p_src q)) (src_data (p_src q))))"
  proof (cases "r = Ok ()")
    case True
    with d o show ?thesis by (intro exI [of _ "bs @ ds"] exI) auto
  next
    case False
    with d o show ?thesis by (intro exI [of _ bs] exI) auto
  qed
  have ph: "phase_after Receiving r = Running \<or> (\<exists>e. phase_after Receiving r = Ended Sending e) \<Longrightarrow> r = Ok ()"
    by (cases r) (auto simp: phase_after_def)
  from first second ph show ?thesis
    unfolding live_def by (auto simp: recv_turn_def q)
qed

lemma live_send:
  assumes "live c s t" and "ep_phase t = Running" and "wr_limit (c_out (ep_tunnel s)) = None" and good
  shows "live c s (send_turn send t)"
proof -
  obtain r q where q: "send (send_pipe t) = (r, q)" by fastforce
  from assms(1) obtain w as where
    w: "c_out (ep_tunnel t) = (c_out (ep_tunnel s))\<lparr>wr_data := wr_data (c_out (ep_tunnel s)) @ w\<rparr>"
      "carries c w as" "src_data (c_in (ep_plain s)) = as @ src_data (c_in (ep_plain t))"
    unfolding live_def by blast
  have "wr_limit (p_dst (send_pipe t)) = None" using assms(3) w(1) by simp
  from send_advances [OF assms(4) this q] w obtain v ds where
    "p_dst q = (c_out (ep_tunnel s))\<lparr>wr_data := wr_data (c_out (ep_tunnel s)) @ w @ v\<rparr>"
    "carries c v ds" "src_data (c_in (ep_plain t)) = ds @ src_data (p_src q)"
    by auto
  with w carries_append [of c w as v ds]
  have "\<exists>w as. p_dst q = (c_out (ep_tunnel s))\<lparr>wr_data := wr_data (c_out (ep_tunnel s)) @ w\<rparr> \<and>
      carries c w as \<and> src_data (c_in (ep_plain s)) = as @ src_data (p_src q)"
    by (intro exI [of _ "w @ v"] exI [of _ "as @ ds"]) simp
  with assms(1,2) show ?thesis
    unfolding live_def by (auto simp: send_turn_def q)
qed

lemma safe_drop_send:
  assumes "live c s t" and good
  shows "safe c s ((send_cut k send t)\<lparr>ep_phase := ph\<rparr>)"
proof -
  let ?p = "(send_pipe t)\<lparr>p_dst := cut_writer k (p_dst (send_pipe t))\<rparr>"
  obtain r q where q: "send ?p = (r, q)" by fastforce
  from send_partial [OF assms(2) q] obtain j v ds rest where
    v: "wr_data (p_dst q) = wr_data (c_out (ep_tunnel t)) @ take j v" "carries c v ds"
      "src_data (c_in (ep_plain t)) = ds @ rest" by auto
  from assms(1) obtain w as where
    w: "c_out (ep_tunnel t) = (c_out (ep_tunnel s))\<lparr>wr_data := wr_data (c_out (ep_tunnel s)) @ w\<rparr>"
      "carries c w as" "src_data (c_in (ep_plain s)) = as @ src_data (c_in (ep_plain t))"
    unfolding live_def by blast
  have "\<exists>k w as rest. wr_data (p_dst q) = wr_data (c_out (ep_tunnel s)) @ take k w \<and> carries c w as \<and>
      src_data (c_in (ep_plain s)) = as @ rest"
    using v w carries_append [of c w as v ds]
    by (intro exI [of _ "length w + j"] exI [of _ "w @ v"] exI [of _ "as @ ds"] exI [of _ rest]) simp
  with live_safe [OF assms(1)] show ?thesis
    using q unfolding safe_def by (simp add: send_cut_def)
qed

lemma safe_drop_recv:
  assumes "live c s t" and "ep_phase t = Ended Sending e"
  shows "safe c s ((recv_cut k recv t)\<lparr>ep_phase := ph\<rparr>)"
proof -
  let ?p = "(recv_pipe t)\<lparr>p_dst := cut_writer k (p_dst (recv_pipe t))\<rparr>"
  obtain r q where q: "recv ?p = (r, q)" by fastforce
  from recv_partial [OF q] obtain m where
    m: "wr_data (p_dst q) = wr_data (c_out (ep_plain t)) @
      take m (fst (open_stream c (fault_of (c_in (ep_tunnel t))) (src_data (c_in (ep_tunnel t)))))"
    by auto
  from assms obtain bs where
    "c_out (ep_plain t) = (c_out (ep_plain s))\<lparr>wr_data := wr_data (c_out (ep_plain s)) @ bs\<rparr>"
    "fst (open_stream c (fault_of (c_in (ep_tunnel s))) (src_data (c_in (ep_tunnel s)))) =
      bs @ fst (open_stream c (fault_of (c_in (ep_tunnel t))) (src_data (c_in (ep_tunnel t))))"
    unfolding live_def by blast
  with m have "\<exists>m. wr_data (p_dst q) = wr_data (c_out (ep_plain s)) @
      take m (fst (open_stream c (fault_of (c_in (ep_tunnel s))) (src_data (c_in (ep_tunnel s)))))"
    by (intro exI [of _ "length bs + m"]) simp
  with live_safe [OF assms(1)] show ?thesis
    using q unfolding safe_def by (simp add: recv_cut_def)
qed

lemma reachable_safe:
  assumes "endpoint_reach recv send s t" and "ep_phase s = Running"
    and "wr_limit (c_out (ep_plain s)) = None" and "wr_limit (c_out (ep_tunnel s)) = None" and good
  shows "safe c s t"
proof -
  have "safe c s t \<and> ((\<forall>d e. ep_phase t \<noteq> Closed d e) \<longrightarrow> live c s t)"
    using assms(1)
  proof (induction rule: endpoint_reach.induct)
    case reach_here
    then show ?case using live_init [OF assms(2)] live_safe by blast
  next
    case (reach_more t u)
    from reach_more.hyps(2) show ?case
    proof (cases rule: endpoint_step.cases)
      case recv_iter
      with reach_more.IH have "live c s u" using live_recv [OF _ _ assms(3)] by simp
      then show ?thesis using live_safe by blast
    next
      case send_iter
      with reach_more.IH have "live c s u" using live_send [OF _ _ assms(4,5)] by simp
      then show ?thesis using live_safe by blast
    next
      case (drop_send e k)
      with reach_more.IH have "live c s t" by simp
      with drop_send show ?thesis using safe_drop_send [OF _ assms(5)] by simp
    next
      case (drop_recv e k)
      with reach_more.IH have "live c s t" by simp
      with drop_recv show ?thesis using safe_drop_recv by simp
    qed
  qed
  then show ?thesis by blast
qed

end

text \<open>Both programs' pairs of loops are endpoints.\<close>

lemma recv_advances_server:
  assumes "wr_limit (p_dst p) = None" and "server_upload_step c p = (r, q)"
  shows "\<exists>bs. p_dst q = (p_dst p)\<lparr>wr_data := wr_data (p_dst p) @ bs\<rparr> \<and>
        fault_of (p_src q) = fault_of (p_src p) \<and>
        (r = Ok () \<longrightarrow> fst (open_stream c (fault_of (p_src p)) (src_data (p_src p))) =
           bs @ fst (open_stream c (fault_of (p_src q)) (src_data (p_src q)))) \<and>
        (r \<noteq> Ok () \<longrightarrow> bs = [])"
  using recv_step_unlimited [OF assms] by (cases r) auto

interpretation server_endpoint:
  endpoint "server_upload_step c" "server_download_step R config uid c" c
    "rng_ok R \<and> cipher_ok c \<and> length uid = USER_ID_LEN" for R config uid c
proof (unfold_locales, goal_cases)
  case (1 p r q)
  then show ?case by (rule recv_advances_server)
next
  case (2 p r q)
  then show ?case by (rule recv_step_cut)
next
  case (3 p r q)
  then show ?case unfolding server_download_is_send by (intro send_step_unlimited) auto
next
  case (4 p r q)
  then show ?case unfolding server_download_is_send using send_step_cut by blast
qed

interpretation client_endpoint:
  endpoint "client_download_step c" "client_upload_step R config uid c" c
    "rng_ok R \<and> cipher_ok c \<and> length uid = USER_ID_LEN" for R config uid c
proof (unfold_locales, goal_cases)
  case (1 p r q)
  then show ?case unfolding client_download_is_server_upload by (rule recv_advances_server)
next
  case (2 p r q)
  then show ?case unfolding client_download_is_server_upload by (rule recv_step_cut)
next
  case (3 p r q)
  then show ?case unfolding client_upload_is_send by (intro send_step_unlimited) auto
next
  case (4 p r q)
  then show ?case unfolding client_upload_is_send using send_step_cut by blast
qed

subsection \<open>Properties\<close>

text \<open>C8: At every moment of a server session, under every interleaving of the two loops and wherever
  the losing loop is dropped: the target has received a prefix of what the client's stream
  delivers, and the client has been sent a prefix of packets that carry a prefix of the
  target's answer.\<close>

theorem server_session_safe:
  assumes "rng_ok R" and "cipher_ok c" and "length uid = USER_ID_LEN"
    and "endpoint_reach (server_upload_step c) (server_download_step R config uid c) s t"
    and "ep_phase s = Running"
    and "wr_limit (c_out (ep_plain s)) = None" and "wr_limit (c_out (ep_tunnel s)) = None"
  shows "(\<exists>m. wr_data (c_out (ep_plain t)) = wr_data (c_out (ep_plain s)) @
            take m (fst (open_stream c (fault_of (c_in (ep_tunnel s))) (src_data (c_in (ep_tunnel s)))))) \<and>
         (\<exists>k w as rest. wr_data (c_out (ep_tunnel t)) = wr_data (c_out (ep_tunnel s)) @ take k w \<and>
            carries c w as \<and> src_data (c_in (ep_plain s)) = as @ rest)"
  using server_endpoint.reachable_safe [OF assms(4-7)] assms(1-3) by (simp add: safe_def)

definition example_endpoint :: "nat endpoint" where
  "example_endpoint = \<lparr>ep_rng = 0, ep_tunnel = fresh_conn [example_sent],
     ep_plain = fresh_conn [[4], [5]], ep_phase = Running\<rparr>"

lemma example_endpoint_simps [simp]:
  "ep_rng example_endpoint = 0" "ep_tunnel example_endpoint = fresh_conn [example_sent]"
  "ep_plain example_endpoint = fresh_conn [[4], [5]]" "ep_phase example_endpoint = Running"
  by (simp_all add: example_endpoint_def)

theorem server_session_safe_witness:
  "\<exists>k w as rest. wr_data (c_out (ep_tunnel
       (send_turn (server_download_step counter_rng ServerConfig_default example_uid example_cipher)
          example_endpoint))) = take k w \<and>
     carries example_cipher w as \<and> [4, 5] = as @ rest"
proof -
  let ?recv = "server_upload_step example_cipher :: (nat pipe, loop_end, unit) stm"
  let ?send = "server_download_step counter_rng ServerConfig_default example_uid example_cipher"
  have "endpoint_reach ?recv ?send example_endpoint (send_turn ?send example_endpoint)"
    by (rule endpoint_reach.reach_more [OF endpoint_reach.reach_here]) (rule endpoint_step.send_iter, simp)
  from server_session_safe [OF rng_ok_counter cipher_ok_example length_example_uid this] show ?thesis
    by simp
qed

text \<open>The same for a client session: the application has received a prefix of what the server's
  stream delivers, and the server has been sent a prefix of packets that carry a prefix of the
  application's data.\<close>

theorem client_session_safe:
  assumes "rng_ok R" and "cipher_ok c" and "length uid = USER_ID_LEN"
    and "endpoint_reach (client_download_step c) (client_upload_step R config uid c) s t"
    and "ep_phase s = Running"
    and "wr_limit (c_out (ep_plain s)) = None" and "wr_limit (c_out (ep_tunnel s)) = None"
  shows "(\<exists>m. wr_data (c_out (ep_plain t)) = wr_data (c_out (ep_plain s)) @
            take m (fst (open_stream c (fault_of (c_in (ep_tunnel s))) (src_data (c_in (ep_tunnel s)))))) \<and>
         (\<exists>k w as rest. wr_data (c_out (ep_tunnel t)) = wr_data (c_out (ep_tunnel s)) @ take k w \<and>
            carries c w as \<and> src_data (c_in (ep_plain s)) = as @ rest)"
  using client_endpoint.reachable_safe [OF assms(4-7)] assms(1-3) by (simp add: safe_def)

theorem client_session_safe_witness:
  "\<exists>m. wr_data (c_out (ep_plain
       (recv_turn (client_download_step example_cipher) example_endpoint))) =
     take m (fst (open_stream example_cipher UnexpectedEof example_sent))"
proof -
  let ?recv = "client_download_step example_cipher :: (nat pipe, loop_end, unit) stm"
  let ?send = "client_upload_step counter_rng ClientConfig_default example_uid example_cipher"
  have "endpoint_reach ?recv ?send example_endpoint (recv_turn ?recv example_endpoint)"
    by (rule endpoint_reach.reach_more [OF endpoint_reach.reach_here]) (rule endpoint_step.recv_iter, simp)
  from client_session_safe [OF rng_ok_counter cipher_ok_example length_example_uid this] show ?thesis
    by (simp add: fault_of_def)
qed

text \<open>An endpoint whose loop has ended only drops the other one.\<close>

lemma ended_reach:
  assumes "endpoint_reach recv send t u" and "ep_phase t = Ended Receiving e"
  shows "u = t \<or> (\<exists>k. u = (send_cut k send t)\<lparr>ep_phase := Closed Receiving e\<rparr>)"
  using assms(1)
proof (induction rule: endpoint_reach.induct)
  case (reach_more v u)
  then show ?case
    using assms(2) closed_is_final [OF reach_more.hyps(2)]
    by (auto elim!: endpoint_step_closed)
qed simp

text \<open>C36: A session does not survive a half-close, although the server's handler is documented as
  copying in both directions: when the client has finished sending, the receiving loop ends
  the session, and of the target's answer at most one more chunk of 8192 bytes is sent,
  in part, however much of it is still to come.\<close>

theorem half_close_ends_session:
  assumes "rng_ok R" and "cipher_ok c" and "length uid = USER_ID_LEN"
    and "ep_phase s = Running" and "src_data (c_in (ep_tunnel s)) = []"
    and "src_fault (c_in (ep_tunnel s)) = None"
    and "endpoint_reach (server_upload_step c) (server_download_step R config uid c)
           (recv_turn (server_upload_step c) s) u"
  shows "ep_phase (recv_turn (server_upload_step c) s) = Ended Receiving EndOfStream \<and>
    ep_phase u \<noteq> Running \<and>
    (\<exists>k w bs. wr_data (c_out (ep_tunnel u)) = wr_data (c_out (ep_tunnel s)) @ take k w \<and>
       carries c w bs \<and> length bs \<le> CHUNK_LEN)"
proof -
  let ?t = "recv_turn (server_upload_step c) s"
  let ?send = "server_download_step R config uid c"
  have ph: "ep_phase ?t = Ended Receiving EndOfStream" and out: "c_out (ep_tunnel ?t) = c_out (ep_tunnel s)"
    using assms(5,6)
    by (simp_all add: recv_turn_def phase_after_def recv_step_unfold bind_def with_err_def on_src_def
        read_exact_eq fault_of_def end_of_read_def)
  from ended_reach [OF assms(7) ph] show ?thesis
  proof (elim disjE exE)
    assume "u = ?t"
    with ph out show ?thesis
      by (auto intro!: exI [of _ 0] exI [of _ "[]"] carries_Nil)
  next
    fix k assume u: "u = (send_cut k ?send ?t)\<lparr>ep_phase := Closed Receiving EndOfStream\<rparr>"
    obtain r q where q: "?send ((send_pipe ?t)\<lparr>p_dst := cut_writer k (p_dst (send_pipe ?t))\<rparr>) = (r, q)"
      by fastforce
    from send_step_cut [OF assms(1-3) q [unfolded server_download_is_send]] q ph out u show ?thesis
      by (auto simp: send_cut_def)
  qed
qed

theorem half_close_ends_session_witness:
  "ep_phase (recv_turn (server_upload_step example_cipher) (example_endpoint\<lparr>ep_tunnel := fresh_conn []\<rparr>))
     = Ended Receiving EndOfStream"
  using half_close_ends_session [OF rng_ok_counter cipher_ok_example length_example_uid _ _ _
      endpoint_reach.reach_here, of "example_endpoint\<lparr>ep_tunnel := fresh_conn []\<rparr>"]
  by simp

end
