(* ===== verification/Session_Ends.thy ===== *)
theory Session_Ends
  imports Session
begin

section \<open>Every session ends\<close>

text \<open>
  The select! of both programs under any scheduler: what there is to read gets smaller with every
  iteration that goes on, and an iteration that does not go on brings the session nearer to its end.
  So no schedule runs forever, and the only sessions that cannot go on are the closed ones.
\<close>

subsection \<open>No step makes the input larger\<close>

lemma read_exact_shrinks: "src_size (snd (read_exact n s)) \<le> src_size s"
proof (cases "n \<le> length (src_data s)")
  case True
  then have "read_exact n s = (Ok (take n (src_data s)), snd (read_exact n s))"
    by (simp add: read_exact_def)
  then show ?thesis by (rule read_exact_size_le)
next
  case False
  then show ?thesis by (simp add: read_exact_def src_size_def src_data_def)
qed

lemma read_some_shrinks: "src_size (snd (read_some n s)) \<le> src_size s"
  by (auto simp: read_some_def src_size_def src_data_def split: list.splits option.splits)

lemma recv_step_shrinks: "src_size (p_src (snd (server_upload_step c p))) \<le> src_size (p_src p)"
proof -
  obtain x s where x: "read_exact 2 (p_src p) = (x, s)" by fastforce
  with read_exact_shrinks [of 2 "p_src p"] have s: "src_size s \<le> src_size (p_src p)" by simp
  have y: "src_size (snd (read_exact n s)) \<le> src_size (p_src p)" for n
    using read_exact_shrinks [of n s] s by linarith
  show ?thesis
  proof (cases x)
    case (Ok hd)
    obtain z t where z: "read_exact (unat (of_be16 hd)) s = (z, t)" by fastforce
    with y [of "unat (of_be16 hd)"] have t: "src_size t \<le> src_size (p_src p)" by simp
    have "p_src (snd (server_upload_step c p)) = t"
      using x Ok z by (auto simp: recv_step_unfold bind_def with_err_def on_src_def on_dst_def
          split: prod.split res.split)
    with t show ?thesis by simp
  qed (use x s in \<open>simp_all add: recv_step_unfold bind_def with_err_def on_src_def\<close>)
qed

lemma send_step_shrinks: "src_size (p_src (snd (send_step R padding m uid c p))) \<le> src_size (p_src p)"
proof -
  obtain x s where x: "read_some CHUNK_LEN (p_src p) = (x, s)" by fastforce
  with read_some_shrinks [of CHUNK_LEN "p_src p"] have s: "src_size s \<le> src_size (p_src p)" by simp
  have "p_src (snd (send_step R padding m uid c p)) = s"
    using x by (auto simp: send_step_def bind_def with_err_def on_src_def on_dst_def on_rng_def Let_def
        split: prod.split res.split)
  with s show ?thesis by simp
qed

subsection \<open>The measure of a session\<close>

definition phase_weight :: "phase \<Rightarrow> nat" where
  "phase_weight ph = (case ph of Running \<Rightarrow> 2 | Ended d e \<Rightarrow> 1 | Closed d e \<Rightarrow> 0)"

definition work_left :: "'r endpoint \<Rightarrow> nat" where
  "work_left s = src_size (c_in (ep_tunnel s)) + src_size (c_in (ep_plain s)) + phase_weight (ep_phase s)"

text \<open>What a pair of loops needs for its sessions to end.\<close>

locale consuming_loops =
  fixes recv send :: "('r pipe, loop_end, unit) stm"
  assumes recv_shrinks: "src_size (p_src (snd (recv p))) \<le> src_size (p_src p)"
    and recv_consumes: "recv p = (Ok u, q) \<Longrightarrow> src_size (p_src q) < src_size (p_src p)"
    and send_shrinks: "src_size (p_src (snd (send p))) \<le> src_size (p_src p)"
    and send_consumes: "send p = (Ok u, q) \<Longrightarrow> src_size (p_src q) < src_size (p_src p)"
begin

lemma step_decreases:
  assumes "endpoint_step recv send s t"
  shows "work_left t < work_left s"
  using assms
proof cases
  case recv_iter
  obtain r q where q: "recv (recv_pipe s) = (r, q)" by fastforce
  with recv_shrinks [of "recv_pipe s"] have "src_size (p_src q) \<le> src_size (c_in (ep_tunnel s))" by simp
  with q recv_consumes [of "recv_pipe s" "()" q] recv_iter show ?thesis
    by (cases r) (auto simp: recv_turn_def work_left_def phase_weight_def phase_after_def)
next
  case send_iter
  obtain r q where q: "send (send_pipe s) = (r, q)" by fastforce
  with send_shrinks [of "send_pipe s"] have "src_size (p_src q) \<le> src_size (c_in (ep_plain s))" by simp
  with q send_consumes [of "send_pipe s" "()" q] send_iter show ?thesis
    by (cases r) (auto simp: send_turn_def work_left_def phase_weight_def phase_after_def)
next
  case (drop_send e k)
  then show ?thesis by (simp add: work_left_def phase_weight_def send_cut_def Let_def)
next
  case (drop_recv e k)
  then show ?thesis by (simp add: work_left_def phase_weight_def recv_cut_def Let_def)
qed

lemma step_wf: "wfp (\<lambda>t s. endpoint_step recv send s t)"
proof -
  have "{(t, s). endpoint_step recv send s t} \<subseteq> measure work_left"
    using step_decreases by auto
  then show ?thesis unfolding wfp_def by (rule wf_subset [OF wf_measure])
qed

end

lemma can_step_unless_closed:
  "(\<exists>t. endpoint_step recv send s t) \<longleftrightarrow> (\<forall>d e. ep_phase s \<noteq> Closed d e)"
proof
  assume "\<forall>d e. ep_phase s \<noteq> Closed d e"
  then show "\<exists>t. endpoint_step recv send s t"
    by (cases "ep_phase s"; cases "ep_phase s = Running")
      (metis endpoint_step.intros direction.exhaust phase.exhaust)+
qed (use closed_is_final in blast)

interpretation server_consuming:
  consuming_loops "server_upload_step c" "server_download_step R config uid c" for R config uid c
  by unfold_locales
    (simp_all add: recv_step_shrinks recv_step_decreases server_download_is_send send_step_shrinks
      send_step_decreases)

interpretation client_consuming:
  consuming_loops "client_download_step c" "client_upload_step R config uid c" for R config uid c
  by unfold_locales
    (simp_all add: client_download_is_server_upload recv_step_shrinks recv_step_decreases client_upload_is_send
      send_step_shrinks send_step_decreases)

subsection \<open>Properties\<close>

text \<open>A run of a session: each state is reached from the one before by one step.\<close>

definition session_run ::
  "('r pipe, loop_end, unit) stm \<Rightarrow> ('r pipe, loop_end, unit) stm \<Rightarrow> 'r endpoint list \<Rightarrow> bool" where
  "session_run recv send ts \<longleftrightarrow> (\<forall>i. Suc i < length ts \<longrightarrow> endpoint_step recv send (ts ! i) (ts ! Suc i))"

lemma run_bound:
  assumes "\<And>s t. endpoint_step recv send s t \<Longrightarrow> work_left t < work_left s"
    and "session_run recv send (s # ts)"
  shows "length ts \<le> work_left s"
  using assms(2)
proof (induction ts arbitrary: s)
  case (Cons t ts)
  have "endpoint_step recv send s t"
    using Cons.prems by (auto simp: session_run_def dest!: spec [of _ 0])
  then have less: "work_left t < work_left s" by (rule assms(1))
  have "session_run recv send (t # ts)"
    using Cons.prems unfolding session_run_def by (metis Suc_less_eq length_Cons nth_Cons_Suc)
  with Cons.IH less show ?case by fastforce
qed simp

text \<open>C11: Every session of the server ends, under every scheduler: a run has at most as many steps as there are
  bytes and segments to read on both connections, and two more; a state has no further step exactly when the
  session is closed. So each maximal run ends, and it ends with the session closed.\<close>

theorem server_session_ends:
  assumes "session_run (server_upload_step c) (server_download_step R config uid c) (s # ts)"
  shows "length ts \<le> src_size (c_in (ep_tunnel s)) + src_size (c_in (ep_plain s)) + 2 \<and>
    ((\<nexists>u. endpoint_step (server_upload_step c) (server_download_step R config uid c) (last (s # ts)) u) \<longleftrightarrow>
       (\<exists>d e. ep_phase (last (s # ts)) = Closed d e))"
proof -
  have "length ts \<le> work_left s" by (rule run_bound [OF server_consuming.step_decreases assms])
  also have "\<dots> \<le> src_size (c_in (ep_tunnel s)) + src_size (c_in (ep_plain s)) + 2"
    by (simp add: work_left_def phase_weight_def split: phase.split)
  finally show ?thesis using can_step_unless_closed by metis
qed

theorem server_session_ends_witness:
  "length [recv_turn (server_upload_step example_cipher) example_endpoint] \<le>
     src_size (src_of [example_sent]) + src_size (src_of [[4], [5]]) + 2"
proof -
  let ?recv = "server_upload_step example_cipher :: (nat pipe, loop_end, unit) stm"
  let ?send = "server_download_step counter_rng ServerConfig_default example_uid example_cipher"
  have "endpoint_step ?recv ?send example_endpoint (recv_turn ?recv example_endpoint)"
    by (rule endpoint_step.recv_iter) simp
  then have "session_run ?recv ?send [example_endpoint, recv_turn ?recv example_endpoint]"
    by (simp add: session_run_def)
  from server_session_ends [OF this] show ?thesis by simp
qed

text \<open>The same for a session of the client.\<close>

theorem client_session_ends:
  assumes "session_run (client_download_step c) (client_upload_step R config uid c) (s # ts)"
  shows "length ts \<le> src_size (c_in (ep_tunnel s)) + src_size (c_in (ep_plain s)) + 2 \<and>
    ((\<nexists>u. endpoint_step (client_download_step c) (client_upload_step R config uid c) (last (s # ts)) u) \<longleftrightarrow>
       (\<exists>d e. ep_phase (last (s # ts)) = Closed d e))"
proof -
  have "length ts \<le> work_left s" by (rule run_bound [OF client_consuming.step_decreases assms])
  also have "\<dots> \<le> src_size (c_in (ep_tunnel s)) + src_size (c_in (ep_plain s)) + 2"
    by (simp add: work_left_def phase_weight_def split: phase.split)
  finally show ?thesis using can_step_unless_closed by metis
qed

theorem client_session_ends_witness:
  "length [send_turn (client_upload_step counter_rng ClientConfig_default example_uid example_cipher) example_endpoint] \<le>
     src_size (src_of [example_sent]) + src_size (src_of [[4], [5]]) + 2"
proof -
  let ?recv = "client_download_step example_cipher :: (nat pipe, loop_end, unit) stm"
  let ?send = "client_upload_step counter_rng ClientConfig_default example_uid example_cipher"
  have "endpoint_step ?recv ?send example_endpoint (send_turn ?send example_endpoint)"
    by (rule endpoint_step.send_iter) simp
  then have "session_run ?recv ?send [example_endpoint, send_turn ?send example_endpoint]"
    by (simp add: session_run_def)
  from client_session_ends [OF this] show ?thesis by simp
qed

end
