(* ===== verification/Tunnel_Net.thy ===== *)
theory Tunnel_Net
  imports Session_Ends
begin

section \<open>A client and a server session, coupled by a network\<close>

text \<open>
  The two sessions of a tunnel at once. Each program runs its own select!; what one writes to the tunnel
  travels over a connection that delivers bytes in order, in pieces of any size and at any time, and that ends
  when the writer has closed, or breaks with an error. An iteration of a receiving loop can only
  happen when what it waits for has arrived, or when its stream has ended. Nothing else orders
  the steps of the two programs and of the network.
\<close>

record ('a, 'b) tunnel_net =
  tn_client :: "'a endpoint"
  tn_server :: "'b endpoint"
  tn_up :: nat
  tn_down :: nat
  tn_up_end :: bool
  tn_down_end :: bool

abbreviation tun_in :: "'r endpoint \<Rightarrow> bytes" where "tun_in s \<equiv> src_data (c_in (ep_tunnel s))"
abbreviation tun_out :: "'r endpoint \<Rightarrow> bytes" where "tun_out s \<equiv> wr_data (c_out (ep_tunnel s))"
abbreviation plain_in :: "'r endpoint \<Rightarrow> bytes" where "plain_in s \<equiv> src_data (c_in (ep_plain s))"
abbreviation plain_out :: "'r endpoint \<Rightarrow> bytes" where "plain_out s \<equiv> wr_data (c_out (ep_plain s))"

text \<open>A whole packet (its length and as many bytes) has arrived.\<close>

definition frame_available :: "bytes \<Rightarrow> bool" where
  "frame_available w \<longleftrightarrow> 2 \<le> length w \<and> unat (of_be16 (take 2 w)) \<le> length w - 2"

definition may_recv :: "bool \<Rightarrow> 'r endpoint \<Rightarrow> bool" where
  "may_recv ended s \<longleftrightarrow> ended \<or> frame_available (tun_in s)"

text \<open>Bytes arrive at a socket; a stream breaks.\<close>

definition arrive :: "bytes \<Rightarrow> 'r endpoint \<Rightarrow> 'r endpoint" where
  "arrive bs s = s\<lparr>ep_tunnel := (ep_tunnel s)\<lparr>c_in := (c_in (ep_tunnel s))
     \<lparr>src_segs := src_segs (c_in (ep_tunnel s)) @ [bs]\<rparr>\<rparr>\<rparr>"

definition break_in :: "io_error \<Rightarrow> 'r endpoint \<Rightarrow> 'r endpoint" where
  "break_in e s = s\<lparr>ep_tunnel := (ep_tunnel s)\<lparr>c_in := (c_in (ep_tunnel s))\<lparr>src_fault := Some e\<rparr>\<rparr>\<rparr>"

inductive net_step ::
  "('a pipe, loop_end, unit) stm \<Rightarrow> ('a pipe, loop_end, unit) stm \<Rightarrow>
   ('b pipe, loop_end, unit) stm \<Rightarrow> ('b pipe, loop_end, unit) stm \<Rightarrow>
   ('a, 'b) tunnel_net \<Rightarrow> ('a, 'b) tunnel_net \<Rightarrow> bool"
  for crecv csend srecv ssend where
  client_recv: "ep_phase (tn_client n) = Running \<Longrightarrow> may_recv (tn_down_end n) (tn_client n) \<Longrightarrow>
    net_step crecv csend srecv ssend n (n\<lparr>tn_client := recv_turn crecv (tn_client n)\<rparr>)"
| client_send: "ep_phase (tn_client n) = Running \<Longrightarrow>
    net_step crecv csend srecv ssend n (n\<lparr>tn_client := send_turn csend (tn_client n)\<rparr>)"
| client_close: "ep_phase (tn_client n) = Ended d e \<Longrightarrow> endpoint_step crecv csend (tn_client n) s \<Longrightarrow>
    net_step crecv csend srecv ssend n (n\<lparr>tn_client := s\<rparr>)"
| server_recv: "ep_phase (tn_server n) = Running \<Longrightarrow> may_recv (tn_up_end n) (tn_server n) \<Longrightarrow>
    net_step crecv csend srecv ssend n (n\<lparr>tn_server := recv_turn srecv (tn_server n)\<rparr>)"
| server_send: "ep_phase (tn_server n) = Running \<Longrightarrow>
    net_step crecv csend srecv ssend n (n\<lparr>tn_server := send_turn ssend (tn_server n)\<rparr>)"
| server_close: "ep_phase (tn_server n) = Ended d e \<Longrightarrow> endpoint_step srecv ssend (tn_server n) t \<Longrightarrow>
    net_step crecv csend srecv ssend n (n\<lparr>tn_server := t\<rparr>)"
| up_arrives: "\<not> tn_up_end n \<Longrightarrow> bs \<noteq> [] \<Longrightarrow> drop (tn_up n) (tun_out (tn_client n)) = bs @ rest \<Longrightarrow>
    net_step crecv csend srecv ssend n
      (n\<lparr>tn_server := arrive bs (tn_server n), tn_up := tn_up n + length bs\<rparr>)"
| up_ends: "ep_phase (tn_client n) = Closed d e \<Longrightarrow> tn_up n = length (tun_out (tn_client n)) \<Longrightarrow>
    net_step crecv csend srecv ssend n (n\<lparr>tn_up_end := True\<rparr>)"
| up_breaks: "net_step crecv csend srecv ssend n (n\<lparr>tn_server := break_in err (tn_server n), tn_up_end := True\<rparr>)"
| down_arrives: "\<not> tn_down_end n \<Longrightarrow> bs \<noteq> [] \<Longrightarrow> drop (tn_down n) (tun_out (tn_server n)) = bs @ rest \<Longrightarrow>
    net_step crecv csend srecv ssend n
      (n\<lparr>tn_client := arrive bs (tn_client n), tn_down := tn_down n + length bs\<rparr>)"
| down_ends: "ep_phase (tn_server n) = Closed d e \<Longrightarrow> tn_down n = length (tun_out (tn_server n)) \<Longrightarrow>
    net_step crecv csend srecv ssend n (n\<lparr>tn_down_end := True\<rparr>)"
| down_breaks: "net_step crecv csend srecv ssend n (n\<lparr>tn_client := break_in err (tn_client n), tn_down_end := True\<rparr>)"

inductive net_reach ::
  "('a pipe, loop_end, unit) stm \<Rightarrow> ('a pipe, loop_end, unit) stm \<Rightarrow>
   ('b pipe, loop_end, unit) stm \<Rightarrow> ('b pipe, loop_end, unit) stm \<Rightarrow>
   ('a, 'b) tunnel_net \<Rightarrow> ('a, 'b) tunnel_net \<Rightarrow> bool"
  for crecv csend srecv ssend n where
  net_here: "net_reach crecv csend srecv ssend n n"
| net_more: "net_reach crecv csend srecv ssend n m \<Longrightarrow> net_step crecv csend srecv ssend m k \<Longrightarrow>
    net_reach crecv csend srecv ssend n k"

lemma net_reach_trans:
  assumes "net_reach cr cs sr ss m k" and "net_reach cr cs sr ss n m"
  shows "net_reach cr cs sr ss n k"
  using assms by (induction rule: net_reach.induct) (auto intro: net_more)

text \<open>A tunnel right after its handshake: both ends running, all that the handshake wrote has arrived and been read.\<close>

definition end_start :: "'r endpoint \<Rightarrow> bool" where
  "end_start s \<longleftrightarrow> ep_phase s = Running \<and> tun_in s = [] \<and>
     wr_limit (c_out (ep_tunnel s)) = None \<and> wr_limit (c_out (ep_plain s)) = None"

definition net_start :: "('a, 'b) tunnel_net \<Rightarrow> bool" where
  "net_start n \<longleftrightarrow> end_start (tn_client n) \<and> end_start (tn_server n) \<and>
     tn_up n = length (tun_out (tn_client n)) \<and> tn_down n = length (tun_out (tn_server n)) \<and>
     \<not> tn_up_end n \<and> \<not> tn_down_end n"

subsection \<open>Packets in a stream\<close>

definition packets :: "GhostCipher \<Rightarrow> (bytes \<times> bytes) list \<Rightarrow> bool" where
  "packets c ps \<longleftrightarrow> (\<forall>p \<in> set ps. packet c (fst p) (snd p))"

definition wire_of :: "(bytes \<times> bytes) list \<Rightarrow> bytes" where
  "wire_of ps = concat (map fst ps)"

definition data_of :: "(bytes \<times> bytes) list \<Rightarrow> bytes" where
  "data_of ps = concat (map snd ps)"

lemma packet_list_simps [simp]:
  "packets c []" "packets c (p # ps) \<longleftrightarrow> packet c (fst p) (snd p) \<and> packets c ps"
  "packets c (ps @ qs) \<longleftrightarrow> packets c ps \<and> packets c qs"
  "wire_of [] = []" "wire_of (p # ps) = fst p @ wire_of ps" "wire_of (ps @ qs) = wire_of ps @ wire_of qs"
  "data_of [] = []" "data_of (p # ps) = snd p @ data_of ps" "data_of (ps @ qs) = data_of ps @ data_of qs"
  by (auto simp: packets_def wire_of_def data_of_def)

lemma packets_carry: "packets c ps \<Longrightarrow> carries c (wire_of ps) (data_of ps)"
  by (induction ps) (simp_all add: carries_Nil carries_append packet_carries)

lemma packet_head:
  assumes "packet c w b"
  obtains d where "w = be16 (of_nat (length d)) @ d" and "length d < 65536"
  using assms by (auto simp: packet_def)

text \<open>The length field decides where a packet ends, so that a reader finds the packets that were written.\<close>

lemma first_packet:
  assumes "packets c qs" and "x @ y = take m (wire_of qs)" and "frame_available x"
  obtains w b qs' x' where "qs = (w, b) # qs'" and "packet c w b" and "x = w @ x'"
    and "x' @ y = take (m - length w) (wire_of qs')"
proof -
  from assms(3) have two: "2 \<le> length x" by (simp add: frame_available_def)
  with assms(2) have "wire_of qs \<noteq> []" by (auto simp: Suc_le_eq)
  then obtain w b qs' where qs: "qs = (w, b) # qs'" by (cases qs) auto
  with assms(1) have p: "packet c w b" by simp
  then obtain d where w: "w = be16 (of_nat (length d)) @ d" and d: "length d < 65536" by (rule packet_head)
  have m: "length x \<le> m" using arg_cong [OF assms(2), of length] by simp
  have "take 2 x = take 2 (x @ y)" using two by simp
  also have "\<dots> = be16 (of_nat (length d))" using assms(2) qs w two m by (simp add: min_def)
  finally have "length d \<le> length x - 2"
    using assms(3) d by (simp add: frame_available_def)
  then have l: "length w \<le> length x" using w two by simp
  have "x @ y = w @ take (m - length w) (wire_of qs')"
    using assms(2) qs l m by simp
  then have xy: "take (length w) (x @ y) = w" "drop (length w) (x @ y) = take (m - length w) (wire_of qs')"
    by simp_all
  from xy(1) l have x: "x = w @ drop (length w) x"
    by (metis append_take_drop_id diff_is_0_eq' take0 take_append append_Nil2)
  moreover from xy(2) l have "drop (length w) x @ y = take (m - length w) (wire_of qs')" by simp
  ultimately show thesis using qs p by (intro that)
qed

subsection \<open>The turns of an endpoint\<close>

text \<open>A receiving turn on a whole packet, and one without.\<close>

lemma recv_turn_packet:
  assumes "tun_in s = w @ x" and "packet c w b" and "wr_limit (c_out (ep_plain s)) = None"
  shows "ep_phase (recv_turn (server_upload_step c) s) = Running" and "tun_in (recv_turn (server_upload_step c) s) = x"
    and "c_out (ep_plain (recv_turn (server_upload_step c) s)) =
      (c_out (ep_plain s))\<lparr>wr_data := plain_out s @ b\<rparr>"
proof -
  obtain d pt f where d: "w = be16 (of_nat (length d)) @ d" "length d < 65536"
    "GhostCipher_decrypt c d = Ok pt" "GhostFrame_decode pt = Ok f" "gf_payload f = b"
    using assms(2) by (auto simp: packet_def)
  let ?s = "c_in (ep_tunnel s)"
  let ?s1 = "?s\<lparr>src_segs := drop_segs 2 (src_segs ?s)\<rparr>"
  let ?s2 = "?s1\<lparr>src_segs := drop_segs (length d) (src_segs ?s1)\<rparr>"
  have t: "take 2 (be16 (of_nat (length d)) @ d @ x) = be16 (of_nat (length d))" by simp
  have "server_upload_step c (recv_pipe s) =
      (Ok (), (recv_pipe s)\<lparr>p_src := ?s2, p_dst := (c_out (ep_plain s))\<lparr>wr_data := plain_out s @ b\<rparr>\<rparr>)"
    using assms(1,3) d t
    by (cases "b = []")
      (simp_all add: recv_step_unfold bind_def with_err_def on_src_def on_dst_def read_exact_eq)
  then show "ep_phase (recv_turn (server_upload_step c) s) = Running"
    and "tun_in (recv_turn (server_upload_step c) s) = x"
    and "c_out (ep_plain (recv_turn (server_upload_step c) s)) = (c_out (ep_plain s))\<lparr>wr_data := plain_out s @ b\<rparr>"
    using assms(1) d(1,2) by (simp_all add: recv_turn_def phase_after_def)
qed

definition end_of_input :: "loop_end \<Rightarrow> bool" where
  "end_of_input e \<longleftrightarrow> e = EndOfStream \<or> (\<exists>f. e = ReadFailed f)"

lemma recv_turn_starved:
  assumes "\<not> frame_available (tun_in s)"
  shows "\<exists>e. ep_phase (recv_turn (server_upload_step c) s) = Ended Receiving e \<and> end_of_input e"
    and "c_out (ep_plain (recv_turn (server_upload_step c) s)) = c_out (ep_plain s)"
proof -
  let ?n = "unat (of_be16 (take 2 (tun_in s)))"
  obtain e q where "server_upload_step c (recv_pipe s) = (Err e, q)" "end_of_input e" "p_dst q = c_out (ep_plain s)"
  proof (cases "2 \<le> length (tun_in s)")
    case True
    with assms have "\<not> ?n \<le> length (tun_in s) - 2" by (simp add: frame_available_def)
    with True show thesis
      by (intro that) (auto simp: recv_step_unfold bind_def with_err_def on_src_def read_exact_eq end_of_input_def)
  next
    case False
    then show thesis
      by (cases "fault_of (c_in (ep_tunnel s)) = UnexpectedEof"; intro that)
        (auto simp: recv_step_unfold bind_def with_err_def on_src_def read_exact_eq end_of_input_def end_of_read_def)
  qed
  then show "\<exists>e. ep_phase (recv_turn (server_upload_step c) s) = Ended Receiving e \<and> end_of_input e"
    and "c_out (ep_plain (recv_turn (server_upload_step c) s)) = c_out (ep_plain s)"
    by (simp_all add: recv_turn_def phase_after_def)
qed

lemma recv_turn_frame [simp]:
  "c_in (ep_plain (recv_turn recv s)) = c_in (ep_plain s)"
  "c_out (ep_tunnel (recv_turn recv s)) = c_out (ep_tunnel s)"
  by (simp_all add: recv_turn_def split: prod.split)

lemma send_turn_frame [simp]:
  "c_in (ep_tunnel (send_turn send s)) = c_in (ep_tunnel s)"
  "c_out (ep_plain (send_turn send s)) = c_out (ep_plain s)"
  by (simp_all add: send_turn_def split: prod.split)

text \<open>A sending turn: a packet of what it read, or the end of the plain side.\<close>

lemma send_turn_cases:
  assumes "rng_ok R" and "cipher_ok c" and "length uid = USER_ID_LEN" and "wr_limit (c_out (ep_tunnel s)) = None"
  obtains w b where "ep_phase (send_turn (send_step R padding m uid c) s) = Running" and "b \<noteq> []"
      and "packet c w b" and "plain_in s = b @ plain_in (send_turn (send_step R padding m uid c) s)"
      and "c_out (ep_tunnel (send_turn (send_step R padding m uid c) s)) =
        (c_out (ep_tunnel s))\<lparr>wr_data := tun_out s @ w\<rparr>"
      and "src_ok (c_in (ep_plain s)) \<Longrightarrow> src_ok (c_in (ep_plain (send_turn (send_step R padding m uid c) s)))"
    | e where "ep_phase (send_turn (send_step R padding m uid c) s) = Ended Sending e"
      and "plain_in (send_turn (send_step R padding m uid c) s) = plain_in s"
      and "c_out (ep_tunnel (send_turn (send_step R padding m uid c) s)) = c_out (ep_tunnel s)"
      and "src_ok (c_in (ep_plain s)) \<Longrightarrow> plain_in s = []"
proof -
  have cap: "0 < CHUNK_LEN" by (simp add: CHUNK_LEN_def)
  have lim: "wr_limit (p_dst (send_pipe s)) = None" using assms(4) by simp
  show thesis
  proof (cases rule: send_step_cases [OF assms(1-3) lim, where padding = padding and m = m])
    case (1 t)
    then have src: "read_some CHUNK_LEN (c_in (ep_plain s)) = (Ok [], t)" by simp
    with read_some_Ok(1) [OF src] read_some_eof [OF src _ cap] 1 that(2) show thesis
      by (simp add: send_turn_def phase_after_def)
  next
    case (2 e t)
    then have "t = c_in (ep_plain s)" and "plain_in s = []"
      by (auto simp: read_some_def src_data_def split: list.splits option.splits if_splits)
    with 2 that(2) show thesis by (simp add: send_turn_def phase_after_def)
  next
    case (3 buf t g w)
    then have src: "read_some CHUNK_LEN (c_in (ep_plain s)) = (Ok buf, t)" by simp
    with read_some_Ok [OF src] 3 that(1) [of buf w] show thesis
      by (simp add: send_turn_def phase_after_def)
  qed
qed

subsection \<open>The iterations that are dropped\<close>

lemma send_cut_result:
  assumes "rng_ok R" and "cipher_ok c" and "length uid = USER_ID_LEN"
  shows "\<exists>j ps rest. tun_out (send_cut k (send_step R padding m uid c) s) = tun_out s @ take j (wire_of ps) \<and>
    packets c ps \<and> plain_in s = data_of ps @ rest"
proof -
  let ?p = "(send_pipe s)\<lparr>p_dst := cut_writer k (p_dst (send_pipe s))\<rparr>"
  obtain r q where q: "send_step R padding m uid c ?p = (r, q)" by fastforce
  from send_step_cut_packet [OF assms q] obtain j w bs rest where
    "wr_data (p_dst q) = tun_out s @ take j w" "w = [] \<and> bs = [] \<or> packet c w bs" "plain_in s = bs @ rest"
    by auto
  moreover from this(2) obtain ps where "packets c ps" "wire_of ps = w" "data_of ps = bs"
    using that [of "[]"] that [of "[(w, bs)]"] by auto
  ultimately show ?thesis
    using q by (intro exI [of _ j] exI [of _ ps] exI [of _ rest]) (simp add: send_cut_def)
qed

lemma recv_cut_result:
  assumes "tun_in s @ y = take m (wire_of qs)" and "packets c qs"
  shows "\<exists>j. plain_out (recv_cut k (server_upload_step c) s) = plain_out s @ take j (data_of qs)"
proof -
  let ?p = "(recv_pipe s)\<lparr>p_dst := cut_writer k (p_dst (recv_pipe s))\<rparr>"
  let ?o = "\<lambda>w. fst (open_stream c (fault_of (c_in (ep_tunnel s))) w)"
  obtain r q where q: "server_upload_step c ?p = (r, q)" by fastforce
  from recv_step_cut [OF q] obtain i where i: "wr_data (p_dst q) = plain_out s @ take i (?o (tun_in s))"
    by auto
  have "tun_in s = take (length (tun_in s)) (take m (wire_of qs))" using assms(1) by (metis append_eq_conv_conj)
  then have "tun_in s = take (min (length (tun_in s)) m) (wire_of qs)" by simp
  then obtain j where "?o (tun_in s) = take j (data_of qs)"
    using carries_open_take [OF packets_carry [OF assms(2)]] by metis
  with i q show ?thesis
    by (intro exI [of _ "min i j"]) (simp add: recv_cut_def min.commute)
qed

lemma cut_frame [simp]:
  "ep_phase (send_cut k send s) = ep_phase s" "ep_phase (recv_cut k recv s) = ep_phase s"
  "ep_plain (send_cut k send s) = ep_plain s" "ep_tunnel (recv_cut k recv s) = ep_tunnel s"
  "c_in (ep_tunnel (send_cut k send s)) = c_in (ep_tunnel s)"
  "c_in (ep_plain (recv_cut k recv s)) = c_in (ep_plain s)"
  "wr_limit (c_out (ep_tunnel (send_cut k send s))) = wr_limit (c_out (ep_tunnel s))"
  "wr_limit (c_out (ep_plain (recv_cut k recv s))) = wr_limit (c_out (ep_plain s))"
  by (simp_all add: send_cut_def recv_cut_def Let_def)

subsection \<open>One direction of the tunnel\<close>

definition can_send :: "'r endpoint \<Rightarrow> bool" where
  "can_send s \<longleftrightarrow> (\<forall>d e. ep_phase s \<noteq> Closed d e)"

definition can_recv :: "'r endpoint \<Rightarrow> bool" where
  "can_recv s \<longleftrightarrow> ep_phase s = Running \<or> (\<exists>e. ep_phase s = Ended Sending e)"

text \<open>
  The invariant of a direction, from the plain side of \<open>S\<close> to the plain side of \<open>D\<close>: of the packets
  that \<open>S\<close> has made, \<open>ds\<close> have been opened by \<open>D\<close>, and \<open>qs\<close>, the last of them perhaps in part, are on
  their way or have arrived. \<open>a0\<close> is what the plain side of \<open>S\<close> had to say at the start, \<open>o0\<close> what \<open>D\<close> had written.
\<close>

definition half_ok ::
  "GhostCipher \<Rightarrow> bytes \<Rightarrow> bytes \<Rightarrow> 'a endpoint \<Rightarrow> 'b endpoint \<Rightarrow> nat \<Rightarrow> bool" where
  "half_ok c a0 o0 S D up \<longleftrightarrow>
     (\<exists>ds qs m rest. packets c (ds @ qs) \<and> a0 = data_of (ds @ qs) @ rest \<and>
        (can_send S \<longrightarrow> length (wire_of qs) \<le> m \<and> rest = plain_in S) \<and>
        (can_recv D \<longrightarrow> tun_in D @ drop up (tun_out S) = take m (wire_of qs) \<and>
           plain_out D = o0 @ data_of ds)) \<and>
     (\<exists>j. plain_out D = o0 @ take j a0) \<and> up \<le> length (tun_out S)"

lemma half_okI:
  assumes "packets c (ds @ qs)" and "a0 = data_of (ds @ qs) @ rest"
    and "can_send S \<Longrightarrow> length (wire_of qs) \<le> m \<and> rest = plain_in S"
    and "can_recv D \<Longrightarrow> tun_in D @ drop up (tun_out S) = take m (wire_of qs) \<and> plain_out D = o0 @ data_of ds"
    and "plain_out D = o0 @ take j a0" and "up \<le> length (tun_out S)"
  shows "half_ok c a0 o0 S D up"
  unfolding half_ok_def using assms by blast

lemma half_okE:
  assumes "half_ok c a0 o0 S D up"
  obtains ds qs m rest j where "packets c (ds @ qs)" and "a0 = data_of (ds @ qs) @ rest"
    and "can_send S \<longrightarrow> length (wire_of qs) \<le> m \<and> rest = plain_in S"
    and "can_recv D \<longrightarrow> tun_in D @ drop up (tun_out S) = take m (wire_of qs) \<and> plain_out D = o0 @ data_of ds"
    and "plain_out D = o0 @ take j a0" and "up \<le> length (tun_out S)"
  using assms unfolding half_ok_def by blast

text \<open>What does not touch a direction keeps its invariant, and so does losing the ability to go on.\<close>

lemma half_ok_cong:
  assumes "half_ok c a0 o0 S D up" and "can_send S' \<Longrightarrow> can_send S \<and> plain_in S' = plain_in S"
    and "tun_out S' = tun_out S" and "can_recv D' \<Longrightarrow> can_recv D \<and> tun_in D' = tun_in D"
    and "plain_out D' = plain_out D"
  shows "half_ok c a0 o0 S' D' up"
  using assms(1)
proof (rule half_okE)
  fix ds qs m rest j
  assume "packets c (ds @ qs)" "a0 = data_of (ds @ qs) @ rest"
    "can_send S \<longrightarrow> length (wire_of qs) \<le> m \<and> rest = plain_in S"
    "can_recv D \<longrightarrow> tun_in D @ drop up (tun_out S) = take m (wire_of qs) \<and> plain_out D = o0 @ data_of ds"
    "plain_out D = o0 @ take j a0" "up \<le> length (tun_out S)"
  with assms(2-5) show ?thesis by (intro half_okI [of c ds qs _ rest]) simp_all
qed

lemma half_ok_start: "end_start S \<Longrightarrow> end_start D \<Longrightarrow> half_ok c (plain_in S) (plain_out D) S D (length (tun_out S))"
  by (rule half_okI [of c "[]" "[]" _ "plain_in S" _ 0 _ _ _ 0]) (simp_all add: end_start_def)

text \<open>A sending turn of \<open>S\<close>.\<close>

lemma half_ok_send:
  assumes "half_ok c a0 o0 S D up" and "ep_phase S = Running" and "wr_limit (c_out (ep_tunnel S)) = None"
    and "rng_ok R" and "cipher_ok c" and "length uid = USER_ID_LEN"
  shows "half_ok c a0 o0 (send_turn (send_step R padding m uid c) S) D up"
proof (cases rule: send_turn_cases [OF assms(4-6,3), where padding = padding and m = m])
  case (1 w b)
  have open_S: "can_send S" using assms(2) by (simp add: can_send_def)
  from assms(1) show ?thesis
  proof (rule half_okE)
    fix ds qs n rest j
    assume h: "packets c (ds @ qs)" "a0 = data_of (ds @ qs) @ rest"
      "can_send S \<longrightarrow> length (wire_of qs) \<le> n \<and> rest = plain_in S"
      "can_recv D \<longrightarrow> tun_in D @ drop up (tun_out S) = take n (wire_of qs) \<and> plain_out D = o0 @ data_of ds"
      "plain_out D = o0 @ take j a0" "up \<le> length (tun_out S)"
    let ?S = "send_turn (send_step R padding m uid c) S"
    have out: "tun_out ?S = tun_out S @ w" using 1(5) by simp
    have n: "length (wire_of qs) \<le> n" "rest = b @ plain_in ?S" using h(3) open_S 1(4) by simp_all
    show ?thesis
    proof (rule half_okI)
      show "packets c (ds @ qs @ [(w, b)])" using h(1) 1(3) by simp
      show "a0 = data_of (ds @ qs @ [(w, b)]) @ plain_in ?S" using h(2) n(2) by simp
      show "length (wire_of (qs @ [(w, b)])) \<le> n + length w \<and> plain_in ?S = plain_in ?S" using n(1) by simp
      show "tun_in D @ drop up (tun_out ?S) = take (n + length w) (wire_of (qs @ [(w, b)])) \<and>
          plain_out D = o0 @ data_of ds" if "can_recv D"
        using h(4,6) that n(1) by (simp add: out flip: append.assoc)
      show "plain_out D = o0 @ take j a0" by (rule h(5))
      show "up \<le> length (tun_out ?S)" using h(6) out by simp
    qed
  qed
next
  case (2 e)
  then show ?thesis
    by (intro half_ok_cong [OF assms(1)]) (simp_all add: can_send_def assms(2))
qed

text \<open>A closing step of \<open>S\<close>: the other loop is dropped, perhaps in the middle of a packet.\<close>

lemma half_ok_send_cut:
  assumes "half_ok c a0 o0 S D up" and "can_send S" and "rng_ok R" and "cipher_ok c" and "length uid = USER_ID_LEN"
  shows "half_ok c a0 o0 ((send_cut k (send_step R padding m uid c) S)\<lparr>ep_phase := Closed d e\<rparr>) D up"
  using assms(1)
proof (rule half_okE)
  fix ds qs n rest j
  assume h: "packets c (ds @ qs)" "a0 = data_of (ds @ qs) @ rest"
    "can_send S \<longrightarrow> length (wire_of qs) \<le> n \<and> rest = plain_in S"
    "can_recv D \<longrightarrow> tun_in D @ drop up (tun_out S) = take n (wire_of qs) \<and> plain_out D = o0 @ data_of ds"
    "plain_out D = o0 @ take j a0" "up \<le> length (tun_out S)"
  let ?S = "(send_cut k (send_step R padding m uid c) S)\<lparr>ep_phase := Closed d e\<rparr>"
  obtain i ps more where c: "tun_out ?S = tun_out S @ take i (wire_of ps)" "packets c ps" "plain_in S = data_of ps @ more"
    using send_cut_result [OF assms(3-5), of k padding m S] by auto
  show ?thesis
  proof (rule half_okI)
    show "packets c (ds @ qs @ ps)" using h(1) c(2) by simp
    show "a0 = data_of (ds @ qs @ ps) @ more" using h(2,3) assms(2) c(3) by simp
    show "tun_in D @ drop up (tun_out ?S) = take (length (wire_of qs) + i) (wire_of (qs @ ps)) \<and>
        plain_out D = o0 @ data_of ds" if "can_recv D"
      using h(3,4,6) that assms(2) c(1) by (simp flip: append.assoc)
    show "plain_out D = o0 @ take j a0" by (rule h(5))
    show "up \<le> length (tun_out ?S)" using h(6) c(1) by simp
  qed (simp add: can_send_def)
qed

text \<open>A receiving turn of \<open>D\<close>.\<close>

lemma half_ok_recv:
  assumes "half_ok c a0 o0 S D up" and "ep_phase D = Running" and "wr_limit (c_out (ep_plain D)) = None"
  shows "half_ok c a0 o0 S (recv_turn (server_upload_step c) D) up"
    and "frame_available (tun_in D) \<Longrightarrow> ep_phase (recv_turn (server_upload_step c) D) = Running"
proof -
  let ?D = "recv_turn (server_upload_step c) D"
  have live_D: "can_recv D" using assms(2) by (simp add: can_recv_def)
  obtain ds qs n rest j where h: "packets c (ds @ qs)" "a0 = data_of (ds @ qs) @ rest"
    "can_send S \<longrightarrow> length (wire_of qs) \<le> n \<and> rest = plain_in S"
    "tun_in D @ drop up (tun_out S) = take n (wire_of qs)" "plain_out D = o0 @ data_of ds"
    "plain_out D = o0 @ take j a0" "up \<le> length (tun_out S)"
    using assms(1) live_D by (elim half_okE) blast
  have "half_ok c a0 o0 S ?D up \<and> (frame_available (tun_in D) \<longrightarrow> ep_phase ?D = Running)"
  proof (cases "frame_available (tun_in D)")
    case True
    from h(1) have "packets c qs" by simp
    then obtain w b qs' x where q: "qs = (w, b) # qs'" "packet c w b" "tun_in D = w @ x"
      "x @ drop up (tun_out S) = take (n - length w) (wire_of qs')"
      using first_packet [OF _ h(4) True] by metis
    note turn = recv_turn_packet [OF q(3,2) assms(3)]
    have "half_ok c a0 o0 S ?D up"
    proof (rule half_okI)
      show "packets c ((ds @ [(w, b)]) @ qs')" using h(1) q(1) by simp
      show "a0 = data_of ((ds @ [(w, b)]) @ qs') @ rest" using h(2) q(1) by simp
      show "length (wire_of qs') \<le> n - length w \<and> rest = plain_in S" if "can_send S"
        using h(3) that q(1) by auto
      show "tun_in ?D @ drop up (tun_out S) = take (n - length w) (wire_of qs') \<and>
          plain_out ?D = o0 @ data_of (ds @ [(w, b)])"
        using turn(2,3) q(4) h(5) by simp
      show "plain_out ?D = o0 @ take (length (data_of (ds @ [(w, b)]))) a0"
        using turn(3) h(2,5) q(1) by simp
      show "up \<le> length (tun_out S)" by (rule h(7))
    qed
    with turn(1) show ?thesis by simp
  next
    case False
    from recv_turn_starved [OF this, of c] obtain e where
      "ep_phase ?D = Ended Receiving e" "c_out (ep_plain ?D) = c_out (ep_plain D)" by blast
    then have "half_ok c a0 o0 S ?D up"
      by (intro half_ok_cong [OF assms(1)]) (simp_all add: can_recv_def)
    with False show ?thesis by simp
  qed
  then show "half_ok c a0 o0 S ?D up" and "frame_available (tun_in D) \<Longrightarrow> ep_phase ?D = Running" by simp_all
qed

lemma half_ok_recv_cut:
  assumes "half_ok c a0 o0 S D up" and "can_recv D"
  shows "half_ok c a0 o0 S ((recv_cut k (server_upload_step c) D)\<lparr>ep_phase := Closed d e\<rparr>) up"
proof -
  let ?D = "(recv_cut k (server_upload_step c) D)\<lparr>ep_phase := Closed d e\<rparr>"
  obtain ds qs n rest j where h: "packets c (ds @ qs)" "a0 = data_of (ds @ qs) @ rest"
    "can_send S \<longrightarrow> length (wire_of qs) \<le> n \<and> rest = plain_in S"
    "tun_in D @ drop up (tun_out S) = take n (wire_of qs)" "plain_out D = o0 @ data_of ds"
    "up \<le> length (tun_out S)"
    using assms by (elim half_okE) blast
  from h(1) have "packets c qs" by simp
  from recv_cut_result [OF h(4) this, of k] obtain i where
    "plain_out ?D = plain_out D @ take i (data_of qs)" by auto
  then have o: "plain_out ?D = o0 @ take (length (data_of ds) + min i (length (data_of qs))) a0"
    using h(2,5) by (cases "i \<le> length (data_of qs)") simp_all
  show ?thesis
    by (rule half_okI [OF h(1,2) _ _ o h(6), where m = n]) (use h(3) in \<open>simp_all add: can_recv_def\<close>)
qed

text \<open>Bytes arrive at \<open>D\<close>.\<close>

lemma tun_in_arrive [simp]: "tun_in (arrive bs s) = tun_in s @ bs"
  and arrive_frame [simp]: "ep_phase (arrive bs s) = ep_phase s" "ep_plain (arrive bs s) = ep_plain s"
  "c_out (ep_tunnel (arrive bs s)) = c_out (ep_tunnel s)"
  and break_frame [simp]: "ep_phase (break_in e s) = ep_phase s" "ep_plain (break_in e s) = ep_plain s"
  "c_out (ep_tunnel (break_in e s)) = c_out (ep_tunnel s)" "tun_in (break_in e s) = tun_in s"
  by (simp_all add: arrive_def break_in_def src_data_def)

lemma half_ok_arrive:
  assumes "half_ok c a0 o0 S D up" and "drop up (tun_out S) = bs @ rest"
  shows "half_ok c a0 o0 S (arrive bs D) (up + length bs)"
  using assms(1)
proof (rule half_okE)
  fix ds qs n r j
  assume h: "packets c (ds @ qs)" "a0 = data_of (ds @ qs) @ r"
    "can_send S \<longrightarrow> length (wire_of qs) \<le> n \<and> r = plain_in S"
    "can_recv D \<longrightarrow> tun_in D @ drop up (tun_out S) = take n (wire_of qs) \<and> plain_out D = o0 @ data_of ds"
    "plain_out D = o0 @ take j a0" "up \<le> length (tun_out S)"
  have "drop (up + length bs) (tun_out S) = rest"
    using assms(2) by (metis append_eq_conv_conj drop_drop add.commute)
  moreover have "up + length bs \<le> length (tun_out S)"
    using arg_cong [OF assms(2), of length] h(6) by simp
  moreover have "tun_in (arrive bs D) @ rest = take n (wire_of qs) \<and> plain_out (arrive bs D) = o0 @ data_of ds"
    if "can_recv (arrive bs D)"
    using h(4) that assms(2) by (auto simp: can_recv_def)
  ultimately show ?thesis
    using h(3,5) by (intro half_okI [OF h(1,2), where m = n and j = j]) simp_all
qed

subsection \<open>Both directions\<close>

text \<open>What holds of each end: its writers take everything, and its receiving loop has ended for no other
  reason than that its stream had ended.\<close>

definition end_ok :: "'r endpoint \<Rightarrow> bool" where
  "end_ok s \<longleftrightarrow> wr_limit (c_out (ep_tunnel s)) = None \<and> wr_limit (c_out (ep_plain s)) = None \<and>
     (\<forall>e. ep_phase s = Ended Receiving e \<or> ep_phase s = Closed Receiving e \<longrightarrow> end_of_input e)"

definition pair_ok ::
  "GhostCipher \<Rightarrow> bytes \<Rightarrow> bytes \<Rightarrow> bytes \<Rightarrow> bytes \<Rightarrow> 'a endpoint \<Rightarrow> 'b endpoint \<Rightarrow> nat \<Rightarrow> nat \<Rightarrow> bool" where
  "pair_ok c a0 o0 b0 p0 S D up down \<longleftrightarrow>
     half_ok c a0 o0 S D up \<and> half_ok c b0 p0 D S down \<and> end_ok S \<and> end_ok D"

lemma pair_ok_sym: "pair_ok c a0 o0 b0 p0 S D up down \<longleftrightarrow> pair_ok c b0 p0 a0 o0 D S down up"
  by (auto simp: pair_ok_def)

lemma pair_ok_start:
  "end_start S \<Longrightarrow> end_start D \<Longrightarrow> pair_ok c (plain_in S) (plain_out D) (plain_in D) (plain_out S) S D
     (length (tun_out S)) (length (tun_out D))"
  by (simp add: pair_ok_def half_ok_start) (simp add: end_ok_def end_start_def)

lemma pair_ok_recv:
  assumes "pair_ok c a0 o0 b0 p0 S D up down" and "ep_phase S = Running"
  shows "pair_ok c a0 o0 b0 p0 (recv_turn (server_upload_step c) S) D up down"
proof -
  let ?S = "recv_turn (server_upload_step c) S"
  have h: "half_ok c a0 o0 S D up" "half_ok c b0 p0 D S down" "end_ok S" "end_ok D"
    using assms(1) by (simp_all add: pair_ok_def)
  have lim: "wr_limit (c_out (ep_plain S)) = None" using h(3) by (simp add: end_ok_def)
  have "half_ok c a0 o0 ?S D up"
    by (rule half_ok_cong [OF h(1)]) (simp_all add: can_send_def assms(2))
  moreover have "end_ok ?S"
  proof (cases "frame_available (tun_in S)")
    case True
    obtain ds qs n where "packets c (ds @ qs)" "tun_in S @ drop down (tun_out D) = take n (wire_of qs)"
      using h(2) assms(2) by (elim half_okE) (auto simp: can_recv_def)
    then obtain w b qs' x where q: "packet c w b" "tun_in S = w @ x"
      using first_packet [OF _ _ True, of c qs] by (metis packet_list_simps(3))
    from recv_turn_packet [OF q(2,1) lim] h(3) show ?thesis by (simp add: end_ok_def)
  next
    case False
    from recv_turn_starved [OF False, of c] h(3) show ?thesis by (auto simp: end_ok_def)
  qed
  ultimately show ?thesis
    using half_ok_recv(1) [OF h(2) assms(2) lim] h(4) by (simp add: pair_ok_def)
qed

text \<open>The parameters of a sending loop.\<close>

definition loop_params :: "'r rng \<Rightarrow> GhostCipher \<Rightarrow> bytes \<Rightarrow> bool" where
  "loop_params R c uid \<longleftrightarrow> rng_ok R \<and> cipher_ok c \<and> length uid = USER_ID_LEN"

lemma pair_ok_send:
  assumes "pair_ok c a0 o0 b0 p0 S D up down" and "ep_phase S = Running" and "loop_params R c uid"
  shows "pair_ok c a0 o0 b0 p0 (send_turn (send_step R padding m uid c) S) D up down"
proof -
  let ?S = "send_turn (send_step R padding m uid c) S"
  have h: "half_ok c a0 o0 S D up" "half_ok c b0 p0 D S down" "end_ok S" "end_ok D"
    using assms(1) by (simp_all add: pair_ok_def)
  have lim: "wr_limit (c_out (ep_tunnel S)) = None" using h(3) by (simp add: end_ok_def)
  have par: "rng_ok R" "cipher_ok c" "length uid = USER_ID_LEN"
    using assms(3) by (simp_all add: loop_params_def)
  have "half_ok c b0 p0 D ?S down"
    by (rule half_ok_cong [OF h(2)]) (simp_all add: can_recv_def assms(2))
  moreover have "end_ok ?S"
    using h(3) by (cases rule: send_turn_cases [OF par lim, where padding = padding and m = m])
      (simp_all add: end_ok_def)
  ultimately show ?thesis
    using half_ok_send [OF h(1) assms(2) lim par] h(4) by (simp add: pair_ok_def)
qed

lemma pair_ok_close:
  assumes "pair_ok c a0 o0 b0 p0 S D up down" and "ep_phase S = Ended d e" and "loop_params R c uid"
    and "endpoint_step (server_upload_step c) (send_step R padding m uid c) S T"
  shows "pair_ok c a0 o0 b0 p0 T D up down"
proof -
  have h: "half_ok c a0 o0 S D up" "half_ok c b0 p0 D S down" "end_ok S" "end_ok D"
    using assms(1) by (simp_all add: pair_ok_def)
  have par: "rng_ok R" "cipher_ok c" "length uid = USER_ID_LEN"
    using assms(3) by (simp_all add: loop_params_def)
  have open_S: "can_send S" using assms(2) by (simp add: can_send_def)
  from assms(4) show ?thesis
  proof cases
    case (drop_send e k)
    have "half_ok c b0 p0 D T down"
      by (rule half_ok_cong [OF h(2)]) (simp_all add: can_recv_def drop_send)
    with drop_send half_ok_send_cut [OF h(1) open_S par] h(3,4) show ?thesis
      by (simp add: pair_ok_def end_ok_def)
  next
    case (drop_recv e k)
    have "half_ok c a0 o0 T D up"
      by (rule half_ok_cong [OF h(1)]) (simp_all add: can_send_def drop_recv)
    moreover have "can_recv S" using drop_recv by (simp add: can_recv_def)
    ultimately show ?thesis
      using drop_recv half_ok_recv_cut [OF h(2)] h(3,4) by (simp add: pair_ok_def end_ok_def)
  qed (use assms(2) in simp_all)
qed

lemma pair_ok_arrive:
  assumes "pair_ok c a0 o0 b0 p0 S D up down" and "drop up (tun_out S) = bs @ rest"
  shows "pair_ok c a0 o0 b0 p0 S (arrive bs D) (up + length bs) down"
proof -
  have h: "half_ok c a0 o0 S D up" "half_ok c b0 p0 D S down" "end_ok S" "end_ok D"
    using assms(1) by (simp_all add: pair_ok_def)
  have "half_ok c b0 p0 (arrive bs D) S down"
    by (rule half_ok_cong [OF h(2)]) (simp_all add: can_send_def)
  with half_ok_arrive [OF h(1) assms(2)] h(3,4) show ?thesis by (simp add: pair_ok_def end_ok_def)
qed

lemma pair_ok_break:
  assumes "pair_ok c a0 o0 b0 p0 S D up down"
  shows "pair_ok c a0 o0 b0 p0 S (break_in e D) up down"
proof -
  have h: "half_ok c a0 o0 S D up" "half_ok c b0 p0 D S down" "end_ok S" "end_ok D"
    using assms(1) by (simp_all add: pair_ok_def)
  have "half_ok c b0 p0 (break_in e D) S down" and "half_ok c a0 o0 S (break_in e D) up"
    by (rule half_ok_cong [OF h(2)] half_ok_cong [OF h(1)]; simp add: can_send_def can_recv_def)+
  with h(3,4) show ?thesis by (simp add: pair_ok_def end_ok_def)
qed

lemma net_step_ok:
  assumes "net_step (server_upload_step c) (send_step R pad m uid c)
      (server_upload_step c) (send_step R' pad' m' uid c) n k"
    and "loop_params R c uid" and "loop_params R' c uid"
    and "pair_ok c a0 o0 b0 p0 (tn_client n) (tn_server n) (tn_up n) (tn_down n)"
  shows "pair_ok c a0 o0 b0 p0 (tn_client k) (tn_server k) (tn_up k) (tn_down k)"
proof -
  note flip = assms(4) [unfolded pair_ok_sym [of c a0]]
  show ?thesis
    using assms(1)
  proof cases
    case client_recv
    then show ?thesis using pair_ok_recv [OF assms(4)] by simp
  next
    case client_send
    then show ?thesis using pair_ok_send [OF assms(4) _ assms(2)] by simp
  next
    case (client_close d e s)
    then show ?thesis using pair_ok_close [OF assms(4) _ assms(2)] by simp
  next
    case server_recv
    then show ?thesis using pair_ok_recv [OF flip] by (simp add: pair_ok_sym [of c a0])
  next
    case server_send
    then show ?thesis using pair_ok_send [OF flip _ assms(3)] by (simp add: pair_ok_sym [of c a0])
  next
    case (server_close d e t)
    then show ?thesis using pair_ok_close [OF flip _ assms(3)] by (simp add: pair_ok_sym [of c a0])
  next
    case (up_arrives bs rest)
    then show ?thesis using pair_ok_arrive [OF assms(4)] by simp
  next
    case (down_arrives bs rest)
    then show ?thesis using pair_ok_arrive [OF flip] by (simp add: pair_ok_sym [of c a0])
  next
    case (up_breaks err)
    then show ?thesis using pair_ok_break [OF assms(4)] by simp
  next
    case (down_breaks err)
    then show ?thesis using pair_ok_break [OF flip] by (simp add: pair_ok_sym [of c a0])
  qed (use assms(4) in simp_all)
qed

lemma net_reach_ok:
  assumes "net_reach (server_upload_step c) (send_step R pad m uid c)
      (server_upload_step c) (send_step R' pad' m' uid c) n k"
    and "loop_params R c uid" and "loop_params R' c uid"
    and "pair_ok c a0 o0 b0 p0 (tn_client n) (tn_server n) (tn_up n) (tn_down n)"
  shows "pair_ok c a0 o0 b0 p0 (tn_client k) (tn_server k) (tn_up k) (tn_down k)"
  using assms(1)
proof (induction rule: net_reach.induct)
  case net_here
  then show ?case by (rule assms(4))
next
  case (net_more m k)
  then show ?case using net_step_ok [OF _ assms(2,3)] by blast
qed

lemma net_start_ok:
  "net_start n \<Longrightarrow> pair_ok c (plain_in (tn_client n)) (plain_out (tn_server n)) (plain_in (tn_server n))
     (plain_out (tn_client n)) (tn_client n) (tn_server n) (tn_up n) (tn_down n)"
  using pair_ok_start by (auto simp: net_start_def)

subsection \<open>What holds in every state of a tunnel\<close>

text \<open>The four loops of a tunnel with the parameters of both programs.\<close>

definition tunnel_reach ::
  "GhostCipher \<Rightarrow> bytes \<Rightarrow> 'a rng \<Rightarrow> ClientConfig \<Rightarrow> 'b rng \<Rightarrow> ServerConfig \<Rightarrow>
   ('a, 'b) tunnel_net \<Rightarrow> ('a, 'b) tunnel_net \<Rightarrow> bool" where
  "tunnel_reach c uid R config R' config' =
     net_reach (client_download_step c) (client_upload_step R config uid c)
       (server_upload_step c) (server_download_step R' config' uid c)"

lemma tunnel_reach_send:
  "tunnel_reach c uid R config R' config' =
     net_reach (server_upload_step c) (send_step R (cc_enable_padding config) (cc_max_padding_len config) uid c)
       (server_upload_step c) (send_step R' (sc_enable_padding config') (sc_max_padding_len config') uid c)"
  by (simp only: tunnel_reach_def client_download_is_server_upload client_upload_is_send server_download_is_send)

text \<open>C7: The whole tunnel, under every interleaving of its four loops, of the closing of either side, and of a network
  that delivers late and in any pieces or breaks: at every moment the target has received a prefix of what the
  application says, and the application a prefix of what the target says; and neither program ever
  sees a packet that it cannot decrypt or decode, but ends its receiving loop only when its stream has ended.\<close>

theorem tunnel_always_prefix:
  assumes "rng_ok R" and "rng_ok R'" and "cipher_ok c" and "length uid = USER_ID_LEN" and "net_start n"
    and "tunnel_reach c uid R config R' config' n k"
  shows "(\<exists>j. plain_out (tn_server k) = plain_out (tn_server n) @ take j (plain_in (tn_client n))) \<and>
    (\<exists>j. plain_out (tn_client k) = plain_out (tn_client n) @ take j (plain_in (tn_server n))) \<and>
    (\<forall>e. ep_phase (tn_client k) = Ended Receiving e \<or> ep_phase (tn_client k) = Closed Receiving e \<longrightarrow>
       e = EndOfStream \<or> (\<exists>f. e = ReadFailed f)) \<and>
    (\<forall>e. ep_phase (tn_server k) = Ended Receiving e \<or> ep_phase (tn_server k) = Closed Receiving e \<longrightarrow>
       e = EndOfStream \<or> (\<exists>f. e = ReadFailed f))"
proof -
  have "loop_params R c uid" and "loop_params R' c uid" using assms(1-4) by (simp_all add: loop_params_def)
  from net_reach_ok [OF assms(6) [unfolded tunnel_reach_send] this net_start_ok [OF assms(5)]] show ?thesis
    by (auto simp: pair_ok_def half_ok_def end_ok_def end_of_input_def)
qed

definition example_net :: "(nat, nat) tunnel_net" where
  "example_net =
     \<lparr>tn_client = \<lparr>ep_rng = 0, ep_tunnel = fresh_conn [], ep_plain = fresh_conn [[1, 2], [3]], ep_phase = Running\<rparr>,
      tn_server = \<lparr>ep_rng = 5, ep_tunnel = fresh_conn [], ep_plain = fresh_conn [[4], [5]], ep_phase = Running\<rparr>,
      tn_up = 0, tn_down = 0, tn_up_end = False, tn_down_end = False\<rparr>"

lemma example_net_start: "net_start example_net"
  by (simp add: net_start_def example_net_def end_start_def)

theorem tunnel_always_prefix_witness:
  "\<exists>k j. tunnel_reach example_cipher example_uid counter_rng ClientConfig_default counter_rng ServerConfig_default
       example_net k \<and> ep_phase (tn_client k) = Running \<and> plain_out (tn_server k) = take j [1, 2, 3]"
proof -
  let ?send = "client_upload_step counter_rng ClientConfig_default example_uid example_cipher"
  let ?k = "example_net\<lparr>tn_client := send_turn ?send (tn_client example_net)\<rparr>"
  have "ep_phase (tn_client example_net) = Running" by (simp add: example_net_def)
  then have r: "tunnel_reach example_cipher example_uid counter_rng ClientConfig_default counter_rng
      ServerConfig_default example_net ?k"
    unfolding tunnel_reach_def by (intro net_more [OF net_here] client_send)
  have lim: "wr_limit (c_out (ep_tunnel (tn_client example_net))) = None" by (simp add: example_net_def)
  have "ep_phase (tn_client ?k) = Running"
    unfolding client_upload_is_send
    by (cases rule: send_turn_cases [OF rng_ok_counter cipher_ok_example length_example_uid lim,
          where padding = "cc_enable_padding ClientConfig_default" and m = "cc_max_padding_len ClientConfig_default"])
      (simp_all add: example_net_def src_ok_def)
  with tunnel_always_prefix [OF rng_ok_counter rng_ok_counter cipher_ok_example length_example_uid
      example_net_start r] r show ?thesis
    by (intro exI [of _ ?k]) (simp add: example_net_def)
qed

end
