(* ===== verification/Tunnel_Live.thy ===== *)
theory Tunnel_Live
  imports Tunnel_Net
begin

section \<open>A tunnel can always deliver everything\<close>

text \<open>
  Safety alone would hold of a tunnel that never delivers. Here: as long as both ends run and the network has not
  ended either stream, everything that the two sides have to say can still be delivered, whatever
  has happened before.
\<close>

subsection \<open>The two sides are alike\<close>

definition swap_net :: "('a, 'b) tunnel_net \<Rightarrow> ('b, 'a) tunnel_net" where
  "swap_net n = \<lparr>tn_client = tn_server n, tn_server = tn_client n, tn_up = tn_down n, tn_down = tn_up n,
     tn_up_end = tn_down_end n, tn_down_end = tn_up_end n\<rparr>"

lemma swap_net_simps [simp]:
  "tn_client (swap_net n) = tn_server n" "tn_server (swap_net n) = tn_client n"
  "tn_up (swap_net n) = tn_down n" "tn_down (swap_net n) = tn_up n"
  "tn_up_end (swap_net n) = tn_down_end n" "tn_down_end (swap_net n) = tn_up_end n"
  "swap_net (swap_net n) = n"
  by (simp_all add: swap_net_def)

lemma swap_net_updates:
  "swap_net (n\<lparr>tn_client := s\<rparr>) = (swap_net n)\<lparr>tn_server := s\<rparr>"
  "swap_net (n\<lparr>tn_server := t\<rparr>) = (swap_net n)\<lparr>tn_client := t\<rparr>"
  "swap_net (n\<lparr>tn_up_end := b\<rparr>) = (swap_net n)\<lparr>tn_down_end := b\<rparr>"
  "swap_net (n\<lparr>tn_down_end := b\<rparr>) = (swap_net n)\<lparr>tn_up_end := b\<rparr>"
  "swap_net (n\<lparr>tn_server := t, tn_up := i\<rparr>) = (swap_net n)\<lparr>tn_client := t, tn_down := i\<rparr>"
  "swap_net (n\<lparr>tn_client := s, tn_down := i\<rparr>) = (swap_net n)\<lparr>tn_server := s, tn_up := i\<rparr>"
  "swap_net (n\<lparr>tn_server := t, tn_up_end := b\<rparr>) = (swap_net n)\<lparr>tn_client := t, tn_down_end := b\<rparr>"
  "swap_net (n\<lparr>tn_client := s, tn_down_end := b\<rparr>) = (swap_net n)\<lparr>tn_server := s, tn_up_end := b\<rparr>"
  by (simp_all add: swap_net_def)

text \<open>The rules, read at a swapped state.\<close>

lemmas swapped_rules =
  client_recv [of "swap_net n" for n, simplified] client_send [of "swap_net n" for n, simplified]
  client_close [of "swap_net n" for n, simplified]
  server_recv [of "swap_net n" for n, simplified] server_send [of "swap_net n" for n, simplified]
  server_close [of "swap_net n" for n, simplified]
  up_arrives [of "swap_net n" for n, simplified] up_ends [of "swap_net n" for n, simplified]
  up_breaks [of _ _ _ _ "swap_net n" for n, simplified]
  down_arrives [of "swap_net n" for n, simplified] down_ends [of "swap_net n" for n, simplified]
  down_breaks [of _ _ _ _ "swap_net n" for n, simplified]

lemma net_step_swap:
  assumes "net_step cr cs sr ss n m"
  shows "net_step sr ss cr cs (swap_net n) (swap_net m)"
  using assms by (induction rule: net_step.induct) (unfold swap_net_updates, (rule swapped_rules; assumption)+)

lemma net_reach_swap:
  assumes "net_reach cr cs sr ss n m"
  shows "net_reach sr ss cr cs (swap_net n) (swap_net m)"
  using assms by (induction rule: net_reach.induct) (auto intro: net_here net_more net_step_swap)

subsection \<open>Emptying one direction\<close>

text \<open>The client sends all that its plain side has.\<close>

lemma send_all:
  assumes "loop_params R c uid" and "ep_phase (tn_client n) = Running"
    and "wr_limit (c_out (ep_tunnel (tn_client n))) = None" and "src_ok (c_in (ep_plain (tn_client n)))"
  shows "\<exists>S. net_reach cr (send_step R padding m uid c) sr ss n (n\<lparr>tn_client := S\<rparr>) \<and>
     ep_phase S = Running \<and> plain_in S = [] \<and> c_out (ep_plain S) = c_out (ep_plain (tn_client n))"
  using assms(2-4)
proof (induction "length (plain_in (tn_client n))" arbitrary: n rule: less_induct)
  case less
  show ?case
  proof (cases "plain_in (tn_client n) = []")
    case True
    with less.prems show ?thesis
      by (intro exI [of _ "tn_client n"]) (simp add: net_here)
  next
    case False
    have par: "rng_ok R" "cipher_ok c" "length uid = USER_ID_LEN"
      using assms(1) by (simp_all add: loop_params_def)
    let ?S = "send_turn (send_step R padding m uid c) (tn_client n)"
    let ?n = "n\<lparr>tn_client := ?S\<rparr>"
    have step: "net_reach cr (send_step R padding m uid c) sr ss n ?n"
      by (rule net_more [OF net_here client_send]) (rule less.prems(1))
    show ?thesis
    proof (cases rule: send_turn_cases [OF par less.prems(2), where padding = padding and m = m])
      case (1 w b)
      with less.prems have "length (plain_in (tn_client ?n)) < length (plain_in (tn_client n))"
        and "ep_phase (tn_client ?n) = Running" and "wr_limit (c_out (ep_tunnel (tn_client ?n))) = None"
        and "src_ok (c_in (ep_plain (tn_client ?n)))" by auto
      from less.hyps [OF this] obtain S where
        "net_reach cr (send_step R padding m uid c) sr ss ?n (?n\<lparr>tn_client := S\<rparr>)"
        "ep_phase S = Running" "plain_in S = []" "c_out (ep_plain S) = c_out (ep_plain (tn_client n))"
        by auto
      then show ?thesis using net_reach_trans [OF _ step] by (intro exI [of _ S]) simp
    qed (use less.prems(3) False in simp)
  qed
qed

text \<open>All that is on the way arrives.\<close>

lemma arrive_all:
  assumes "\<not> tn_up_end n" and "tn_up n \<le> length (tun_out (tn_client n))"
  shows "\<exists>D. net_reach cr cs sr ss n (n\<lparr>tn_server := D, tn_up := length (tun_out (tn_client n))\<rparr>) \<and>
     ep_phase D = ep_phase (tn_server n) \<and> ep_plain D = ep_plain (tn_server n)"
proof (cases "drop (tn_up n) (tun_out (tn_client n)) = []")
  case True
  with assms(2) have "tn_up n = length (tun_out (tn_client n))" by simp
  then have "n\<lparr>tn_server := tn_server n, tn_up := length (tun_out (tn_client n))\<rparr> = n" by simp
  then show ?thesis by (intro exI [of _ "tn_server n"]) (simp only: net_here simp_thms)
next
  case False
  let ?bs = "drop (tn_up n) (tun_out (tn_client n))"
  have "net_step cr cs sr ss n (n\<lparr>tn_server := arrive ?bs (tn_server n), tn_up := tn_up n + length ?bs\<rparr>)"
    using False by (intro up_arrives [OF assms(1), of _ "[]"]) simp_all
  then show ?thesis
    using assms(2) by (intro exI [of _ "arrive ?bs (tn_server n)"]) (auto intro: net_more [OF net_here])
qed

text \<open>With nothing on the way, what has arrived is whole packets.\<close>

lemma arrived_is_whole:
  assumes "half_ok c a0 o0 S D up" and "can_send S" and "can_recv D" and "drop up (tun_out S) = []"
  obtains ds qs where "packets c (ds @ qs)" and "a0 = data_of (ds @ qs) @ plain_in S" and "tun_in D = wire_of qs"
    and "plain_out D = o0 @ data_of ds"
  using assms by (elim half_okE) simp

lemma packet_nonempty: "packet c w b \<Longrightarrow> 2 \<le> length w"
  by (auto simp: packet_def)

lemma whole_available:
  assumes "packets c qs" and "qs \<noteq> []"
  shows "frame_available (wire_of qs)"
proof (cases qs)
  case (Cons p ps)
  with assms(1) have "packet c (fst p) (snd p)" by simp
  then obtain d where d: "fst p = be16 (of_nat (length d)) @ d" "length d < 65536" by (rule packet_head)
  with Cons show ?thesis by (simp add: frame_available_def)
qed (use assms(2) in simp)

lemma recv_all:
  assumes "pair_ok c a0 o0 b0 p0 (tn_client n) (tn_server n) (tn_up n) (tn_down n)"
    and "can_send (tn_client n)" and "ep_phase (tn_server n) = Running"
    and "drop (tn_up n) (tun_out (tn_client n)) = []"
  shows "\<exists>D. net_reach cr cs (server_upload_step c) ss n (n\<lparr>tn_server := D\<rparr>) \<and> ep_phase D = Running \<and>
     c_in (ep_plain D) = c_in (ep_plain (tn_server n)) \<and>
     o0 @ a0 = plain_out D @ plain_in (tn_client n)"
  using assms
proof (induction "length (tun_in (tn_server n))" arbitrary: n rule: less_induct)
  case less
  let ?C = "tn_client n" and ?D = "tn_server n"
  have h: "half_ok c a0 o0 ?C ?D (tn_up n)" and lim: "wr_limit (c_out (ep_plain ?D)) = None"
    using less.prems(1) by (simp_all add: pair_ok_def end_ok_def)
  have cr: "can_recv ?D" using less.prems(3) by (simp add: can_recv_def)
  obtain ds qs where w: "packets c (ds @ qs)" "a0 = data_of (ds @ qs) @ plain_in ?C" "tun_in ?D = wire_of qs"
    "plain_out ?D = o0 @ data_of ds"
    by (rule arrived_is_whole [OF h less.prems(2) cr less.prems(4)])
  show ?case
  proof (cases qs)
    case Nil
    with w less.prems(3) show ?thesis by (intro exI [of _ ?D]) (simp add: net_here)
  next
    case (Cons p ps)
    have p: "packet c (fst p) (snd p)" and av: "frame_available (tun_in ?D)"
      using w(1,3) whole_available [of c qs] Cons by simp_all
    let ?T = "recv_turn (server_upload_step c) ?D"
    let ?n = "n\<lparr>tn_server := ?T\<rparr>"
    have step: "net_reach cr cs (server_upload_step c) ss n ?n"
      by (rule net_more [OF net_here server_recv]) (simp_all add: less.prems(3) may_recv_def av)
    have "tun_in ?D = fst p @ wire_of ps" using w(3) Cons by simp
    note turn = recv_turn_packet [OF this p lim]
    have "pair_ok c a0 o0 b0 p0 (tn_client ?n) (tn_server ?n) (tn_up ?n) (tn_down ?n)"
      using pair_ok_recv [OF less.prems(1) [unfolded pair_ok_sym [of c a0]] less.prems(3)]
      by (simp add: pair_ok_sym [of c a0])
    moreover have "length (tun_in (tn_server ?n)) < length (tun_in ?D)"
      using turn(2) w(3) Cons packet_nonempty [OF p] by auto
    ultimately obtain D where
      "net_reach cr cs (server_upload_step c) ss ?n (?n\<lparr>tn_server := D\<rparr>)" "ep_phase D = Running"
      "c_in (ep_plain D) = c_in (ep_plain ?T)" "o0 @ a0 = plain_out D @ plain_in (tn_client ?n)"
      using less.hyps [of ?n] less.prems(2,4) turn(1) by auto
    then show ?thesis using net_reach_trans [OF _ step] by (intro exI [of _ D]) simp
  qed
qed

text \<open>So the client can say all it has, and the server can pass all of it on.\<close>

lemma pump_up:
  fixes R :: "'a rng" and R' :: "'b rng" and n :: "('a, 'b) tunnel_net" and c uid pad m pad' m'
  defines "reach \<equiv> net_reach (server_upload_step c) (send_step R pad m uid c) (server_upload_step c) (send_step R' pad' m' uid c)"
  assumes "loop_params R c uid" and "loop_params R' c uid"
    and ok: "pair_ok c a0 o0 b0 p0 (tn_client n) (tn_server n) (tn_up n) (tn_down n)"
    and run: "ep_phase (tn_client n) = Running" "ep_phase (tn_server n) = Running" "\<not> tn_up_end n"
    and src: "src_ok (c_in (ep_plain (tn_client n)))"
  obtains S D u where "reach n (n\<lparr>tn_client := S, tn_server := D, tn_up := u\<rparr>)"
    and "ep_phase S = Running" and "ep_phase D = Running" and "plain_in S = []"
    and "c_out (ep_plain S) = c_out (ep_plain (tn_client n))"
    and "c_in (ep_plain D) = c_in (ep_plain (tn_server n))" and "plain_out D = o0 @ a0"
proof -
  note keep = net_reach_ok [OF _ assms(2,3)]
  have "wr_limit (c_out (ep_tunnel (tn_client n))) = None" using ok by (simp add: pair_ok_def end_ok_def)
  from send_all [OF assms(2) run(1) this src] obtain S where
    S: "reach n (n\<lparr>tn_client := S\<rparr>)" "ep_phase S = Running" "plain_in S = []"
      "c_out (ep_plain S) = c_out (ep_plain (tn_client n))" unfolding reach_def by blast
  let ?n1 = "n\<lparr>tn_client := S\<rparr>"
  have ok1: "pair_ok c a0 o0 b0 p0 S (tn_server n) (tn_up n) (tn_down n)"
    using keep [OF S(1) [unfolded reach_def] ok] by simp
  then have "tn_up ?n1 \<le> length (tun_out (tn_client ?n1))" by (auto simp: pair_ok_def elim: half_okE)
  with arrive_all [of ?n1] run(3) obtain E where
    E: "reach ?n1 (?n1\<lparr>tn_server := E, tn_up := length (tun_out S)\<rparr>)" "ep_phase E = ep_phase (tn_server n)"
      "ep_plain E = ep_plain (tn_server n)" unfolding reach_def by fastforce
  let ?n2 = "?n1\<lparr>tn_server := E, tn_up := length (tun_out S)\<rparr>"
  have "pair_ok c a0 o0 b0 p0 (tn_client ?n2) (tn_server ?n2) (tn_up ?n2) (tn_down ?n2)"
    using keep [OF E(1) [unfolded reach_def]] ok1 by simp
  from recv_all [OF this, where cr = "server_upload_step c" and cs = "send_step R pad m uid c"
      and ss = "send_step R' pad' m' uid c"] obtain D where
    D: "reach ?n2 (?n2\<lparr>tn_server := D\<rparr>)" "ep_phase D = Running"
      "c_in (ep_plain D) = c_in (ep_plain E)" "o0 @ a0 = plain_out D @ plain_in S"
    using S(2) E(2) run(2) unfolding reach_def by (fastforce simp: can_send_def)
  have "reach n (?n2\<lparr>tn_server := D\<rparr>)"
    using S(1) E(1) D(1) unfolding reach_def by (meson net_reach_trans)
  moreover have "?n2\<lparr>tn_server := D\<rparr> = n\<lparr>tn_client := S, tn_server := D, tn_up := length (tun_out S)\<rparr>"
    by (cases n) simp
  ultimately have "reach n (n\<lparr>tn_client := S, tn_server := D, tn_up := length (tun_out S)\<rparr>)" by simp
  then show thesis by (rule that) (use S(2-4) D(2-4) E(3) in simp_all)
qed

text \<open>The plain side of a running client stays a stream without empty segments.\<close>

definition plain_ok :: "'r endpoint \<Rightarrow> bool" where
  "plain_ok s \<longleftrightarrow> (ep_phase s = Running \<longrightarrow> src_ok (c_in (ep_plain s)))"

lemma plain_ok_send:
  assumes "plain_ok s" and "ep_phase s = Running"
  shows "plain_ok (send_turn (send_step R padding m uid c) s)"
proof -
  obtain r q where q: "send_step R padding m uid c (send_pipe s) = (r, q)" by fastforce
  have "src_ok (p_src q)" if "r = Ok u" for u
    using q that assms read_some_Ok(3)
    by (auto simp: send_step_def bind_eq_Ok pipe_OkD Let_def plain_ok_def split: if_splits)
  with q show ?thesis
    by (cases r) (simp_all add: plain_ok_def send_turn_def phase_after_def)
qed

lemma plain_ok_step:
  assumes "net_step (server_upload_step c) (send_step R pad m uid c) (server_upload_step c) (send_step R' pad' m' uid c) n k"
    and "plain_ok (tn_client n) \<and> plain_ok (tn_server n)"
  shows "plain_ok (tn_client k) \<and> plain_ok (tn_server k)"
  using assms
proof cases
  case (client_close d e s)
  from client_close(3) client_close(2) have "ep_phase s \<noteq> Running" by cases simp_all
  with client_close assms(2) show ?thesis by (simp add: plain_ok_def)
next
  case (server_close d e t)
  from server_close(3) server_close(2) have "ep_phase t \<noteq> Running" by cases simp_all
  with server_close assms(2) show ?thesis by (simp add: plain_ok_def)
qed (simp_all add: plain_ok_send, simp_all add: plain_ok_def)

lemma plain_ok_reach:
  assumes "net_reach (server_upload_step c) (send_step R pad m uid c) (server_upload_step c) (send_step R' pad' m' uid c) n k"
    and "plain_ok (tn_client n) \<and> plain_ok (tn_server n)"
  shows "plain_ok (tn_client k) \<and> plain_ok (tn_server k)"
  using assms by (induction rule: net_reach.induct) (auto dest: plain_ok_step)

text \<open>From any state in which both programs run, both directions can be emptied, one after the other.\<close>

lemma all_can_be_delivered:
  assumes "loop_params R c uid" and "loop_params R' c uid" and "net_start n"
    and "src_ok (c_in (ep_plain (tn_client n)))" and "src_ok (c_in (ep_plain (tn_server n)))"
    and "tunnel_reach c uid R config R' config' n k"
    and "ep_phase (tn_client k) = Running" and "ep_phase (tn_server k) = Running"
    and "\<not> tn_up_end k" and "\<not> tn_down_end k"
  shows "\<exists>l. tunnel_reach c uid R config R' config' k l \<and>
     ep_phase (tn_client l) = Running \<and> ep_phase (tn_server l) = Running \<and>
     plain_out (tn_server l) = plain_out (tn_server n) @ plain_in (tn_client n) \<and>
     plain_out (tn_client l) = plain_out (tn_client n) @ plain_in (tn_server n)"
proof -
  let ?a = "plain_in (tn_client n)" and ?b = "plain_in (tn_server n)"
  let ?o = "plain_out (tn_server n)" and ?p = "plain_out (tn_client n)"
  note par = assms(1,2)
  note reach = assms(6) [unfolded tunnel_reach_send]
  note keep = net_reach_ok [OF _ par]
  have ok: "pair_ok c ?a ?o ?b ?p (tn_client k) (tn_server k) (tn_up k) (tn_down k)"
    by (rule keep [OF reach net_start_ok [OF assms(3)]])
  have src: "src_ok (c_in (ep_plain (tn_client k)))" "src_ok (c_in (ep_plain (tn_server k)))"
    using plain_ok_reach [OF reach] assms(4,5,7,8) by (simp_all add: plain_ok_def)
  obtain S D u where up: "tunnel_reach c uid R config R' config' k (k\<lparr>tn_client := S, tn_server := D, tn_up := u\<rparr>)"
    "ep_phase S = Running" "ep_phase D = Running" "c_in (ep_plain D) = c_in (ep_plain (tn_server k))"
    "plain_out D = ?o @ ?a"
    unfolding tunnel_reach_send by (rule pump_up [OF par ok assms(7,8,9) src(1)])
  let ?k = "k\<lparr>tn_client := S, tn_server := D, tn_up := u\<rparr>"
  have "pair_ok c ?a ?o ?b ?p S D u (tn_down k)"
    using keep [OF up(1) [unfolded tunnel_reach_send] ok] by simp
  then have ok': "pair_ok c ?b ?p ?a ?o (tn_client (swap_net ?k)) (tn_server (swap_net ?k))
      (tn_up (swap_net ?k)) (tn_down (swap_net ?k))" by (simp add: pair_ok_sym [of c ?b])
  obtain S' D' d where down: "net_reach (server_upload_step c)
        (send_step R' (sc_enable_padding config') (sc_max_padding_len config') uid c) (server_upload_step c)
        (send_step R (cc_enable_padding config) (cc_max_padding_len config) uid c)
        (swap_net ?k) ((swap_net ?k)\<lparr>tn_client := S', tn_server := D', tn_up := d\<rparr>)"
      "ep_phase S' = Running" "ep_phase D' = Running" "c_out (ep_plain S') = c_out (ep_plain D)"
      "plain_out D' = ?p @ ?b"
    by (rule pump_up [OF par(2,1) ok', where pad = "sc_enable_padding config'" and m = "sc_max_padding_len config'"
          and pad' = "cc_enable_padding config" and m' = "cc_max_padding_len config"])
      (use up(2-4) src(2) assms(10) in simp_all)
  let ?l = "swap_net ((swap_net ?k)\<lparr>tn_client := S', tn_server := D', tn_up := d\<rparr>)"
  have "tunnel_reach c uid R config R' config' ?k ?l"
    using net_reach_swap [OF down(1)] by (simp add: tunnel_reach_send)
  with up(1) have "tunnel_reach c uid R config R' config' k ?l"
    unfolding tunnel_reach_send by (blast intro: net_reach_trans)
  then show ?thesis using down(2-5) up(5) by (intro exI [of _ ?l]) simp
qed

text \<open>C3: A tunnel can always deliver everything: from any state that it can be in while both programs run and the
  network has ended neither stream, it can go on, both programs still running, until the target has received
  all that the application had to say from the start, and the application all that the target had.\<close>

theorem tunnel_can_deliver_all:
  assumes "rng_ok R" and "rng_ok R'" and "cipher_ok c" and "length uid = USER_ID_LEN" and "net_start n"
    and "src_ok (c_in (ep_plain (tn_client n)))" and "src_ok (c_in (ep_plain (tn_server n)))"
    and "tunnel_reach c uid R config R' config' n k"
    and "ep_phase (tn_client k) = Running" and "ep_phase (tn_server k) = Running"
    and "\<not> tn_up_end k" and "\<not> tn_down_end k"
  shows "\<exists>l. tunnel_reach c uid R config R' config' k l \<and>
     ep_phase (tn_client l) = Running \<and> ep_phase (tn_server l) = Running \<and>
     plain_out (tn_server l) = plain_out (tn_server n) @ plain_in (tn_client n) \<and>
     plain_out (tn_client l) = plain_out (tn_client n) @ plain_in (tn_server n)"
proof -
  have "loop_params R c uid" and "loop_params R' c uid" using assms(1-4) by (simp_all add: loop_params_def)
  from all_can_be_delivered [OF this assms(5-12)] show ?thesis .
qed

theorem tunnel_can_deliver_all_witness:
  "\<exists>l. tunnel_reach example_cipher example_uid counter_rng ClientConfig_default counter_rng ServerConfig_default
       example_net l \<and> plain_out (tn_server l) = [1, 2, 3] \<and> plain_out (tn_client l) = [4, 5]"
proof -
  have r: "tunnel_reach example_cipher example_uid counter_rng ClientConfig_default counter_rng
      ServerConfig_default example_net example_net"
    by (simp add: tunnel_reach_def net_here)
  have s: "src_ok (c_in (ep_plain (tn_client example_net)))" "src_ok (c_in (ep_plain (tn_server example_net)))"
    "ep_phase (tn_client example_net) = Running" "ep_phase (tn_server example_net) = Running"
    "\<not> tn_up_end example_net" "\<not> tn_down_end example_net"
    by (simp_all add: example_net_def src_ok_def)
  from tunnel_can_deliver_all [OF rng_ok_counter rng_ok_counter cipher_ok_example length_example_uid
      example_net_start s(1,2) r s(3-6)]
  show ?thesis by (auto simp: example_net_def)
qed

end
