(* ===== verification/Server.thy ===== *)
theory Server
  imports Session Reality
begin

section \<open>The server\<close>

text \<open>
  ghost-server: the state shared by the connections, the handshake of
  \<^verbatim>\<open>handle_connection\<close> (user id, authorisation, init frame, connection to the target), the
  session after it, the Reality front, and the accept loops. DNS and TCP are parameters: the
  record \<open>server_env\<close> holds the name resolver and the connector next to the generator and
  the cryptographic libraries.
\<close>

record ServerState =
  ss_allowed_users :: "bytes set"
  ss_config :: ServerConfig

datatype ServerError =
    Unauthorized bytes
  | ServerCrypto CryptoError
  | ServerProtocol ProtocolError
  | ServerIo io_error
  | InitFrameTooLarge nat
  | NoTarget
  | DnsFailed bytes io_error
  | NoAddresses bytes
  | ConnectFailed TargetAddr io_error

record 'r server_env =
  env_rng :: "'r rng"
  env_aead :: aead
  env_hkdf :: hkdf
  env_lookup_host :: "bytes \<Rightarrow> (io_error, SocketAddr list) res"
  env_connect :: "SocketAddr \<Rightarrow> (io_error, conn) res"

definition default_secret :: bytes where
  "default_secret = lit ''ghost_default_key!''"

definition server_state :: "ServerConfig \<Rightarrow> ServerState" where
  "server_state config = \<lparr>ss_allowed_users = set (sc_allowed_users config), ss_config = config\<rparr>"

fun resolve_target :: "'r server_env \<Rightarrow> TargetAddr \<Rightarrow> (ServerError, SocketAddr) res" where
  "resolve_target env TargetNone = Err NoTarget"
| "resolve_target env (IpV4 a) = Ok (V4 a)"
| "resolve_target env (IpV6 a) = Ok (V6 a)"
| "resolve_target env (Domain domain port) =
     (let addr = domain @ [58] @ dec_digits (unat port) in
      bind_res (map_err (DnsFailed addr) (env_lookup_host env addr)) (\<lambda>addrs.
      case addrs of [] \<Rightarrow> Err (NoAddresses addr) | a # _ \<Rightarrow> Ok a))"

text \<open>
  The first part of \<^verbatim>\<open>handle_connection\<close>: up to the connection to the target, which has been
  sent the payload of the init frame.
\<close>

definition handle_connection_init ::
  "'r server_env \<Rightarrow> ServerState \<Rightarrow> (conn, ServerError, bytes \<times> bytes \<times> conn) stm" where
  "handle_connection_init env state =
     bind (with_err ServerIo (on_in (read_exact USER_ID_LEN))) (\<lambda>user_id.
     let user_id_hex = hex_encode user_id in
     if user_id_hex \<notin> ss_allowed_users state then throw (Unauthorized user_id_hex)
     else
       bind (lift_res (derive_key (env_hkdf env) user_id default_secret)) (\<lambda>key.
       bind (with_err ServerCrypto (lift_res (GhostCipher_new (env_aead env) key))) (\<lambda>cipher.
       bind (with_err ServerIo (on_in (read_exact 2))) (\<lambda>len_buf.
       let frame_len = unat (of_be16 len_buf) in
       if frame_len > ENC_BUF_LEN then throw (InitFrameTooLarge frame_len)
       else
         bind (with_err ServerIo (on_in (read_exact frame_len))) (\<lambda>encrypted_data.
         bind (with_err ServerCrypto (lift_res (GhostCipher_decrypt cipher encrypted_data))) (\<lambda>plaintext.
         bind (with_err ServerProtocol (lift_res (GhostFrame_decode plaintext))) (\<lambda>frame.
         bind (lift_res (resolve_target env (gf_target frame))) (\<lambda>target_addr.
         bind (lift_res (map_err (ConnectFailed (gf_target frame)) (env_connect env target_addr))) (\<lambda>remote_stream.
         if gf_payload frame = [] then ret (user_id, key, remote_stream)
         else
           (case on_out (write_all (gf_payload frame)) remote_stream of
              (Ok _, remote') \<Rightarrow> ret (user_id, key, remote')
            | (Err e, _) \<Rightarrow> throw (ServerIo e)
            | (Panic, _) \<Rightarrow> panic))))))))))"

text \<open>The session that \<^verbatim>\<open>handle_connection\<close> then runs, with a fresh cipher per direction.\<close>

definition server_session_start :: "'r \<Rightarrow> conn \<Rightarrow> conn \<Rightarrow> 'r endpoint" where
  "server_session_start g client remote =
     \<lparr>ep_rng = g, ep_tunnel = client, ep_plain = remote, ep_phase = Running\<rparr>"

inductive handle_connection ::
  "'r server_env \<Rightarrow> ServerState \<Rightarrow> 'r \<Rightarrow> conn \<Rightarrow> (ServerError, unit) res \<Rightarrow> 'r endpoint option \<Rightarrow> bool"
  for env state g where
  init_fails: "handle_connection_init env state client = (Err e, client') \<Longrightarrow>
    handle_connection env state g client (Err e) None"
| init_panics: "handle_connection_init env state client = (Panic, client') \<Longrightarrow>
    handle_connection env state g client Panic None"
| cipher_fails: "handle_connection_init env state client = (Ok (user_id, key, remote), client') \<Longrightarrow>
    GhostCipher_new (env_aead env) key = Err e \<Longrightarrow>
    handle_connection env state g client (Err (ServerCrypto e)) None"
| handler_session: "handle_connection_init env state client = (Ok (user_id, key, remote), client') \<Longrightarrow>
    GhostCipher_new (env_aead env) key = Ok c \<Longrightarrow>
    endpoint_reach (server_upload_step c)
      (server_download_step (env_rng env) (ss_config state) user_id c)
      (server_session_start g client' remote) final \<Longrightarrow>
    ep_phase final = Closed d reason \<Longrightarrow>
    handle_connection env state g client (if reason = TaskPanic then Panic else Ok ()) (Some final)"

inductive_cases handle_connection_cases: "handle_connection env state g client r s"

subsection \<open>The Reality front\<close>

text \<open>
  The server's own scan (lib.rs): the same steps as that of the Reality library, written again, with the configured
  text in place of the key.
\<close>

definition detect_ghost_auth :: "bytes \<Rightarrow> bytes \<Rightarrow> ('e, bool) res" where
  "detect_ghost_auth data auth_key_hex =
     (let data_str = from_utf8_lossy data in
      case str_find (lit ''X-Ghost-Auth:'') data_str of
        Some pos \<Rightarrow>
          let token_start = pos + length (lit ''X-Ghost-Auth:'') in
          bind_res (str_slice token_start (length data_str) data_str) (\<lambda>remainder.
          let trimmed = trim_start remainder;
              token = take_while_chars (\<lambda>c. \<not> char_is_whitespace c \<and> c \<noteq> [13] \<and> c \<noteq> [10]) trimmed in
          if length token = 64 \<and> token = auth_key_hex then Ok True else Ok False)
      | None \<Rightarrow> Ok False)"

definition switching_protocols :: bytes where
  "switching_protocols =
     lit ''HTTP/1.1 101 Switching Protocols'' @ crlf @
     lit ''Upgrade: ghost-tunnel'' @ crlf @
     lit ''Connection: upgrade'' @ crlf @ crlf"

text \<open>
  What the task of one accepted TLS connection does before it hands over to the handler: it
  is over, or the stream goes on to \<^verbatim>\<open>handle_connection\<close>. A failed write of the mask is ignored.
\<close>

datatype front_end = FrontClosed | FrontMasked | FrontFailed io_error | ToHandler | FrontPanic

definition reality_front :: "ServerConfig \<Rightarrow> conn \<Rightarrow> front_end \<times> conn" where
  "reality_front config tls_stream =
     (case on_in (read_some 4096) tls_stream of
        (Err e, s) \<Rightarrow> (FrontFailed e, s)
      | (Panic, s) \<Rightarrow> (FrontPanic, s)
      | (Ok buf, s) \<Rightarrow>
          if buf = [] then (FrontClosed, s)
          else
            (case (detect_ghost_auth buf (sc_reality_auth_key config) :: (unit, bool) res) of
               Ok is_ghost \<Rightarrow>
                 if is_ghost then
                   (case on_out (write_all switching_protocols) s of
                      (Ok _, s') \<Rightarrow> (ToHandler, s')
                    | (Err e, s') \<Rightarrow> (FrontFailed e, s')
                    | (Panic, s') \<Rightarrow> (FrontPanic, s'))
                 else (FrontMasked, snd (on_out (write_all (mask_redirect (sc_mask_domain config))) s))
             | _ \<Rightarrow> (FrontPanic, s)))"

subsection \<open>The two detectors\<close>

lemma detect_ghost_auth_scan:
  "(detect_ghost_auth data auth_key_hex :: ('e, bool) res) =
     Ok (length auth_key_hex = 64 \<and> scan_text (from_utf8_lossy data) = Some auth_key_hex)"
proof (cases "str_find auth_marker (from_utf8_lossy data)")
  case None
  then show ?thesis
    by (simp add: detect_ghost_auth_def scan_text_def Let_def auth_marker_def [symmetric] del: lit_Cons)
next
  case (Some i)
  have "(detect_ghost_auth data auth_key_hex :: ('e, bool) res) =
      (let token = take_while_chars (\<lambda>c. \<not> char_is_whitespace c \<and> c \<noteq> [13] \<and> c \<noteq> [10])
         (trim_start (drop (i + length auth_marker) (from_utf8_lossy data))) in
       if length token = 64 \<and> token = auth_key_hex then Ok True else Ok False)"
    unfolding detect_ghost_auth_def Let_def auth_marker_def [symmetric] Some option.case auth_marker_slice [OF Some]
      bind_res.simps by simp
  with Some show ?thesis by (auto simp: scan_text_def Let_def)
qed

lemma detect_ghost_auth_presented:
  "utf8_valid auth_key_hex \<Longrightarrow>
   detect_ghost_auth data auth_key_hex =
     Ok (length auth_key_hex = 64 \<and> token_presented auth_key_hex (from_utf8_lossy data))"
  unfolding detect_ghost_auth_scan using scan_text_iff [of auth_key_hex "from_utf8_lossy data"]
  by (cases "auth_key_hex = []") auto

text \<open>C31: Both copies of the detector, the server's and the one of the Reality library, decide exactly whether the
  request presents the hex text of the key: on every sequence of bytes, for every 32-byte key, they answer without a
  panic, and yes if and only if after the first marker and any white space there stands this text, as a word.\<close>

theorem detect_ghost_auth_agrees:
  assumes "length key = 32"
  shows "detect_ghost_auth data (hex_encode key) = Ok (token_presented (hex_encode key) (from_utf8_lossy data)) \<and>
    RealityServer_detect_ghost_auth data key = Ok (token_presented (hex_encode key) (from_utf8_lossy data))"
proof -
  have "key \<noteq> []" using assms by auto
  then have tok: "utf8_valid (hex_encode key)" "hex_encode key \<noteq> []"
    using token_text_hex_encode [of key] by (auto simp: token_text_def is_ascii_utf8_valid)
  have l: "length (hex_encode key) = 64" using assms by simp
  show ?thesis
    using l
    by (auto simp: detect_ghost_auth_presented [OF tok(1)] RealityServer_detect_ghost_auth_def extract_auth_token_scan
        scan_text_iff [OF tok, symmetric] split: option.split)
qed

theorem detect_ghost_auth_agrees_witness:
  "(detect_ghost_auth (lit ''X-Ghost-Auth:'' @ [32] @ hex_encode (replicate 32 7) @ [13, 10]) (hex_encode (replicate 32 7))
      :: (unit, bool) res) = Ok True \<and>
   (RealityServer_detect_ghost_auth (lit ''X-Ghost-Auth:'' @ [32] @ hex_encode (replicate 32 7) @ [13, 10]) (replicate 32 7)
      :: (unit, bool) res) = Ok True"
proof -
  let ?t = "hex_encode (replicate 32 7)" and ?m = "lit ''X-Ghost-Auth:''"
  have tok: "token_text ?t" by (rule token_text_hex_encode) simp
  then have "one_word ?t" by (auto simp: one_word_def token_text_def utf8_chars_ascii)
  moreover have "starts_white [13, 10]"
    unfolding starts_white_def by (intro exI [of _ "[13]"] exI [of _ "[10]"]) (simp add: char_is_whitespace_def)
  moreover have "char_is_whitespace [32]" by (simp add: char_is_whitespace_def)
  ultimately have "token_presented ?t (?m @ [32] @ ?t @ [13, 10])"
    unfolding token_presented_def
    by (intro conjI exI [of _ "[]"] exI [of _ "[[32]]"] exI [of _ "[13, 10]"]) simp_all
  moreover have "from_utf8_lossy (?m @ [32] @ ?t @ [13, 10]) = ?m @ [32] @ ?t @ [13, 10]"
    using tok by (intro from_utf8_lossy_valid is_ascii_utf8_valid) (simp add: token_text_def)
  moreover have "length (replicate 32 (7 :: u8)) = 32" by simp
  ultimately show ?thesis using detect_ghost_auth_agrees by metis
qed

subsection \<open>The certificate of the Reality mode\<close>

datatype tls_setup_error =
    KeyGenerationFailed bytes
  | InvalidDomain bytes
  | CertificateGenerationFailed bytes
  | PrivateKeyError bytes
  | TlsConfigError bytes

definition build_reality_tls_config ::
  "('k, 'g) cert_lib \<Rightarrow> ServerConfig \<Rightarrow> ('g, tls_setup_error, tls_server_config) stm" where
  "build_reality_tls_config L config =
     bind (with_err KeyGenerationFailed (cl_generate L)) (\<lambda>key_pair.
     let params = CertificateParams_default\<lparr>cp_common_name := Some (sc_mask_domain config)\<rparr> in
     bind (with_err InvalidDomain (lift_res (cl_ia5 L (sc_mask_domain config)))) (\<lambda>dns_name.
     let params = params\<lparr>cp_subject_alt_names := cp_subject_alt_names params @ [dns_name]\<rparr> in
     bind (with_err CertificateGenerationFailed (lift_res (cl_self_signed L params key_pair))) (\<lambda>cert_der.
     let key_der = cl_serialize_der L key_pair; cert_chain = [cert_der] in
     bind (with_err PrivateKeyError (lift_res (cl_private_key L key_der))) (\<lambda>key_der.
     with_err TlsConfigError (lift_res (single_cert_config L cert_chain key_der))))))"

subsection \<open>The accept loops\<close>

text \<open>
  The task that is started for an accepted connection, with what it is given: the handler at once (plain mode), or the
  Reality front with the TLS configuration. A failed certificate or a failed bind ends the server before the loop.
\<close>

datatype spawned = HandlerTask ServerState conn | FrontTask tls_server_config ServerState conn

text \<open>
  What a task of the Reality mode does, when it is left to run, up to the handler: \<open>tls_accept\<close> is the TLS handshake
  (\<open>None\<close>: it failed, which is only logged).
\<close>

definition reality_task ::
  "(tls_server_config \<Rightarrow> conn \<Rightarrow> conn option) \<Rightarrow> tls_server_config \<Rightarrow> ServerState \<Rightarrow> conn \<Rightarrow> (front_end \<times> conn) option" where
  "reality_task tls_accept acceptor state stream =
     (case tls_accept acceptor stream of
        None \<Rightarrow> None
      | Some tls_stream \<Rightarrow> Some (reality_front (ss_config state) tls_stream))"

text \<open>
  The listeners: which tasks they have started, and how the loop has ended, if it has. When it ends the server is over,
  and the tasks that have not finished are cancelled; what a session has done when it is cut is in \<open>Session\<close>.
\<close>

datatype run_error = SetupFailed tls_setup_error | RunIo io_error

definition run_plain ::
  "(bytes \<Rightarrow> (io_error, unit) res) \<Rightarrow> ServerConfig \<Rightarrow> (io_error, conn) res list \<Rightarrow>
     spawned list \<times> (run_error, unit) res option" where
  "run_plain bind_to config accepts =
     (let state = server_state config in
      case bind_to (sc_listen_addr config) of
        Ok _ \<Rightarrow> (case accept_loop (HandlerTask state) accepts of
                  (tasks, stop) \<Rightarrow> (tasks, map_option (map_err RunIo) stop))
      | Err e \<Rightarrow> ([], Some (Err (RunIo e)))
      | Panic \<Rightarrow> ([], Some Panic))"

definition run_with_reality ::
  "('k, 'g) cert_lib \<Rightarrow> (bytes \<Rightarrow> (io_error, unit) res) \<Rightarrow>
     ServerConfig \<Rightarrow> (io_error, conn) res list \<Rightarrow> 'g \<Rightarrow> spawned list \<times> (run_error, unit) res option" where
  "run_with_reality L bind_to config accepts g =
     (let state = server_state config in
      case fst (build_reality_tls_config L config g) of
        Err e \<Rightarrow> ([], Some (Err (SetupFailed e)))
      | Panic \<Rightarrow> ([], Some Panic)
      | Ok tls_config \<Rightarrow>
          (case bind_to (sc_listen_addr config) of
             Ok _ \<Rightarrow> (case accept_loop (FrontTask tls_config state) accepts of
                       (tasks, stop) \<Rightarrow> (tasks, map_option (map_err RunIo) stop))
           | Err e \<Rightarrow> ([], Some (Err (RunIo e)))
           | Panic \<Rightarrow> ([], Some Panic)))"

definition server_run ::
  "('k, 'g) cert_lib \<Rightarrow> (bytes \<Rightarrow> (io_error, unit) res) \<Rightarrow>
     ServerConfig \<Rightarrow> (io_error, conn) res list \<Rightarrow> 'g \<Rightarrow> spawned list \<times> (run_error, unit) res option" where
  "server_run L bind_to config accepts g =
     (if sc_enable_reality config then run_with_reality L bind_to config accepts g
      else run_plain bind_to config accepts)"

text \<open>
  \<^verbatim>\<open>load_config\<close> of main.rs: the first argument or the default path; a file that is not
  there means the default configuration, one that cannot be read or parsed is an error.
\<close>

datatype config_error = ReadFailedAt bytes io_error | ParseFailedAt bytes

definition load_config ::
  "bytes list \<Rightarrow> (bytes \<Rightarrow> (io_error, bytes) res option) \<Rightarrow> (bytes \<Rightarrow> ServerConfig option) \<Rightarrow>
     (config_error, ServerConfig) res" where
  "load_config args file parse =
     (let config_path = (case args of _ # p # _ \<Rightarrow> p | _ \<Rightarrow> lit ''/etc/ghost/ghost-server.conf'') in
      case file config_path of
        None \<Rightarrow> Ok ServerConfig_default
      | Some r \<Rightarrow>
          bind_res (map_err (ReadFailedAt config_path) r) (\<lambda>content.
          case parse content of
            None \<Rightarrow> Err (ParseFailedAt config_path)
          | Some config \<Rightarrow> Ok config))"

text \<open>
  \<^verbatim>\<open>main\<close>: the configuration, then the server. Its return drops the runtime: no task goes on after it.
\<close>

datatype main_error = ConfigFailed config_error | RunFailed run_error

definition server_main ::
  "bytes list \<Rightarrow> (bytes \<Rightarrow> (io_error, bytes) res option) \<Rightarrow> (bytes \<Rightarrow> ServerConfig option) \<Rightarrow>
     (ServerConfig \<Rightarrow> spawned list \<times> (run_error, unit) res option) \<Rightarrow> spawned list \<times> (main_error, unit) res option" where
  "server_main args file parse run =
     (case load_config args file parse of
        Ok config \<Rightarrow> (case run config of (tasks, stop) \<Rightarrow> (tasks, map_option (map_err RunFailed) stop))
      | Err e \<Rightarrow> ([], Some (Err (ConfigFailed e)))
      | Panic \<Rightarrow> ([], Some Panic))"

subsection \<open>Authorisation\<close>

lemma on_in_OkD: "on_in m c = (Ok x, c') \<longleftrightarrow> (\<exists>s. m (c_in c) = (Ok x, s) \<and> c' = c\<lparr>c_in := s\<rparr>)"
  by (cases "m (c_in c)") (auto simp: on_in_def)

lemma on_out_OkD: "on_out m c = (Ok x, c') \<longleftrightarrow> (\<exists>w. m (c_out c) = (Ok x, w) \<and> c' = c\<lparr>c_out := w\<rparr>)"
  by (cases "m (c_out c)") (auto simp: on_out_def)

lemma init_unauthorized:
  assumes "read_exact USER_ID_LEN (c_in client) = (Ok uid, s)"
    and "hex_encode uid \<notin> ss_allowed_users state"
  shows "handle_connection_init env state client =
    (Err (Unauthorized (hex_encode uid)), client\<lparr>c_in := s\<rparr>)"
  using assms by (simp add: handle_connection_init_def bind_def with_err_def on_in_def)

text \<open>C5: An unauthorised client gets nothing: if the hex text of the first 16 bytes is not in the
  allowed set, the handler fails right there. No more than those bytes has been read, nothing
  is written to the client, and neither the resolver nor the connector plays any part.\<close>

theorem unauthorized_client_rejected:
  assumes "src_data (c_in client) = uid @ rest" and "length uid = USER_ID_LEN"
    and "hex_encode uid \<notin> ss_allowed_users state"
  shows "\<exists>client'. handle_connection_init env state client = (Err (Unauthorized (hex_encode uid)), client') \<and>
     src_data (c_in client') = rest \<and> c_out client' = c_out client \<and>
     (\<forall>env' :: 's server_env. handle_connection_init env' state client = handle_connection_init env state client)"
proof -
  obtain s where r: "read_exact USER_ID_LEN (c_in client) = (Ok uid, s)" and s: "src_data s = rest"
    by (rule read_exact_enough [OF assms(1,2)])
  show ?thesis
    using s by (intro exI [of _ "client\<lparr>c_in := s\<rparr>"]) (simp add: init_unauthorized [OF r assms(3)])
qed

lemma default_user_text:
  "lit ''00000000000000000000000000000001'' = hex_encode (replicate 15 0 @ [1])"
  by (simp add: hex_encode_def fmt_hex_def hex_digits.simps hex_digit_def) (simp add: numeral_eq_Suc)

definition example_env :: "nat server_env" where
  "example_env =
     \<lparr>env_rng = counter_rng, env_aead = plain_aead, env_hkdf = plain_hkdf,
      env_lookup_host = (\<lambda>_. Ok [V4 (socket_v4 0x5DB8D822 80)]),
      env_connect = (\<lambda>_. Ok (fresh_conn [[4], [5]]))\<rparr>"

theorem unauthorized_client_rejected_witness:
  "fst (handle_connection_init example_env (server_state ServerConfig_default) (fresh_conn [replicate 16 9]))
     = Err (Unauthorized (hex_encode (replicate 16 9)))"
proof -
  have "hex_encode (replicate 16 9) \<noteq> lit ''00000000000000000000000000000001''"
    unfolding default_user_text hex_encode_inject
    by (rule notI, drule arg_cong [where f = hd]) (simp add: hd_append)
  then have "hex_encode (replicate 16 9) \<notin> ss_allowed_users (server_state ServerConfig_default)"
    by (simp add: server_state_def ServerConfig_default_def)
  moreover have "src_data (c_in (fresh_conn [replicate 16 9])) = replicate 16 9 @ []"
    and "length (replicate 16 9 :: bytes) = USER_ID_LEN" by (simp_all add: USER_ID_LEN_def)
  ultimately obtain client' where
    "handle_connection_init example_env (server_state ServerConfig_default) (fresh_conn [replicate 16 9])
       = (Err (Unauthorized (hex_encode (replicate 16 9))), client')"
    using unauthorized_client_rejected by blast
  then show ?thesis by simp
qed

text \<open>C4: A session is opened only for an authorised user who proves the key. If the handshake
  succeeds, the client sent a user id whose hex text is allowed, then a length and a packet
  that was sealed under the key derived from that id; the packet's frame named the target, the
  name was resolved, and what the handler holds is the connection to it after the frame's
  payload was written.\<close>

theorem session_only_if_authenticated:
  assumes "aead_ok (env_aead env)" and "hkdf_ok (env_hkdf env)"
    and "handle_connection_init env state client = (Ok (uid, key, remote'), client')"
  shows "length uid = USER_ID_LEN \<and> hex_encode uid \<in> ss_allowed_users state \<and>
    (derive_key (env_hkdf env) uid default_secret :: (ServerError, bytes) res) = Ok key \<and>
    c_out client' = c_out client \<and>
    (\<exists>n ct pt frame addr remote.
       src_data (c_in client) = uid @ be16 (of_nat (length (n @ ct))) @ n @ ct @ src_data (c_in client') \<and>
       length n = NONCE_SIZE \<and> aead_seal (env_aead env) key n pt = Some ct \<and>
       GhostFrame_decode pt = Ok frame \<and>
       resolve_target env (gf_target frame) = Ok addr \<and> env_connect env addr = Ok remote \<and>
       wr_data (c_out remote') = wr_data (c_out remote) @ gf_payload frame)"
proof -
  obtain cipher s1 lb s2 enc s3 pt frame addr remote where
    u: "read_exact USER_ID_LEN (c_in client) = (Ok uid, s1)" "hex_encode uid \<in> ss_allowed_users state"
    and k: "(derive_key (env_hkdf env) uid default_secret :: (ServerError, bytes) res) = Ok key"
    and c: "GhostCipher_new (env_aead env) key = Ok cipher"
    and l: "read_exact 2 s1 = (Ok lb, s2)"
    and e: "read_exact (unat (of_be16 lb)) s2 = (Ok enc, s3)"
    and d: "GhostCipher_decrypt cipher enc = Ok pt" "GhostFrame_decode pt = Ok frame"
    and t: "resolve_target env (gf_target frame) = Ok addr" "env_connect env addr = Ok remote"
    and w: "gf_payload frame = [] \<and> remote' = remote \<or>
      (\<exists>z. on_out (write_all (gf_payload frame)) remote = (Ok z, remote'))"
    and c': "client' = client\<lparr>c_in := s3\<rparr>"
    using assms(3)
    by (auto simp: handle_connection_init_def bind_eq_Ok on_in_OkD Let_def guard_OkD
        split: if_split_asm prod.split_asm res.split_asm)
  have g: "cipher_ok cipher" and ck: "gc_aead cipher = env_aead env" "gc_key cipher = key"
    using GhostCipher_new_ok [OF c assms(1)] c by (auto simp: GhostCipher_new_def split: if_splits)
  from decrypt_sealed [OF g d(1)] ck obtain n ct where
    n: "enc = n @ ct" "length n = NONCE_SIZE" "aead_seal (env_aead env) key n pt = Some ct" by auto
  have "be16 (of_nat (length enc)) = lb"
    using read_exact_Ok(2) [OF e] read_exact_Ok(2) [OF l] by simp
  then have "src_data (c_in client) = uid @ be16 (of_nat (length (n @ ct))) @ n @ ct @ src_data s3"
    using read_exact_Ok(1) [OF u(1)] read_exact_Ok(1) [OF l] read_exact_Ok(1) [OF e] n(1) by simp
  moreover have "wr_data (c_out remote') = wr_data (c_out remote) @ gf_payload frame"
    using w write_all_Ok by (auto simp: on_out_OkD)
  ultimately show ?thesis
    using u(2) read_exact_Ok(2) [OF u(1)] k n d t c' by (intro conjI exI) auto
qed

text \<open>The other direction: a handshake of that form succeeds.\<close>

lemma init_accepts:
  assumes "src_data (c_in client) = uid @ be16 (of_nat (length enc)) @ enc @ rest"
    and "length uid = USER_ID_LEN" and "length enc < 65536"
    and "hex_encode uid \<in> ss_allowed_users state"
    and "(derive_key (env_hkdf env) uid default_secret :: (ServerError, bytes) res) = Ok key"
    and "GhostCipher_new (env_aead env) key = Ok cipher"
    and "GhostCipher_decrypt cipher enc = Ok pt" and "GhostFrame_decode pt = Ok frame"
    and "resolve_target env (gf_target frame) = Ok addr" and "env_connect env addr = Ok remote"
    and "wr_limit (c_out remote) = None"
  obtains client' where
    "handle_connection_init env state client =
       (Ok (uid, key, remote\<lparr>c_out := (c_out remote)\<lparr>wr_data := wr_data (c_out remote) @ gf_payload frame\<rparr>\<rparr>),
        client')"
    and "src_data (c_in client') = rest" and "src_fault (c_in client') = src_fault (c_in client)"
    and "c_out client' = c_out client"
proof -
  obtain s1 where s1: "read_exact USER_ID_LEN (c_in client) = (Ok uid, s1)"
    "src_data s1 = be16 (of_nat (length enc)) @ enc @ rest" "src_fault s1 = src_fault (c_in client)"
    using read_exact_enough [OF assms(1,2)] by metis
  obtain s2 where s2: "read_exact 2 s1 = (Ok (be16 (of_nat (length enc))), s2)"
    "src_data s2 = enc @ rest" "src_fault s2 = src_fault s1"
    using read_exact_enough [OF s1(2) length_be16] by metis
  obtain s3 where s3: "read_exact (length enc) s2 = (Ok enc, s3)"
    "src_data s3 = rest" "src_fault s3 = src_fault s2"
    using read_exact_enough [OF s2(2) refl] by metis
  have n: "unat (of_nat (length enc) :: u16) = length enc" using assms(3) by simp
  have "\<not> ENC_BUF_LEN < length enc" using assms(3) by (simp add: ENC_BUF_LEN_def)
  then have "handle_connection_init env state client =
      (Ok (uid, key, remote\<lparr>c_out := (c_out remote)\<lparr>wr_data := wr_data (c_out remote) @ gf_payload frame\<rparr>\<rparr>),
        client\<lparr>c_in := s3\<rparr>)"
    using s1(1) s2(1) s3(1) assms(4,6-11) n
    by (simp add: handle_connection_init_def bind_def with_err_def on_in_def on_out_def Let_def assms(5))
  then show thesis by (rule that) (use s3(2,3) s2(3) s1(3) in simp_all)
qed

text \<open>A concrete handshake: the default user asks for a target by name, with a first payload.\<close>

definition example_key :: bytes where
  "example_key = the (plain_hkdf default_secret example_uid (lit ''ghost-v1'') KEY_SIZE)"

definition example_init_frame :: GhostFrame where
  "example_init_frame = GhostFrame_new example_uid (Domain (lit ''example.com'') 80) [7, 8]"

definition example_sealed :: bytes where
  "example_sealed = replicate 12 0 @ the (aead_seal plain_aead example_key (replicate 12 0) (frame_wire example_init_frame))"

definition example_client :: conn where
  "example_client = fresh_conn [example_uid @ be16 (of_nat (length example_sealed)) @ example_sealed]"

lemma example_key_facts:
  "length example_key = KEY_SIZE"
  "(derive_key plain_hkdf example_uid default_secret :: ('e, bytes) res) = Ok example_key"
  "GhostCipher_new plain_aead example_key = Ok \<lparr>gc_aead = plain_aead, gc_key = example_key\<rparr>"
  by (simp_all add: example_key_def plain_hkdf_def derive_key_def GhostCipher_new_def KEY_SIZE_def
      example_uid_def)

lemma example_sealed_facts:
  "GhostCipher_decrypt \<lparr>gc_aead = plain_aead, gc_key = example_key\<rparr> example_sealed = Ok (frame_wire example_init_frame)"
  "length example_sealed < 65536"
  "GhostFrame_decode (frame_wire example_init_frame) = Ok example_init_frame"
proof -
  have l: "length (take TAG_SIZE example_key) = TAG_SIZE"
    using example_key_facts(1) by (simp add: crypto_sizes)
  show "GhostCipher_decrypt \<lparr>gc_aead = plain_aead, gc_key = example_key\<rparr> example_sealed = Ok (frame_wire example_init_frame)"
    using l by (simp add: GhostCipher_decrypt_def example_sealed_def plain_aead_def crypto_sizes)
  have "length (frame_wire example_init_frame) < 60000"
    by (simp add: frame_wire_def example_init_frame_def GhostFrame_new_def example_uid_def)
  with l show "length example_sealed < 65536"
    by (simp add: example_sealed_def plain_aead_def crypto_sizes)
  have "wf_frame example_init_frame"
    by (simp add: wf_frame_def example_init_frame_def GhostFrame_new_def length_example_uid is_ascii_utf8_valid)
  then show "GhostFrame_decode (frame_wire example_init_frame) = Ok example_init_frame"
    using frame_code.decode_enc_exact by (simp add: GhostFrame_decode_def)
qed

lemma example_uid_allowed: "hex_encode example_uid \<in> ss_allowed_users (server_state ServerConfig_default)"
  using default_user_text [symmetric]
  by (simp add: server_state_def ServerConfig_default_def example_uid_def del: lit_Cons)

lemma example_accepted:
  obtains client' where
    "handle_connection_init example_env (server_state ServerConfig_default) example_client =
     (Ok (example_uid, example_key,
       \<lparr>c_in = src_of [[4], [5]], c_out = fresh_writer\<lparr>wr_data := [7, 8]\<rparr>\<rparr>), client')"
    and "src_data (c_in client') = []"
proof -
  have c: "src_data (c_in example_client) =
      example_uid @ be16 (of_nat (length example_sealed)) @ example_sealed @ []"
    by (simp add: example_client_def)
  have r: "resolve_target example_env (gf_target example_init_frame) = Ok (V4 (socket_v4 0x5DB8D822 80))"
    "env_connect example_env (V4 (socket_v4 0x5DB8D822 80)) = Ok (fresh_conn [[4], [5]])"
    by (simp_all add: example_env_def example_init_frame_def GhostFrame_new_def Let_def)
  have e: "env_hkdf example_env = plain_hkdf" "env_aead example_env = plain_aead"
    by (simp_all add: example_env_def)
  have p: "gf_payload example_init_frame = [7, 8]"
    by (simp add: example_init_frame_def GhostFrame_new_def)
  obtain client' where i: "handle_connection_init example_env (server_state ServerConfig_default) example_client =
       (Ok (example_uid, example_key, (fresh_conn [[4], [5]])\<lparr>c_out := (c_out (fresh_conn [[4], [5]]))
          \<lparr>wr_data := wr_data (c_out (fresh_conn [[4], [5]])) @ gf_payload example_init_frame\<rparr>\<rparr>), client')"
      "src_data (c_in client') = []"
    by (rule init_accepts [OF c length_example_uid example_sealed_facts(2) example_uid_allowed
          example_key_facts(2) [folded e(1)] example_key_facts(3) [folded e(2)]
          example_sealed_facts(1) [folded e(2)] example_sealed_facts(3) r]) auto
  then show thesis by (intro that) (simp_all add: p fresh_conn_def)
qed

theorem session_only_if_authenticated_witness:
  "\<exists>n ct pt. src_data (c_in example_client) = example_uid @ be16 (of_nat (length (n @ ct))) @ n @ ct \<and>
     aead_seal plain_aead example_key n pt = Some ct"
proof -
  obtain client' where i: "handle_connection_init example_env (server_state ServerConfig_default) example_client =
       (Ok (example_uid, example_key,
         \<lparr>c_in = src_of [[4], [5]], c_out = fresh_writer\<lparr>wr_data := [7, 8]\<rparr>\<rparr>), client')"
    and r: "src_data (c_in client') = []"
    by (rule example_accepted)
  have a: "aead_ok (env_aead example_env)" and h: "hkdf_ok (env_hkdf example_env)"
    by (simp_all add: example_env_def aead_ok_plain hkdf_ok_plain)
  have e: "env_aead example_env = plain_aead" by (simp add: example_env_def)
  from session_only_if_authenticated [OF a h i] show ?thesis unfolding r e by auto
qed

text \<open>C39: The operator must write user ids in canonical form. If client and server are configured with
  the same id text, one that the client accepts, the server admits the client exactly when
  the text is already lower-case without dashes; otherwise no client can use the entry.\<close>

theorem same_text_admitted_iff_canonical:
  assumes "parse_user_id s = Ok uid" and "43 \<notin> set s" and "sc_allowed_users config = [s]"
  shows "hex_encode uid \<in> ss_allowed_users (server_state config) \<longleftrightarrow> s = canonical_id s"
  using parse_user_id_text [OF assms(1,2)] assms(3) by (auto simp: server_state_def)

theorem same_text_admitted_iff_canonical_witness:
  "hex_encode (replicate 15 0 @ [0x1F]) \<notin> ss_allowed_users (server_state (ServerConfig_default
     \<lparr>sc_allowed_users := [lit ''0000000000000000000000000000001F'']\<rparr>))"
proof -
  have p: "parse_user_id (lit ''0000000000000000000000000000001F'') = Ok (replicate 15 0 @ [0x1F])"
    and n: "lit ''0000000000000000000000000000001F'' \<noteq> canonical_id (lit ''0000000000000000000000000000001F'')"
    by code_simp+
  have "43 \<notin> set (lit ''0000000000000000000000000000001F'')" by simp
  from same_text_admitted_iff_canonical [OF p this, of "ServerConfig_default
     \<lparr>sc_allowed_users := [lit ''0000000000000000000000000000001F'']\<rparr>"] n
  show ?thesis by (simp del: lit_Cons)
qed

subsection \<open>Robustness\<close>

lemma panic_free_derive_key: "hkdf_ok H \<Longrightarrow> panic_free (lift_res (derive_key H uid secret)) s"
  by (rule panic_free_lift_res) (metis derive_key_length res.distinct(3))

lemma GhostCipher_new_not_Panic [simp]: "GhostCipher_new A key \<noteq> Panic"
  by (simp add: GhostCipher_new_def)

lemma resolve_target_not_Panic:
  "(\<And>a. env_lookup_host env a \<noteq> Panic) \<Longrightarrow> resolve_target env t \<noteq> Panic"
  by (cases t) (auto simp: bind_res_eq_Panic Let_def split: list.splits)



text \<open>What counts as the key in a first read: the word after the marker, of the length of a key.\<close>

definition shows_key :: "bytes \<Rightarrow> bytes \<Rightarrow> bool" where
  "shows_key g key \<longleftrightarrow> length key = 64 \<and> token_presented key (from_utf8_lossy g)"

text \<open>C30: The front of the Reality mode shows a prober the mask, and nothing but the mask. On every first read of at
  most 4096 bytes, the handler is reached, after the text of a protocol switch, if and only if the configured key has
  64 bytes and the request presents it; otherwise the answer is the redirect to the mask domain, byte for byte, and
  the connection is over. So two servers with the same mask domain, whose keys the request does not present, cannot be
  told apart, whatever else is in their configurations.\<close>

theorem reality_front_masks:
  assumes "wr_limit (c_out c) = None" and "src_segs (c_in c) = g # gs"
    and "g \<noteq> []" and "length g \<le> 4096" and "utf8_valid (sc_reality_auth_key config)"
  shows "reality_front config c =
      (if shows_key g (sc_reality_auth_key config) then ToHandler else FrontMasked,
       c\<lparr>c_in := (c_in c)\<lparr>src_segs := gs\<rparr>,
         c_out := (c_out c)\<lparr>wr_data := wr_data (c_out c) @
           (if shows_key g (sc_reality_auth_key config)
            then lit ''HTTP/1.1 101 Switching Protocols'' @ [13, 10] @ lit ''Upgrade: ghost-tunnel'' @ [13, 10] @
              lit ''Connection: upgrade'' @ [13, 10, 13, 10]
            else lit ''HTTP/1.1 301 Moved Permanently'' @ [13, 10] @
              lit ''Location: https://'' @ sc_mask_domain config @ [13, 10] @
              lit ''Content-Length: 0'' @ [13, 10] @ lit ''Connection: close'' @ [13, 10, 13, 10])\<rparr>\<rparr>) \<and>
    (\<forall>config'. sc_mask_domain config' = sc_mask_domain config \<and> utf8_valid (sc_reality_auth_key config') \<and>
       \<not> shows_key g (sc_reality_auth_key config) \<and> \<not> shows_key g (sc_reality_auth_key config') \<longrightarrow>
       reality_front config' c = reality_front config c)"
proof -
  have front: "reality_front cfg c =
      (if shows_key g (sc_reality_auth_key cfg) then ToHandler else FrontMasked,
       c\<lparr>c_in := (c_in c)\<lparr>src_segs := gs\<rparr>,
         c_out := (c_out c)\<lparr>wr_data := wr_data (c_out c) @
           (if shows_key g (sc_reality_auth_key cfg) then switching_protocols else mask_redirect (sc_mask_domain cfg))\<rparr>\<rparr>)"
    if "utf8_valid (sc_reality_auth_key cfg)" for cfg
    using assms(1-4) detect_ghost_auth_presented [OF that, of g, where ?'a = unit]
    by (simp add: shows_key_def reality_front_def on_in_def on_out_def read_some_def)
  show ?thesis
    unfolding front [OF assms(5)]
    by (auto simp: front switching_protocols_def mask_redirect_def crlf_def simp del: lit_Cons)
qed

lemma no_marker: "88 \<notin> set txt \<Longrightarrow> \<not> token_presented key txt"
  by (auto simp: token_presented_def)

text \<open>A probe of the default configuration: the text of the answer, and the same one under any other key it does not present.\<close>

theorem reality_front_masks_witness:
  "fst (reality_front ServerConfig_default (fresh_conn [lit ''GET / HTTP/1.1''])) = FrontMasked \<and>
   wr_data (c_out (snd (reality_front ServerConfig_default (fresh_conn [lit ''GET / HTTP/1.1''])))) =
     lit ''HTTP/1.1 301 Moved Permanently'' @ [13, 10] @ lit ''Location: https://www.apple.com'' @ [13, 10] @
     lit ''Content-Length: 0'' @ [13, 10] @ lit ''Connection: close'' @ [13, 10, 13, 10] \<and>
   reality_front (ServerConfig_default\<lparr>sc_reality_auth_key := hex_encode (replicate 32 9)\<rparr>) (fresh_conn [lit ''GET / HTTP/1.1'']) =
     reality_front ServerConfig_default (fresh_conn [lit ''GET / HTTP/1.1''])"
proof -
  let ?g = "lit ''GET / HTTP/1.1''"
  have lossy: "from_utf8_lossy ?g = ?g" by (intro from_utf8_lossy_valid is_ascii_utf8_valid) simp
  have "\<not> token_presented key (from_utf8_lossy ?g)" for key
    by (rule no_marker) (simp add: lossy)
  then have hidden: "\<not> shows_key ?g key" for key by (simp add: shows_key_def)
  have g: "?g \<noteq> []" "length ?g \<le> 4096" "wr_limit (c_out (fresh_conn [?g])) = None" "src_segs (c_in (fresh_conn [?g])) = [?g]"
    by simp_all
  have k: "utf8_valid (sc_reality_auth_key ServerConfig_default)"
    by (intro is_ascii_utf8_valid) (simp add: ServerConfig_default_def)
  have k': "utf8_valid (hex_encode (replicate 32 9))"
    using token_text_hex_encode [of "replicate 32 9"] by (simp add: token_text_def is_ascii_utf8_valid)
  let ?c = "fresh_conn [?g]" and ?cfg = "ServerConfig_default\<lparr>sc_reality_auth_key := hex_encode (replicate 32 9)\<rparr>"
  have cfg: "sc_mask_domain ?cfg = sc_mask_domain ServerConfig_default"
    "sc_mask_domain ServerConfig_default = lit ''www.apple.com''" "sc_reality_auth_key ?cfg = hex_encode (replicate 32 9)"
    by (simp_all add: ServerConfig_default_def)
  have out: "wr_data (c_out ?c) = []" by (simp add: fresh_conn_def fresh_writer_def)
  note front = reality_front_masks [OF g(3,4,1,2) k]
  have "reality_front ?cfg ?c = reality_front ServerConfig_default ?c"
    using conjunct2 [OF front] hidden k' cfg(1,3) by metis
  with conjunct1 [OF front] hidden cfg(2) out show ?thesis by simp
qed

end
