(* ===== verification/Tunnel.thy ===== *)
theory Tunnel
  imports Server
begin

section \<open>The client's tunnel\<close>

text \<open>
  ghost-client/src/tunnel.rs: \<^verbatim>\<open>proxy_through_ghost\<close> (connection to the server, the optional
  Reality layer, the handshake, the session), \<^verbatim>\<open>connect_reality\<close> and its certificate check. TCP,
  the TLS client, server-name parsing and SHA-256 are parameters in \<open>client_env\<close>. The
  fragmented stream under the tunnel, which \<open>open_tunnel\<close> leaves out, changes only how writes are cut: a connection here is its
  specification, and the theory \<open>Fragment_Writer\<close> proves that it refines it.
\<close>

datatype ClientError =
    BadUserId hex_error
  | ServerUnreachable bytes io_error
  | BadRealityKey hex_error
  | InvalidSni bytes
  | TlsFailed bytes bytes io_error
  | AuthClosed
  | AuthUnexpected bytes
  | ClientIo io_error
  | ClientCrypto CryptoError

record 'r client_env =
  ce_rng :: "'r rng"
  ce_aead :: aead
  ce_hkdf :: hkdf
  ce_connect :: "bytes \<Rightarrow> (io_error, conn) res"
  ce_server_name :: "bytes \<Rightarrow> bool"
  ce_tls_connect :: "client_tls_config \<Rightarrow> bytes \<Rightarrow> conn \<Rightarrow> (io_error, conn) res"
  ce_sha256 :: "bytes \<Rightarrow> bytes"

subsection \<open>The Reality layer\<close>

text \<open>The certificate is accepted if its SHA-256 is the expected fingerprint; nothing else is checked.\<close>

definition verify_server_cert :: "(bytes \<Rightarrow> bytes) \<Rightarrow> bytes \<Rightarrow> bytes \<Rightarrow> (bytes, unit) res" where
  "verify_server_cert sha256 expected end_entity =
     (let fp = sha256 end_entity in
      if fp = expected then Ok ()
      else Err (lit ''Certificate fingerprint mismatch: expected '' @ hex_encode expected @
                lit '', got '' @ hex_encode fp))"

text \<open>The signatures over the handshake are never checked: both functions only assert that they are valid.\<close>

definition verify_tls12_signature :: "bytes \<Rightarrow> bytes \<Rightarrow> bytes \<Rightarrow> (bytes, unit) res" where
  "verify_tls12_signature message cert dss = Ok ()"

definition verify_tls13_signature :: "bytes \<Rightarrow> bytes \<Rightarrow> bytes \<Rightarrow> (bytes, unit) res" where
  "verify_tls13_signature message cert dss = Ok ()"

definition supported_verify_schemes :: "bytes list" where
  "supported_verify_schemes =
     [lit ''RSA_PKCS1_SHA256'', lit ''RSA_PKCS1_SHA384'', lit ''RSA_PKCS1_SHA512'',
      lit ''ECDSA_NISTP256_SHA256'', lit ''ECDSA_NISTP384_SHA384'', lit ''ED25519'']"

definition build_client_tls_config ::
  "(bytes \<Rightarrow> bytes) \<Rightarrow> bytes \<Rightarrow> (ClientError, client_tls_config) res" where
  "build_client_tls_config sha256 reality_auth_key_hex =
     bind_res (map_err BadRealityKey (parse_hex_32 reality_auth_key_hex)) (\<lambda>expected_fp.
     Ok \<lparr>tc_verify_server_cert = verify_server_cert sha256 expected_fp,
         tc_verify_tls12_signature = verify_tls12_signature,
         tc_verify_tls13_signature = verify_tls13_signature,
         tc_supported_verify_schemes = supported_verify_schemes,
         tc_client_auth = False,
         tc_alpn_protocols = [lit ''h2'', lit ''http/1.1'']\<rparr>)"

text \<open>\<^verbatim>\<open>lines().next()\<close> of a text that is not empty.\<close>

definition first_line :: "bytes \<Rightarrow> bytes" where
  "first_line s =
     (let l = takeWhile (\<lambda>c. c \<noteq> 10) s in
      if length l < length s \<and> l \<noteq> [] \<and> last l = 13 then butlast l else l)"

text \<open>The exchange on the TLS stream: the auth request, one read, and the check of the answer.\<close>

definition reality_exchange :: "bytes \<Rightarrow> (conn, ClientError, unit) stm" where
  "reality_exchange mask_domain =
     (let auth_token = hex_encode default_secret;
          request = auth_request mask_domain auth_token in
      bind (with_err ClientIo (on_out (write_all request))) (\<lambda>_.
      bind (with_err ClientIo (on_in (read_some 1024))) (\<lambda>buf.
      if buf = [] then throw AuthClosed
      else
        let response = from_utf8_lossy buf in
        if \<not> str_contains (lit ''200 OK'') response \<and> \<not> str_contains (lit ''Ghost Proxy'') response
           \<and> \<not> str_contains (lit ''101 Switching Protocols'') response
        then throw (AuthUnexpected (first_line response))
        else ret ())))"

definition connect_reality ::
  "'r client_env \<Rightarrow> bytes \<Rightarrow> bytes \<Rightarrow> bytes \<Rightarrow> conn \<Rightarrow> (ClientError, conn) res" where
  "connect_reality env mask_domain server_addr reality_auth_key stream =
     bind_res (build_client_tls_config (ce_sha256 env) reality_auth_key) (\<lambda>tls_config.
     if \<not> ce_server_name env mask_domain then Err (InvalidSni mask_domain)
     else
       bind_res (map_err (TlsFailed server_addr mask_domain)
                   (ce_tls_connect env tls_config mask_domain stream)) (\<lambda>tls_stream.
       case reality_exchange mask_domain tls_stream of
         (Ok _, tls_stream') \<Rightarrow> Ok tls_stream'
       | (Err e, _) \<Rightarrow> Err e
       | (Panic, _) \<Rightarrow> Panic))"

subsection \<open>Opening the tunnel\<close>

text \<open>The user id, the connection, and the Reality layer unless the mask domain is empty or none.\<close>

definition open_tunnel :: "'r client_env \<Rightarrow> ClientConfig \<Rightarrow> (ClientError, bytes \<times> conn) res" where
  "open_tunnel env config =
     bind_res (map_err BadUserId (parse_user_id (cc_user_id config))) (\<lambda>user_id.
     bind_res (map_err (ServerUnreachable (cc_server_addr config)) (ce_connect env (cc_server_addr config)))
       (\<lambda>stream.
     if cc_mask_domain config = [] \<or> cc_mask_domain config = lit ''none'' then Ok (user_id, stream)
     else
       bind_res (connect_reality env (cc_mask_domain config) (cc_server_addr config)
                   (cc_reality_auth_key config) stream) (\<lambda>tls_stream.
       Ok (user_id, tls_stream))))"

text \<open>The id in clear, then the init frame with the target, encrypted, behind its length.\<close>

definition client_handshake ::
  "'r client_env \<Rightarrow> ClientConfig \<Rightarrow> bytes \<Rightarrow> TargetAddr \<Rightarrow>
     ('r pipe, ClientError, GhostCipher \<times> GhostCipher) stm" where
  "client_handshake env config user_id target =
     bind (lift_res (derive_key (ce_hkdf env) user_id default_secret)) (\<lambda>key.
     bind (with_err ClientCrypto (lift_res (GhostCipher_new (ce_aead env) key))) (\<lambda>cipher.
     bind (with_err ClientIo (on_dst (write_all user_id))) (\<lambda>_.
     let init_frame = GhostFrame_new user_id target [] in
     bind (if cc_enable_padding config
           then on_rng (draw (with_random_padding (ce_rng env) (unat (cc_max_padding_len config)) init_frame))
           else ret init_frame) (\<lambda>init_frame.
     bind (lift_res (GhostFrame_encode init_frame)) (\<lambda>init_data.
     bind (with_err ClientCrypto (on_rng (GhostCipher_encrypt (ce_rng env) cipher init_data))) (\<lambda>encrypted.
     let len = of_nat (length encrypted) :: u16 in
     bind (with_err ClientIo (on_dst (write_all (be16 len)))) (\<lambda>_.
     bind (with_err ClientIo (on_dst (write_all encrypted))) (\<lambda>_.
     bind (with_err ClientCrypto (lift_res (GhostCipher_new (ce_aead env) key))) (\<lambda>cipher_s2c.
     ret (cipher, cipher_s2c))))))))))"

definition client_session_start :: "'r pipe \<Rightarrow> conn \<Rightarrow> 'r endpoint" where
  "client_session_start p socks5_stream =
     \<lparr>ep_rng = p_rng p, ep_tunnel = \<lparr>c_in = p_src p, c_out = p_dst p\<rparr>,
      ep_plain = socks5_stream, ep_phase = Running\<rparr>"

inductive proxy_through_ghost ::
  "'r client_env \<Rightarrow> 'r \<Rightarrow> ClientConfig \<Rightarrow> conn \<Rightarrow> TargetAddr \<Rightarrow>
     (ClientError, unit) res \<Rightarrow> 'r endpoint option \<Rightarrow> bool"
  for env g config socks5_stream target where
  open_fails: "open_tunnel env config = Err e \<Longrightarrow>
    proxy_through_ghost env g config socks5_stream target (Err e) None"
| open_panics: "open_tunnel env config = Panic \<Longrightarrow>
    proxy_through_ghost env g config socks5_stream target Panic None"
| handshake_fails: "open_tunnel env config = Ok (user_id, tunnel) \<Longrightarrow>
    client_handshake env config user_id target \<lparr>p_rng = g, p_src = c_in tunnel, p_dst = c_out tunnel\<rparr>
      = (Err e, p) \<Longrightarrow>
    proxy_through_ghost env g config socks5_stream target (Err e) None"
| handshake_panics: "open_tunnel env config = Ok (user_id, tunnel) \<Longrightarrow>
    client_handshake env config user_id target \<lparr>p_rng = g, p_src = c_in tunnel, p_dst = c_out tunnel\<rparr>
      = (Panic, p) \<Longrightarrow>
    proxy_through_ghost env g config socks5_stream target Panic None"
| tunnel_session: "open_tunnel env config = Ok (user_id, tunnel) \<Longrightarrow>
    client_handshake env config user_id target \<lparr>p_rng = g, p_src = c_in tunnel, p_dst = c_out tunnel\<rparr>
      = (Ok (cipher_c2s, cipher_s2c), p) \<Longrightarrow>
    endpoint_reach (client_download_step cipher_s2c)
      (client_upload_step (ce_rng env) config user_id cipher_c2s)
      (client_session_start p socks5_stream) final \<Longrightarrow>
    ep_phase final = Closed d reason \<Longrightarrow>
    proxy_through_ghost env g config socks5_stream target
      (if reason = TaskPanic then Panic else Ok ()) (Some final)"

inductive_cases proxy_through_ghost_cases: "proxy_through_ghost env g config socks target r s"

subsection \<open>What the handshake sends\<close>

text \<open>
  Into a stream that takes everything, the handshake sends the id and one packet whose frame
  names the target and has no payload.
\<close>

lemma init_frame_padded:
  assumes "rng_ok R" and "wf_addr target" and "length uid = USER_ID_LEN"
  obtains f t where
    "(if padding then on_rng (draw (with_random_padding R m (GhostFrame_new uid target [])))
      else ret (GhostFrame_new uid target [])) p = ((Ok f :: ('e, GhostFrame) res), p\<lparr>p_rng := t\<rparr>)"
    and "wf_frame f" and "gf_target f = target" and "gf_payload f = []" and "length (gf_padding f) \<le> 255"
proof (cases padding)
  case True
  obtain f t where w: "with_random_padding R m (GhostFrame_new uid target []) (p_rng p) = (f, t)" by fastforce
  obtain pad where "f = (GhostFrame_new uid target [])\<lparr>gf_padding := pad\<rparr>" "length pad \<le> min m MAX_PADDING_LEN"
    using assms(1) w by (rule with_random_padding_shape)
  with True w assms show thesis
    by (intro that [of f t])
      (simp_all add: on_rng_def draw_def wf_frame_def GhostFrame_new_def MAX_PADDING_LEN_def)
next
  case False
  with assms show thesis
    by (intro that [of "GhostFrame_new uid target []" "p_rng p"])
      (simp_all add: wf_frame_def GhostFrame_new_def)
qed

lemma wf_addr_wire_length: "wf_addr t \<Longrightarrow> length (addr_wire t) \<le> 300"
  by (cases t) auto

lemma client_handshake_sends:
  assumes "rng_ok (ce_rng env)" and "aead_ok (ce_aead env)" and "hkdf_ok (ce_hkdf env)"
    and "length uid = USER_ID_LEN" and "wf_addr target" and "wr_limit (p_dst p) = None"
  obtains c key d f t where
    "client_handshake env config uid target p =
       (Ok (c, c), p\<lparr>p_rng := t, p_dst := (p_dst p)\<lparr>wr_data := wr_data (p_dst p) @
          uid @ be16 (of_nat (length d)) @ d\<rparr>\<rparr>)"
    and "(derive_key (ce_hkdf env) uid default_secret :: (ClientError, bytes) res) = Ok key"
    and "GhostCipher_new (ce_aead env) key = Ok c" and "cipher_ok c"
    and "GhostCipher_decrypt c d = Ok (frame_wire f)" and "length d < 65536"
    and "GhostFrame_decode (frame_wire f) = Ok f" and "gf_target f = target" and "gf_payload f = []"
proof -
  obtain key where key: "(derive_key (ce_hkdf env) uid default_secret :: (ClientError, bytes) res) = Ok key"
    and "length key = KEY_SIZE"
    using assms(3) by (rule derive_key_length)
  then obtain c where c: "GhostCipher_new (ce_aead env) key = Ok c" by (simp add: GhostCipher_new_def)
  have ok: "cipher_ok c" using GhostCipher_new_ok [OF c assms(2)] .
  let ?p = "p\<lparr>p_dst := (p_dst p)\<lparr>wr_data := wr_data (p_dst p) @ uid\<rparr>\<rparr>"
  obtain f s where f: "(if cc_enable_padding config then on_rng (draw (with_random_padding (ce_rng env)
        (unat (cc_max_padding_len config)) (GhostFrame_new uid target [])))
      else ret (GhostFrame_new uid target [])) ?p = ((Ok f :: (ClientError, GhostFrame) res), ?p\<lparr>p_rng := s\<rparr>)"
    and wf: "wf_frame f" and t: "gf_target f = target" "gf_payload f = []" "length (gf_padding f) \<le> 255"
    by (rule init_frame_padded [OF assms(1,5,4)])
  have e: "GhostFrame_encode f = (Ok (frame_wire f) :: (ClientError, bytes) res)"
    using wf by (intro GhostFrame_encode_fits wf_addr_fits) (simp add: wf_frame_def)
  have len: "length (frame_wire f) \<le> 600"
    using wf t wf_addr_wire_length [OF assms(5)]
    by (simp add: frame_wire_def wf_frame_def USER_ID_LEN_def)
  have g: "rng_ok (ce_rng env) \<and> cipher_ok c" using assms(1) ok by simp
  have "length (frame_wire f) < 2 ^ 32" using len by simp
  from ghost_cipher.seal_open [OF g this, of s] obtain d u where
    d: "GhostCipher_encrypt (ce_rng env) c (frame_wire f) s = (Ok d, u)"
      "GhostCipher_decrypt c d = Ok (frame_wire f)" "length d = length (frame_wire f) + (NONCE_SIZE + TAG_SIZE)"
    by metis
  have "client_handshake env config uid target p =
       (Ok (c, c), p\<lparr>p_rng := u, p_dst := (p_dst p)\<lparr>wr_data := wr_data (p_dst p) @
          uid @ be16 (of_nat (length d)) @ d\<rparr>\<rparr>)"
    using assms(6) key c f e d(1)
    by (simp add: client_handshake_def bind_def with_err_def on_dst_def on_rng_def Let_def)
  moreover have "length d < 65536" using d(3) len by (simp add: crypto_sizes)
  moreover have "GhostFrame_decode (frame_wire f) = Ok f"
    using frame_code.decode_enc_exact [OF wf] by (simp add: GhostFrame_decode_def)
  ultimately show thesis
    using key c ok d(2) t(1,2) by (intro that)
qed

subsection \<open>Properties\<close>

text \<open>The handshakes fit together: whatever target with a well-formed address the client asks for,
  a server that shares the libraries and allows the user accepts the client's greeting,
  resolves and connects to exactly that target, forwards nothing yet, derives the client's
  key, and leaves what the client sends next for the session.\<close>

theorem handshake_reaches_target:
  assumes "rng_ok (ce_rng env)" and "aead_ok (ce_aead env)" and "hkdf_ok (ce_hkdf env)"
    and "length uid = USER_ID_LEN" and "wf_addr target"
    and "wr_limit (p_dst p) = None" and "wr_data (p_dst p) = []"
    and "client_handshake env config uid target p = (r, p')"
    and "env_aead senv = ce_aead env" and "env_hkdf senv = ce_hkdf env"
    and "hex_encode uid \<in> ss_allowed_users state"
    and "resolve_target senv target = Ok addr" and "env_connect senv addr = Ok remote"
    and "wr_limit (c_out remote) = None"
    and "src_data (c_in client) = wr_data (p_dst p') @ rest"
  shows "\<exists>c key client'. r = Ok (c, c) \<and> p_src p' = p_src p \<and>
     handle_connection_init senv state client = (Ok (uid, key, remote), client') \<and>
     src_data (c_in client') = rest \<and> c_out client' = c_out client \<and>
     GhostCipher_new (env_aead senv) key = Ok c"
proof -
  from client_handshake_sends [OF assms(1-6), of config] obtain c key d f t where
    h: "client_handshake env config uid target p =
       (Ok (c, c), p\<lparr>p_rng := t, p_dst := (p_dst p)\<lparr>wr_data := wr_data (p_dst p) @
          uid @ be16 (of_nat (length d)) @ d\<rparr>\<rparr>)"
    and k: "(derive_key (ce_hkdf env) uid default_secret :: (ClientError, bytes) res) = Ok key"
    and c: "GhostCipher_new (ce_aead env) key = Ok c"
    and d: "GhostCipher_decrypt c d = Ok (frame_wire f)" "length d < 65536"
    and f: "GhostFrame_decode (frame_wire f) = Ok f" "gf_target f = target" "gf_payload f = []"
    by metis
  have data: "src_data (c_in client) = uid @ be16 (of_nat (length d)) @ d @ rest"
    using assms(7,8,15) h by auto
  have k': "(derive_key (env_hkdf senv) uid default_secret :: (ServerError, bytes) res) = Ok key"
    using k assms(10) by (auto simp: derive_key_def split: option.splits)
  have "handle_connection_init senv state client = (Ok (uid, key, remote), client') \<and>
      src_data (c_in client') = rest \<and> c_out client' = c_out client"
    if "handle_connection_init senv state client =
       (Ok (uid, key, remote\<lparr>c_out := (c_out remote)\<lparr>wr_data := wr_data (c_out remote) @ gf_payload f\<rparr>\<rparr>), client')"
      "src_data (c_in client') = rest" "c_out client' = c_out client" for client'
    using that f(3) by simp
  with init_accepts [OF data assms(4) d(2) assms(11) k' c [folded assms(9)] d(1) f(1)
      assms(12) [folded f(2)] assms(13,14)]
  obtain client' where "handle_connection_init senv state client = (Ok (uid, key, remote), client')"
    "src_data (c_in client') = rest" "c_out client' = c_out client"
    by metis
  then show ?thesis using assms(8) h c assms(9) by auto
qed

definition example_client_env :: "nat client_env" where
  "example_client_env =
     \<lparr>ce_rng = counter_rng, ce_aead = plain_aead, ce_hkdf = plain_hkdf,
      ce_connect = (\<lambda>_. Ok (fresh_conn [])), ce_server_name = (\<lambda>_. True),
      ce_tls_connect = (\<lambda>_ _ c. Ok c), ce_sha256 = (\<lambda>bs. take 32 (bs @ replicate 32 0))\<rparr>"

definition example_greeting :: bytes where
  "example_greeting = wr_data (p_dst (snd (client_handshake example_client_env ClientConfig_default example_uid
     (IpV4 (socket_v4 1 80)) (pipe_from []))))"

theorem handshake_reaches_target_witness:
  "\<exists>key client'. handle_connection_init example_env (server_state ServerConfig_default)
     (fresh_conn [example_greeting, [1, 2]]) = (Ok (example_uid, key, fresh_conn [[4], [5]]), client') \<and>
     src_data (c_in client') = [1, 2]"
proof -
  have env: "rng_ok (ce_rng example_client_env)" "aead_ok (ce_aead example_client_env)"
    "hkdf_ok (ce_hkdf example_client_env)"
    by (simp_all add: example_client_env_def rng_ok_counter aead_ok_plain hkdf_ok_plain)
  have senv: "env_aead example_env = ce_aead example_client_env" "env_hkdf example_env = ce_hkdf example_client_env"
    "resolve_target example_env (IpV4 (socket_v4 1 80)) = Ok (V4 (socket_v4 1 80))"
    "env_connect example_env (V4 (socket_v4 1 80)) = Ok (fresh_conn [[4], [5]])"
    by (simp_all add: example_env_def example_client_env_def)
  show ?thesis
    using handshake_reaches_target [OF env length_example_uid _ _ _ surjective_pairing senv(1,2)
        example_uid_allowed senv(3,4), where p = "pipe_from []" and config = ClientConfig_default
        and client = "fresh_conn [example_greeting, [1, 2]]" and rest = "[1, 2]"]
    by (auto simp: example_greeting_def)
qed

subsection \<open>The Reality layer between client and server\<close>

text \<open>The characters around each space of a text: what a phrase with a space in it must match.\<close>

fun space_pairs :: "bytes \<Rightarrow> (u8 \<times> u8) list" where
  "space_pairs (x # y # z # r) =
     (if y = 32 then [(x, z)] else []) @ space_pairs (y # z # r)"
| "space_pairs _ = []"

lemma space_pairs_Cons_subset: "set (space_pairs s) \<subseteq> set (space_pairs (x # s))"
  by (cases s rule: space_pairs.cases) auto

lemma space_pairs_here: "(x, y) \<in> set (space_pairs (pre @ x # 32 # y # r))"
proof (induction pre)
  case (Cons a pre)
  then show ?case using space_pairs_Cons_subset [of "pre @ x # 32 # y # r" a] by auto
qed simp

lemma phrase_not_found:
  assumes "(x, y) \<notin> set (space_pairs s)"
  shows "\<not> str_contains (u @ x # 32 # y # v) s"
proof
  let ?p = "u @ x # 32 # y # v"
  assume "str_contains ?p s"
  then obtain i where "str_find ?p s = Some i" by (auto simp: str_contains_def)
  from str_find_Some [OF this] have "take (length ?p) (drop i s) = ?p" by (simp add: occurs_at_def)
  then have "s = take i s @ ?p @ drop (length ?p) (drop i s)"
    by (metis append_take_drop_id)
  then have "s = (take i s @ u) @ x # 32 # y # (v @ drop (length ?p) (drop i s))" by simp
  with space_pairs_here assms show False by metis
qed

lemma space_pairs_word:
  "32 \<notin> set w \<Longrightarrow> x \<noteq> 32 \<Longrightarrow> space_pairs (x # w @ 13 # b) = space_pairs (13 # b)"
proof (induction w arbitrary: x)
  case Nil
  then show ?case by (cases b) simp_all
next
  case (Cons a w)
  then show ?case by (cases "w @ 13 # b") (auto simp: append_eq_Cons_conv)
qed

lemma mask_redirect_spaces:
  assumes "32 \<notin> set md"
  shows "set (space_pairs (mask_redirect md)) \<subseteq>
    {(49, 51), (49, 77), (100, 80), (58, 104), (58, 48), (58, 99)}"
proof -
  have "mask_redirect md = lit ''HTTP/1.1 301 Moved Permanently'' @ crlf @ lit ''Location: https:/'' @
      47 # md @ 13 # 10 # lit ''Content-Length: 0'' @ crlf @ lit ''Connection: close'' @ crlf @ crlf"
    by (simp add: mask_redirect_def crlf_def)
  then show ?thesis
    using assms space_pairs_word [of "47 # md" 47] by (simp add: crlf_def)
qed

lemma client_rejects_redirect:
  assumes "utf8_valid md" and "32 \<notin> set md"
  shows "\<not> str_contains (lit ''200 OK'') (from_utf8_lossy (mask_redirect md))"
    and "\<not> str_contains (lit ''Ghost Proxy'') (from_utf8_lossy (mask_redirect md))"
    and "\<not> str_contains (lit ''101 Switching Protocols'') (from_utf8_lossy (mask_redirect md))"
    and "first_line (from_utf8_lossy (mask_redirect md)) = lit ''HTTP/1.1 301 Moved Permanently''"
proof -
  have "utf8_valid (mask_redirect md)"
    using assms(1) by (simp add: mask_redirect_def utf8_valid_append crlf_def)
  then have l: "from_utf8_lossy (mask_redirect md) = mask_redirect md" by (rule from_utf8_lossy_valid)
  note s = subsetD [OF mask_redirect_spaces [OF assms(2)]]
  have "(48, 79) \<notin> set (space_pairs (mask_redirect md))" using s [of "(48, 79)"] by auto
  from phrase_not_found [OF this, of "lit ''20''" "lit ''K''"]
  show "\<not> str_contains (lit ''200 OK'') (from_utf8_lossy (mask_redirect md))"
    unfolding l by simp
  have "(116, 80) \<notin> set (space_pairs (mask_redirect md))" using s [of "(116, 80)"] by auto
  from phrase_not_found [OF this, of "lit ''Ghos''" "lit ''roxy''"]
  show "\<not> str_contains (lit ''Ghost Proxy'') (from_utf8_lossy (mask_redirect md))"
    unfolding l by simp
  have "(49, 83) \<notin> set (space_pairs (mask_redirect md))" using s [of "(49, 83)"] by auto
  from phrase_not_found [OF this, of "lit ''10''" "lit ''witching Protocols''"]
  show "\<not> str_contains (lit ''101 Switching Protocols'') (from_utf8_lossy (mask_redirect md))"
    unfolding l by simp
  show "first_line (from_utf8_lossy (mask_redirect md)) = lit ''HTTP/1.1 301 Moved Permanently''"
    unfolding l by (simp add: mask_redirect_def first_line_def crlf_def Let_def)
qed

text \<open>C32: In Reality mode client and server of this version never come together. Whatever the server's
  configuration, it answers the client's auth request with the redirect of its mask, since
  the client sends the hex text of a built-in 18-byte secret where the server compares with a
  64-character key; and the client, given that redirect, gives up with its first line.\<close>

theorem reality_client_never_accepted:
  assumes "utf8_valid md" and "58 \<notin> set md" and "32 \<notin> set (sc_mask_domain config)"
    and "utf8_valid (sc_mask_domain config)" and "length (auth_request md (hex_encode default_secret)) \<le> 4096"
    and "length (mask_redirect (sc_mask_domain config)) \<le> 1024"
  shows "reality_front config (fresh_conn [auth_request md (hex_encode default_secret)]) =
      (FrontMasked, \<lparr>c_in = src_of [], c_out = fresh_writer\<lparr>wr_data := mask_redirect (sc_mask_domain config)\<rparr>\<rparr>) \<and>
    fst (reality_exchange md (fresh_conn [mask_redirect (sc_mask_domain config)])) =
      Err (AuthUnexpected (lit ''HTTP/1.1 301 Moved Permanently''))"
proof -
  let ?req = "auth_request md (hex_encode default_secret)"
  let ?red = "mask_redirect (sc_mask_domain config)"
  have l: "length (hex_encode default_secret) = 36" by (simp add: default_secret_def)
  have "default_secret \<noteq> []" by (simp add: default_secret_def)
  note ex = extract_auth_request [OF assms(1,2) token_text_hex_encode [OF this]]
  have d: "(detect_ghost_auth ?req (sc_reality_auth_key config) :: (unit, bool) res) = Ok False"
    using l ex
    by (cases "sc_reality_auth_key config = hex_encode default_secret") (auto simp: detect_ghost_auth_scan extract_auth_token_scan)
  have ne: "?req \<noteq> []" by (simp add: auth_request_def)
  have "reality_front config (fresh_conn [?req]) =
      (FrontMasked, \<lparr>c_in = src_of [], c_out = fresh_writer\<lparr>wr_data := ?red\<rparr>\<rparr>)"
    using d ne assms(5)
    by (simp add: reality_front_def on_in_def on_out_def read_some_def fresh_conn_def src_of_def fresh_writer_def)
  moreover have "?red \<noteq> []" by (simp add: mask_redirect_def)
  then have "fst (reality_exchange md (fresh_conn [?red])) =
      Err (AuthUnexpected (lit ''HTTP/1.1 301 Moved Permanently''))"
    using assms(6) client_rejects_redirect [OF assms(4,3)]
    by (simp add: reality_exchange_def bind_def with_err_def on_in_def on_out_def read_some_def Let_def
        del: lit_Cons)
  ultimately show ?thesis by simp
qed

theorem reality_client_never_accepted_witness:
  "fst (reality_front ServerConfig_default
     (fresh_conn [auth_request (lit ''www.apple.com'') (hex_encode default_secret)])) = FrontMasked"
proof -
  have u: "utf8_valid (lit ''www.apple.com'')" by (rule is_ascii_utf8_valid) simp
  have m: "sc_mask_domain ServerConfig_default = lit ''www.apple.com''"
    by (simp add: ServerConfig_default_def)
  have "length (auth_request (lit ''www.apple.com'') (hex_encode default_secret)) \<le> 4096"
    and "length (mask_redirect (lit ''www.apple.com'')) \<le> 1024"
    by (simp_all add: auth_request_def mask_redirect_def crlf_def default_secret_def)
  then show ?thesis
    using reality_client_never_accepted [of "lit ''www.apple.com''" ServerConfig_default] u
    by (simp add: m)
qed

text \<open>The configuration of a key that is written as 64 hexadecimal digits.\<close>

lemma build_client_tls_config_hex:
  assumes "length fp = 32"
  shows "\<exists>tls. build_client_tls_config sha256 (hex_encode fp) = Ok tls \<and>
    (\<forall>cert. tc_verify_server_cert tls cert = Ok () \<longleftrightarrow> sha256 cert = fp)"
proof -
  have "parse_hex_pairs 0 (length fp) ([] @ hex_encode fp) = Ok fp"
    by (rule parse_hex_pairs_hex_encode) simp_all
  then have "parse_hex_32 (hex_encode fp) = Ok fp"
    using assms by (simp add: parse_hex_32_def Let_def hex_encode_no_dash)
  then show ?thesis by (simp add: build_client_tls_config_def verify_server_cert_def Let_def)
qed

text \<open>What the client pins: with a 64-digit key it accepts exactly the servers whose certificate
  has the key as its SHA-256, and it offers no other check. The key is thus the fingerprint
  of the certificate on the client's side and the token on the server's.\<close>

theorem client_pins_certificate:
  assumes "length fp = 32"
  shows "\<exists>tls. build_client_tls_config sha256 (hex_encode fp) = Ok tls \<and>
    (\<forall>cert. tc_verify_server_cert tls cert = Ok () \<longleftrightarrow> sha256 cert = fp)"
  using assms by (rule build_client_tls_config_hex)

theorem client_pins_certificate_witness:
  "\<exists>tls. build_client_tls_config (\<lambda>_. replicate 32 1) (hex_encode (replicate 32 2)) = Ok tls \<and>
    tc_verify_server_cert tls [7] \<noteq> Ok ()"
proof -
  have "(replicate 32 1 :: bytes) \<noteq> replicate 32 2" by (simp add: replicate_eq_replicate)
  moreover have "length (replicate 32 2 :: bytes) = 32" by simp
  ultimately show ?thesis using client_pins_certificate by blast
qed

end
