(* ===== verification/Tls_Pins.thy ===== *)
theory Tls_Pins
  imports Tunnel
begin

section \<open>Certificates and pins\<close>

text \<open>
  What the two certificate builders do, what the client's pin means for a server that makes a new certificate at every start,
  and a configuration with which a server never listens.
\<close>

subsection \<open>The two builders\<close>

lemma with_err_bind: "with_err h (bind m f) = bind (with_err h m) (\<lambda>x. with_err h (f x))"
  by (rule ext) (simp add: with_err_def bind_def split: prod.split res.split)

lemma map_err_map_err: "map_err h (map_err f r) = map_err (\<lambda>e. h (f e)) r"
  by (cases r) simp_all

lemma with_err_with_err: "with_err h (with_err f m) = with_err (\<lambda>e. h (f e)) m"
  by (rule ext) (simp add: with_err_def map_err_map_err split: prod.split)

text \<open>A certificate for a domain: its common name and its only alternative name are the domain.\<close>

definition mask_certificate :: "('k, 'g) cert_lib \<Rightarrow> bytes \<Rightarrow> 'k \<Rightarrow> bytes \<Rightarrow> bool" where
  "mask_certificate L domain key_pair der \<longleftrightarrow>
     (\<exists>name. cl_ia5 L domain = Ok name \<and>
        cl_self_signed L \<lparr>cp_common_name = Some domain, cp_subject_alt_names = [name]\<rparr> key_pair = Ok der)"

lemma build_reality_tls_config_Ok:
  assumes "build_reality_tls_config L config g = (Ok tls, g')"
  obtains key_pair der key where "cl_generate L g = (Ok key_pair, g')"
    and "mask_certificate L (sc_mask_domain config) key_pair der"
    and "cl_private_key L (cl_serialize_der L key_pair) = Ok key"
    and "tls = \<lparr>ts_cert_chain = [der], ts_private_key = key, ts_client_auth = False\<rparr>"
  using assms
  by (auto simp: build_reality_tls_config_def bind_eq_Ok single_cert_config_def bind_res_eq_Ok
      Let_def CertificateParams_default_def mask_certificate_def)

text \<open>The library's errors, as the other builder reports them.\<close>

fun as_reality_error :: "tls_setup_error \<Rightarrow> RealityError" where
  "as_reality_error (KeyGenerationFailed e) = CertificateError e"
| "as_reality_error (InvalidDomain e) = CertificateError e"
| "as_reality_error (CertificateGenerationFailed e) = CertificateError e"
| "as_reality_error (PrivateKeyError e) = CertificateError (lit ''private key: '' @ e)"
| "as_reality_error (TlsConfigError e) = TlsHandshake e"

text \<open>The server and the Reality library each have a copy of the certificate builder. For the same mask domain they
  do the same: the same key pair, certificate and configuration, and on the same inputs the same errors, up to how they are named.\<close>

theorem certificate_builders_agree:
  assumes "rc_mask_domain rconfig = sc_mask_domain sconfig"
  shows "RealityServer_build_tls_config L rconfig = with_err as_reality_error (build_reality_tls_config L sconfig)"
  by (simp add: RealityServer_build_tls_config_def build_reality_tls_config_def with_err_bind with_err_with_err
      Let_def assms)

theorem certificate_builders_agree_witness:
  "RealityServer_build_tls_config counting_lib RealityConfig_default =
     with_err as_reality_error (build_reality_tls_config counting_lib
       (ServerConfig_default\<lparr>sc_mask_domain := lit ''www.apple.com''\<rparr>))"
  by (rule certificate_builders_agree) (simp add: RealityConfig_default_def)

subsection \<open>What the pin means\<close>

lemma pinned:
  assumes "build_client_tls_config sha256 key = Ok tls"
  obtains fp where "parse_hex_32 key = Ok fp"
    and "\<And>cert. tc_verify_server_cert tls cert = Ok () \<longleftrightarrow> sha256 cert = fp"
    and "\<And>v cert message dss. server_accepted tls v cert message dss \<longleftrightarrow> sha256 cert = fp"
  using assms
  by (auto simp: build_client_tls_config_def bind_res_eq_Ok verify_server_cert_def Let_def server_accepted_def
      verify_tls12_signature_def verify_tls13_signature_def split: tls_version.split)

text \<open>C16: The pin is the client's only check of the server, and it is a check of public data: whether a server passes depends
  on the certificate it shows alone, in TLS 1.2 as in 1.3, whatever it puts in the place of the signature over the handshake. So
  whoever copies the certificate of the true server passes as the server, without its private key.\<close>

theorem copied_certificate_accepted:
  assumes "build_client_tls_config sha256 key = Ok tls"
    and "server_accepted tls v cert message signature"
  shows "server_accepted tls w cert message' forged"
  using assms by (elim pinned) simp

definition example_fp :: bytes where
  "example_fp = replicate 32 1"

theorem copied_certificate_accepted_witness:
  "\<exists>tls. build_client_tls_config (\<lambda>_. example_fp) (hex_encode example_fp) = Ok tls \<and> server_accepted tls Tls13 [7] [9, 9] []"
proof -
  have "length example_fp = 32" by (simp add: example_fp_def)
  from build_client_tls_config_hex [OF this, of "\<lambda>_. example_fp"] obtain tls where
    t: "build_client_tls_config (\<lambda>_. example_fp) (hex_encode example_fp) = Ok tls"
    and v: "\<forall>cert. tc_verify_server_cert tls cert = Ok ()" by auto
  have "server_accepted tls Tls12 [7] [] [1]"
    using t v by (simp add: build_client_tls_config_def bind_res_eq_Ok server_accepted_def) (auto simp: verify_tls12_signature_def)
  with t copied_certificate_accepted [OF t] show ?thesis by blast
qed

text \<open>C17: A pinned client survives no restart of its server: the server makes a new key pair and certificate at every start, so
  that, as long as their SHA-256 differ, no value of the configured key makes the client accept the server both before and
  after a restart, in any handshake.\<close>

theorem pin_broken_by_restart:
  assumes "fresh_certs L"
    and "build_reality_tls_config L config g = (Ok before, g')"
    and "build_reality_tls_config L config g' = (Ok after, g'')"
    and "inj_on sha256 (set (ts_cert_chain before) \<union> set (ts_cert_chain after))"
    and "build_client_tls_config sha256 key = Ok tls"
    and "x \<in> set (ts_cert_chain before)" and "server_accepted tls v x message signature"
    and "y \<in> set (ts_cert_chain after)"
  shows "\<not> server_accepted tls w y message' signature'"
  using assms(2)
proof (rule build_reality_tls_config_Ok)
  fix k der pk
  assume k: "cl_generate L g = (Ok k, g')" "mask_certificate L (sc_mask_domain config) k der"
    "before = \<lparr>ts_cert_chain = [der], ts_private_key = pk, ts_client_auth = False\<rparr>"
  from assms(3) show ?thesis
  proof (rule build_reality_tls_config_Ok)
    fix k' der' pk'
    assume k': "cl_generate L g' = (Ok k', g'')" "mask_certificate L (sc_mask_domain config) k' der'"
      "after = \<lparr>ts_cert_chain = [der'], ts_private_key = pk', ts_client_auth = False\<rparr>"
    have "k \<noteq> k'" using assms(1) k(1) k'(1) unfolding fresh_certs_def by blast
    then have "der \<noteq> der'"
      using assms(1) k(2) k'(2) unfolding fresh_certs_def mask_certificate_def by auto
    then have "sha256 x \<noteq> sha256 y"
      using assms(4,6,8) k(3) k'(3) by (auto dest: inj_onD [of _ _ der der'])
    with assms(7) show ?thesis by (rule_tac pinned [OF assms(5)]) simp
  qed
qed

definition toy_hash :: "bytes \<Rightarrow> bytes" where
  "toy_hash x = take 32 (x @ replicate 32 0)"

theorem pin_broken_by_restart_witness:
  "\<exists>tls before after g. build_client_tls_config toy_hash (hex_encode (toy_hash (lit ''www.apple.com''))) = Ok tls \<and>
     build_reality_tls_config counting_lib ServerConfig_default 0 = (Ok before, 1) \<and>
     build_reality_tls_config counting_lib ServerConfig_default 1 = (Ok after, g) \<and>
     \<not> server_accepted tls Tls13 (hd (ts_cert_chain after)) [] []"
proof -
  let ?d = "lit ''www.apple.com''"
  let ?tls = "\<lambda>n. \<lparr>ts_cert_chain = [?d @ replicate n 48], ts_private_key = replicate n 49, ts_client_auth = False\<rparr>"
  have b: "build_reality_tls_config counting_lib ServerConfig_default n = (Ok (?tls n), Suc n)" for n
    by (simp add: build_reality_tls_config_def counting_lib_def bind_def with_err_def lift_res_def Let_def
        single_cert_config_def CertificateParams_default_def ServerConfig_default_def)
  have l: "length (toy_hash x) = 32" for x by (simp add: toy_hash_def)
  from build_client_tls_config_hex [OF l, of toy_hash ?d] obtain tls where
    t: "build_client_tls_config toy_hash (hex_encode (toy_hash ?d)) = Ok tls"
      "\<And>cert. tc_verify_server_cert tls cert = Ok () \<longleftrightarrow> toy_hash cert = toy_hash ?d" by blast
  then have a: "server_accepted tls Tls13 ?d [] []"
    by (auto simp: build_client_tls_config_def bind_res_eq_Ok server_accepted_def verify_tls13_signature_def)
  have "inj_on toy_hash (set (ts_cert_chain (?tls 0)) \<union> set (ts_cert_chain (?tls 1)))"
    using replicate_Suc [of 18 "0 :: u8"] by (simp add: toy_hash_def)
  from pin_broken_by_restart [OF fresh_certs_counting b [of 0] b [of "Suc 0"] _ t(1) _ a] this t(1) b [of 0] b [of 1]
  show ?thesis by auto
qed

subsection \<open>A server that never listens\<close>

text \<open>A mask domain that is no IA5 string (a name with letters outside ASCII, say) ends a server in Reality mode before
  it listens.\<close>

lemma bad_domain_never_listens:
  assumes "sc_enable_reality config" and "cl_generate L g = (Ok k, g')" and "cl_ia5 L (sc_mask_domain config) = Err e"
  shows "server_run L bind_to config accepts g = ([], Some (Err (SetupFailed (InvalidDomain e))))"
  using assms
  by (simp add: server_run_def run_with_reality_def build_reality_tls_config_def bind_def with_err_def Let_def)

end
