(* ===== verification/Fragment.thy ===== *)
theory Fragment
  imports Environment
begin

section \<open>The fragmented stream\<close>

text \<open>
  ghost-client/src/fragment.rs: the wrapper that cuts the first bytes of a connection into small
  writes. The socket under it answers polls: its i-th write poll is pending, takes at most some
  bytes (a TCP write may be partial) and sends them as one segment, or fails, as \<open>fs_answer i\<close> says; what
  its reads will get is the list \<open>fs_reads\<close>. A poll is \<open>None\<close> when it is pending. The log
  of the stream is what it did to the socket, with the pauses between the writes.
\<close>

datatype write_answer = NotReady | Takes nat | Fails io_error

datatype read_answer = NothingYet | Gets bytes | Breaks io_error

datatype sock_event = Sent bytes | Flushed | Slept nat | ShutDown

type_synonym 'a poll = "(io_error, 'a) res option"

record frag_stream =
  fs_log :: "sock_event list"
  fs_answer :: "nat \<Rightarrow> write_answer"
  fs_calls :: nat
  fs_reads :: "read_answer list"
  fs_remaining :: nat
  fs_size :: nat
  fs_delay_ms :: nat

fun segments :: "sock_event list \<Rightarrow> bytes list" where
  "segments [] = []"
| "segments (Sent g # es) = g # segments es"
| "segments (e # es) = segments es"

abbreviation fs_sent :: "frag_stream \<Rightarrow> bytes list" where "fs_sent s \<equiv> segments (fs_log s)"

text \<open>The socket, which the wrapper owns: its answers, and what it will receive.\<close>

definition FragmentedStream_new ::
  "(nat \<Rightarrow> write_answer) \<Rightarrow> read_answer list \<Rightarrow> nat \<Rightarrow> nat \<Rightarrow> nat \<Rightarrow> frag_stream" where
  "FragmentedStream_new answer reads frag_bytes fragment_size delay_ms =
     \<lparr>fs_log = [], fs_answer = answer, fs_calls = 0, fs_reads = reads, fs_remaining = frag_bytes,
      fs_size = max fragment_size 1, fs_delay_ms = delay_ms\<rparr>"

definition maybe_fragment ::
  "(nat \<Rightarrow> write_answer) \<Rightarrow> read_answer list \<Rightarrow> bool \<Rightarrow> nat \<Rightarrow> nat \<Rightarrow> nat \<Rightarrow> frag_stream" where
  "maybe_fragment answer reads enabled frag_bytes frag_size delay_ms =
     (if enabled then FragmentedStream_new answer reads frag_bytes frag_size delay_ms
      else FragmentedStream_new answer reads 0 1 0)"

definition log_event :: "sock_event \<Rightarrow> frag_stream \<Rightarrow> frag_stream" where
  "log_event e s = s\<lparr>fs_log := fs_log s @ [e]\<rparr>"

text \<open>The polls of the socket.\<close>

definition inner_poll_write :: "bytes \<Rightarrow> frag_stream \<Rightarrow> nat poll \<times> frag_stream" where
  "inner_poll_write buf s =
     (let t = s\<lparr>fs_calls := Suc (fs_calls s)\<rparr> in
      case fs_answer s (fs_calls s) of
        NotReady \<Rightarrow> (None, t)
      | Fails e \<Rightarrow> (Some (Err e), t)
      | Takes k \<Rightarrow>
          let n = min k (length buf) in
          (Some (Ok n), if n = 0 then t else log_event (Sent (take n buf)) t))"

definition inner_poll_read :: "nat \<Rightarrow> frag_stream \<Rightarrow> bytes poll \<times> frag_stream" where
  "inner_poll_read cap s =
     (case fs_reads s of
        [] \<Rightarrow> (Some (Ok []), s)
      | NothingYet # rs \<Rightarrow> (None, s\<lparr>fs_reads := rs\<rparr>)
      | Breaks e # rs \<Rightarrow> (Some (Err e), s)
      | Gets g # rs \<Rightarrow>
          if length g \<le> cap then (Some (Ok g), s\<lparr>fs_reads := rs\<rparr>)
          else (Some (Ok (take cap g)), s\<lparr>fs_reads := Gets (drop cap g) # rs\<rparr>))"

definition inner_poll_flush :: "frag_stream \<Rightarrow> unit poll \<times> frag_stream" where
  "inner_poll_flush s = (Some (Ok ()), log_event Flushed s)"

definition inner_poll_shutdown :: "frag_stream \<Rightarrow> unit poll \<times> frag_stream" where
  "inner_poll_shutdown s = (Some (Ok ()), log_event ShutDown s)"

subsection \<open>The operations of the stream\<close>

definition poll_read :: "nat \<Rightarrow> frag_stream \<Rightarrow> bytes poll \<times> frag_stream" where
  "poll_read cap s = inner_poll_read cap s"

definition poll_flush :: "frag_stream \<Rightarrow> unit poll \<times> frag_stream" where
  "poll_flush s = inner_poll_flush s"

definition poll_shutdown :: "frag_stream \<Rightarrow> unit poll \<times> frag_stream" where
  "poll_shutdown s = inner_poll_shutdown s"

definition poll_write :: "bytes \<Rightarrow> frag_stream \<Rightarrow> nat poll \<times> frag_stream" where
  "poll_write buf s =
     (if fs_remaining s = 0 then inner_poll_write buf s
      else
        let chunk = min (min (fs_size s) (fs_remaining s)) (length buf) in
        case inner_poll_write (take chunk buf) s of
          (Some (Ok n), t) \<Rightarrow> (Some (Ok n), t\<lparr>fs_remaining := fs_remaining s - n\<rparr>)
        | other \<Rightarrow> other)"

text \<open>
  \<^verbatim>\<open>write_all\<close> of the runtime over this stream: \<^verbatim>\<open>poll_write\<close>, again while it is pending, until
  everything is taken; a write of no bytes is the error \<^verbatim>\<open>WriteZero\<close>. \<open>None\<close> is a call that
  never returns, as on a socket that is never ready again.
\<close>

partial_function (option) frag_write_all ::
  "bytes \<Rightarrow> frag_stream \<Rightarrow> ((io_error, unit) res \<times> frag_stream) option" where
  "frag_write_all buf s =
     (if buf = [] then Some (Ok (), s)
      else
        case poll_write buf s of
          (None, t) \<Rightarrow> frag_write_all buf t
        | (Some (Err e), t) \<Rightarrow> Some (Err e, t)
        | (Some Panic, t) \<Rightarrow> Some (Panic, t)
        | (Some (Ok n), t) \<Rightarrow> if n = 0 then Some (Err WriteZero, t) else frag_write_all (drop n buf) t)"

text \<open>\<^verbatim>\<open>write\<close> on the socket, awaited.\<close>

partial_function (option) inner_write :: "bytes \<Rightarrow> frag_stream \<Rightarrow> ((io_error, nat) res \<times> frag_stream) option" where
  "inner_write buf s =
     (case inner_poll_write buf s of
        (None, t) \<Rightarrow> inner_write buf t
      | (Some r, t) \<Rightarrow> Some (r, t))"

text \<open>The other routine, \<^verbatim>\<open>fragmented_write\<close>, is not called by the stream.\<close>

partial_function (option) fragmented_loop ::
  "bytes \<Rightarrow> nat \<Rightarrow> frag_stream \<Rightarrow> ((io_error, nat) res \<times> frag_stream) option" where
  "fragmented_loop buf total_written s =
     (if 0 < fs_remaining s \<and> total_written < length buf then
        let chunk_size = min (min (fs_size s) (fs_remaining s)) (length buf - total_written) in
        case inner_write (take chunk_size (drop total_written buf)) s of
          None \<Rightarrow> None
        | Some (Err e, t) \<Rightarrow> Some (Err e, t)
        | Some (Panic, t) \<Rightarrow> Some (Panic, t)
        | Some (Ok n, t) \<Rightarrow>
            let t = log_event Flushed t;
                t = t\<lparr>fs_remaining := fs_remaining t - n\<rparr>;
                t = (if 0 < fs_remaining t \<and> 0 < fs_delay_ms t then log_event (Slept (fs_delay_ms t)) t else t)
            in fragmented_loop buf (total_written + n) t
      else Some (Ok total_written, s))"

definition fragmented_write :: "bytes \<Rightarrow> frag_stream \<Rightarrow> ((io_error, nat) res \<times> frag_stream) option" where
  "fragmented_write buf s =
     (if fs_remaining s = 0 \<or> buf = [] then inner_write buf s
      else
        case fragmented_loop buf 0 s of
          Some (Ok total_written, t) \<Rightarrow>
            if total_written < length buf then
              (case inner_write (drop total_written buf) t of
                 Some (Ok n, u) \<Rightarrow> Some (Ok (total_written + n), u)
               | other \<Rightarrow> other)
            else Some (Ok total_written, t)
        | other \<Rightarrow> other)"

subsection \<open>Waiting for the socket\<close>

text \<open>A live socket is never pending for ever.\<close>

definition sock_live :: "frag_stream \<Rightarrow> bool" where
  "sock_live s \<longleftrightarrow> (\<forall>i. \<exists>j. fs_answer s (i + j) \<noteq> NotReady)"

definition sock_ready :: "frag_stream \<Rightarrow> bool" where
  "sock_ready s \<longleftrightarrow> fs_answer s (fs_calls s) \<noteq> NotReady"

definition skip_polls :: "nat \<Rightarrow> frag_stream \<Rightarrow> frag_stream" where
  "skip_polls k s = s\<lparr>fs_calls := fs_calls s + k\<rparr>"

lemma skip_polls_simps [simp]:
  "skip_polls 0 s = s" "fs_log (skip_polls k s) = fs_log s" "fs_answer (skip_polls k s) = fs_answer s"
  "fs_remaining (skip_polls k s) = fs_remaining s" "fs_size (skip_polls k s) = fs_size s"
  "fs_calls (skip_polls k s) = fs_calls s + k" "sock_live (skip_polls k s) = sock_live s"
  by (simp_all add: skip_polls_def sock_live_def)

lemma skip_polls_Suc: "skip_polls k (s\<lparr>fs_calls := Suc (fs_calls s)\<rparr>) = skip_polls (Suc k) s"
  by (simp add: skip_polls_def)

lemma sock_live_ready:
  assumes "sock_live s"
  obtains k where "sock_ready (skip_polls k s)" and "\<forall>i < k. fs_answer s (fs_calls s + i) = NotReady"
proof -
  let ?P = "\<lambda>k. fs_answer s (fs_calls s + k) \<noteq> NotReady"
  from assms have "\<exists>k. ?P k" by (simp add: sock_live_def)
  then have "?P (LEAST k. ?P k)" by (rule LeastI_ex)
  then show thesis
    using not_less_Least [of _ ?P] by (intro that [of "LEAST k. ?P k"]) (auto simp: sock_ready_def)
qed

lemma inner_poll_write_pending:
  "fs_answer s (fs_calls s) = NotReady \<Longrightarrow> inner_poll_write buf s = (None, s\<lparr>fs_calls := Suc (fs_calls s)\<rparr>)"
  by (simp add: inner_poll_write_def)

lemma poll_write_pending:
  "fs_answer s (fs_calls s) = NotReady \<Longrightarrow> poll_write buf s = (None, s\<lparr>fs_calls := Suc (fs_calls s)\<rparr>)"
  by (simp add: poll_write_def inner_poll_write_pending Let_def)

lemma inner_write_skip:
  "\<forall>i < k. fs_answer s (fs_calls s + i) = NotReady \<Longrightarrow> inner_write buf s = inner_write buf (skip_polls k s)"
proof (induction k arbitrary: s)
  case (Suc k)
  from Suc.prems have "fs_answer s (fs_calls s) = NotReady"
    and "\<forall>i < k. fs_answer s (Suc (fs_calls s) + i) = NotReady" by auto
  with Suc.IH [of "s\<lparr>fs_calls := Suc (fs_calls s)\<rparr>"] show ?case
    by (subst inner_write.simps) (simp add: inner_poll_write_pending skip_polls_Suc)
qed simp

lemma frag_write_all_skip:
  "buf \<noteq> [] \<Longrightarrow> \<forall>i < k. fs_answer s (fs_calls s + i) = NotReady \<Longrightarrow>
   frag_write_all buf s = frag_write_all buf (skip_polls k s)"
proof (induction k arbitrary: s)
  case (Suc k)
  from Suc.prems have "fs_answer s (fs_calls s) = NotReady"
    and "\<forall>i < k. fs_answer s (Suc (fs_calls s) + i) = NotReady" by auto
  with Suc.IH [of "s\<lparr>fs_calls := Suc (fs_calls s)\<rparr>"] Suc.prems(1) show ?case
    by (subst frag_write_all.simps) (simp add: poll_write_pending skip_polls_Suc)
qed simp

lemma inner_write_live:
  assumes "sock_live s"
  obtains k where "sock_ready (skip_polls k s)" and "inner_write buf s = inner_write buf (skip_polls k s)"
  by (rule sock_live_ready [OF assms]) (rule that, assumption, rule inner_write_skip)

lemma frag_write_all_live:
  assumes "sock_live s" and "buf \<noteq> []"
  obtains k where "sock_ready (skip_polls k s)" and "frag_write_all buf s = frag_write_all buf (skip_polls k s)"
  by (rule sock_live_ready [OF assms(1)]) (rule that, assumption, rule frag_write_all_skip [OF assms(2)])

subsection \<open>Writing through the fragmented stream\<close>

lemma segments_append [simp]: "segments (xs @ ys) = segments xs @ segments ys"
  by (induction xs rule: segments.induct) simp_all

lemma poll_write_Ok:
  assumes "poll_write buf s = (Some (Ok n), t)"
  shows "n \<le> length buf" and "fs_answer t = fs_answer s" and "fs_size t = fs_size s"
    and "fs_remaining t = fs_remaining s - n"
    and "fs_sent t = (if n = 0 then fs_sent s else fs_sent s @ [take n buf])"
    and "0 < fs_remaining s \<Longrightarrow> n \<le> fs_size s"
  using assms
  by (auto simp: poll_write_def inner_poll_write_def log_event_def Let_def min_def
      split: if_splits write_answer.splits)

lemma poll_write_Err:
  assumes "poll_write buf s = (Some (Err e), t)"
  shows "fs_log t = fs_log s" and "fs_remaining t = fs_remaining s" and "\<exists>i. fs_answer s i = Fails e"
    and "fs_answer t = fs_answer s" and "fs_size t = fs_size s"
  using assms
  by (auto simp: poll_write_def inner_poll_write_def log_event_def Let_def min_def
      split: if_splits write_answer.splits)

lemma poll_write_ready:
  assumes "sock_ready s"
  obtains n t where "poll_write buf s = (Some (Ok n), t)"
    | e t where "poll_write buf s = (Some (Err e), t)"
proof -
  have "fst (poll_write buf s) \<noteq> None \<and> fst (poll_write buf s) \<noteq> Some Panic"
    using assms by (auto simp: sock_ready_def poll_write_def inner_poll_write_def Let_def split: write_answer.splits)
  then obtain r t where "poll_write buf s = (Some r, t)" and "r \<noteq> Panic"
    by (cases "poll_write buf s") auto
  then show thesis using that by (cases r) auto
qed

lemma poll_write_progress:
  assumes "poll_write buf s = (Some (Ok n), t)" and "buf \<noteq> []" and "0 < fs_size s" and "\<forall>i. fs_answer s i \<noteq> Takes 0"
  shows "0 < n"
  using assms(1-3) assms(4) [rule_format, of "fs_calls s"]
  by (auto simp: poll_write_def inner_poll_write_def Let_def min_def split: if_splits write_answer.splits)

text \<open>Segments that start within the first \<open>left\<close> bytes are at most \<open>most\<close> long.\<close>

fun small_first :: "nat \<Rightarrow> nat \<Rightarrow> bytes list \<Rightarrow> bool" where
  "small_first left most [] = True"
| "small_first left most (g # gs) =
     ((0 < left \<longrightarrow> length g \<le> most) \<and> small_first (left - length g) most gs)"

definition written :: "bytes \<Rightarrow> frag_stream \<Rightarrow> (io_error, unit) res \<Rightarrow> bytes list \<Rightarrow> frag_stream \<Rightarrow> bool" where
  "written buf s r gs t \<longleftrightarrow>
     fs_sent t = fs_sent s @ gs \<and> (\<exists>rest. buf = concat gs @ rest \<and> (r = Ok () \<longleftrightarrow> rest = [])) \<and>
     small_first (fs_remaining s) (fs_size s) gs \<and> fs_remaining t = fs_remaining s - length (concat gs) \<and>
     (r = Ok () \<or> (\<exists>e. r = Err e \<and> ((\<exists>i. fs_answer s i = Fails e) \<or>
        e = WriteZero \<and> (fs_size s = 0 \<or> (\<exists>i. fs_answer s i = Takes 0))))) \<and>
     fs_answer t = fs_answer s \<and> fs_size t = fs_size s"

lemma written_more:
  assumes "poll_write buf s = (Some (Ok n), t)" and "0 < n" and "written (drop n buf) t r gs u"
  shows "written buf s r (take n buf # gs) u"
proof -
  note f = poll_write_Ok [OF assms(1)]
  obtain rest where "drop n buf = concat gs @ rest" "r = Ok () \<longleftrightarrow> rest = []"
    using assms(3) by (auto simp: written_def)
  moreover from this(1) have "buf = concat (take n buf # gs) @ rest"
    by (metis append_take_drop_id append.assoc concat.simps(2))
  ultimately show ?thesis
    using assms(2,3) f unfolding written_def by auto
qed

lemma written_none:
  assumes "poll_write buf s = (Some (Ok 0), t)" and "buf \<noteq> []"
  shows "written buf s (Err WriteZero) [] t"
  using poll_write_Ok [OF assms(1)] poll_write_progress [OF assms] assms(2) by (auto simp: written_def)

lemma written_failed:
  assumes "poll_write buf s = (Some (Err e), t)" and "buf \<noteq> []"
  shows "written buf s (Err e) [] t"
  using poll_write_Err [OF assms(1)] assms(2) by (auto simp: written_def)

lemma frag_write_all_step:
  "buf \<noteq> [] \<Longrightarrow> poll_write buf s = (Some (Ok n), t) \<Longrightarrow>
    frag_write_all buf s = (if n = 0 then Some (Err WriteZero, t) else frag_write_all (drop n buf) t)"
  "buf \<noteq> [] \<Longrightarrow> poll_write buf s = (Some (Err e), t) \<Longrightarrow> frag_write_all buf s = Some (Err e, t)"
  by (simp_all add: frag_write_all.simps [of buf s])

lemma frag_write_all_total:
  assumes "sock_live s"
  shows "\<exists>r gs t. frag_write_all buf s = Some (r, t) \<and> written buf s r gs t"
  using assms
proof (induction "length buf" arbitrary: buf s rule: less_induct)
  case less
  show ?case
  proof (cases "buf = []")
    case True
    then show ?thesis by (subst frag_write_all.simps) (auto simp: written_def intro!: exI [of _ "[]"])
  next
    case False
    obtain k where k: "sock_ready (skip_polls k s)" "frag_write_all buf s = frag_write_all buf (skip_polls k s)"
      by (rule frag_write_all_live [OF less.prems False])
    have same: "written buf (skip_polls k s) r gs t \<longleftrightarrow> written buf s r gs t" for r gs t by (simp add: written_def)
    from k(1) show ?thesis
    proof (cases rule: poll_write_ready [of _ buf])
      case (1 n t)
      note step = frag_write_all_step(1) [OF False 1]
      show ?thesis
      proof (cases "n = 0")
        case True
        with step 1 written_none [of buf _ t] False same show ?thesis unfolding k(2) by fastforce
      next
        case n: False
        with False have "length (drop n buf) < length buf" by simp
        moreover have "sock_live t" using poll_write_Ok(2) [OF 1] less.prems by (simp add: sock_live_def)
        ultimately obtain r gs u where "frag_write_all (drop n buf) t = Some (r, u)" "written (drop n buf) t r gs u"
          using less.hyps by blast
        with step n written_more [OF 1] same show ?thesis unfolding k(2) by fastforce
      qed
    next
      case (2 e t)
      with frag_write_all_step(2) [OF False 2] written_failed [OF 2 False] same show ?thesis unfolding k(2) by blast
    qed
  qed
qed

text \<open>C27: Writing through the fragmented stream ends whatever the socket answers, as long as it is not pending for ever:
  with partial writes, writes of no bytes and errors, \<^verbatim>\<open>write_all\<close> returns, and what was sent by then is a prefix of the
  data, the whole of it exactly if the call succeeded, cut so that the segments that begin within the first \<open>frag_bytes\<close>
  bytes have at most \<open>frag_size\<close> bytes; an error is one that the socket reported, or \<^verbatim>\<open>WriteZero\<close> for a
  write that took nothing.\<close>

theorem frag_write_all_returns:
  assumes "\<forall>i. \<exists>j. fs_answer s (i + j) \<noteq> NotReady" and "0 < fs_size s"
  shows "\<exists>r gs t. frag_write_all buf s = Some (r, t) \<and> fs_sent t = fs_sent s @ gs \<and>
     (\<exists>rest. buf = concat gs @ rest \<and> (r = Ok () \<longleftrightarrow> rest = [])) \<and>
     small_first (fs_remaining s) (fs_size s) gs \<and>
     (r = Ok () \<or> (\<exists>e i. r = Err e \<and> (fs_answer s i = Fails e \<or> e = WriteZero \<and> fs_answer s i = Takes 0)))"
proof -
  obtain r gs t where "frag_write_all buf s = Some (r, t)" and w: "written buf s r gs t"
    using frag_write_all_total [of s buf] assms(1) by (auto simp: sock_live_def)
  moreover have "r = Ok () \<or> (\<exists>e i. r = Err e \<and> (fs_answer s i = Fails e \<or> e = WriteZero \<and> fs_answer s i = Takes 0))"
    using w assms(2) by (auto simp: written_def)
  ultimately show ?thesis using w unfolding written_def by blast
qed

definition flaky_answers :: "nat \<Rightarrow> write_answer" where
  "flaky_answers i = (if even i then NotReady else if i = 3 then Fails (IoFault 104) else Takes 1)"

lemma flaky_answers_live: "\<exists>j. flaky_answers (i + j) \<noteq> NotReady"
  by (rule exI [of _ "Suc i"]) (simp add: flaky_answers_def)

theorem frag_write_all_returns_witness:
  "\<exists>r t. frag_write_all [22, 3, 1] (FragmentedStream_new flaky_answers [] 4 3 5) = Some (r, t)"
  using frag_write_all_returns [of "FragmentedStream_new flaky_answers [] 4 3 5" "[22, 3, 1]"] flaky_answers_live
  by (auto simp: FragmentedStream_new_def)

lemma flaky_answers_run:
  "fst (the (frag_write_all [22, 3, 1] (FragmentedStream_new flaky_answers [] 4 3 5))) = Err (IoFault 104)"
  by (simp add: frag_write_all.simps poll_write_def inner_poll_write_def log_event_def FragmentedStream_new_def
      flaky_answers_def)

text \<open>Writing through the fragmented stream loses and reorders nothing, whatever the socket takes
  per write: if every write that is ready takes something, \<^verbatim>\<open>write_all\<close> succeeds, the segments sent are
  the data, and those that begin within the first \<open>frag_bytes\<close> bytes of the connection have
  at most \<open>frag_size\<close> bytes, so a filter sees the start of the handshake only in pieces.\<close>

theorem fragmented_write_all_correct:
  assumes "0 < fs_size s" and "\<forall>i. \<exists>j. fs_answer s (i + j) \<noteq> NotReady"
    and "\<forall>i. fs_answer s i = NotReady \<or> (\<exists>k. fs_answer s i = Takes (Suc k))"
  shows "\<exists>gs t. frag_write_all buf s = Some (Ok (), t) \<and> fs_sent t = fs_sent s @ gs \<and> concat gs = buf \<and>
     small_first (fs_remaining s) (fs_size s) gs \<and> fs_remaining t = fs_remaining s - length buf"
proof -
  obtain r gs t where run: "frag_write_all buf s = Some (r, t)" and w: "written buf s r gs t"
    using frag_write_all_total [of s buf] assms(2) by (auto simp: sock_live_def)
  have "fs_answer s i \<noteq> Takes 0" "fs_answer s i \<noteq> Fails e" for i e
    using spec [OF assms(3), of i] by auto
  with w assms(1) have "r = Ok ()" by (auto simp: written_def)
  with run w show ?thesis by (auto simp: written_def intro!: exI [of _ gs])
qed

theorem fragmented_write_all_correct_witness:
  "\<exists>gs t. frag_write_all [22, 3, 1, 2, 0] (FragmentedStream_new (\<lambda>_. Takes 10) [] 4 3 5) = Some (Ok (), t) \<and>
     fs_sent t = gs \<and> concat gs = [22, 3, 1, 2, 0] \<and> small_first 4 3 gs"
  using fragmented_write_all_correct [of "FragmentedStream_new (\<lambda>_. Takes 10) [] 4 3 5" "[22, 3, 1, 2, 0]"]
  by (auto simp: FragmentedStream_new_def)

text \<open>A stream with fragmentation switched off writes the buffer as it is; reads are those of the socket, and
  leave the writing side alone.\<close>

lemma unfragmented_poll:
  "fs_remaining s = 0 \<Longrightarrow> fs_answer s (fs_calls s) = Takes k \<Longrightarrow> length buf \<le> k \<Longrightarrow> buf \<noteq> [] \<Longrightarrow>
   fs_sent (snd (poll_write buf s)) = fs_sent s @ [buf]"
  by (simp add: poll_write_def inner_poll_write_def Let_def log_event_def min_def)

lemma poll_read_leaves_writes:
  assumes "poll_read cap s = (r, t)"
  shows "fs_log t = fs_log s" and "fs_remaining t = fs_remaining s" and "fs_calls t = fs_calls s"
    and "r = Some (Ok bs) \<Longrightarrow> length bs \<le> cap"
  using assms by (auto simp: poll_read_def inner_poll_read_def split: list.splits read_answer.splits if_splits)

subsection \<open>The unused routine\<close>

lemma inner_write_returns:
  assumes "sock_live s" and "xs \<noteq> []"
  obtains r t where "inner_write xs s = Some (r, t)" and "fs_answer t = fs_answer s" and "fs_size t = fs_size s"
    and "\<And>n. r = Ok n \<Longrightarrow> (\<forall>i. fs_answer s i \<noteq> Takes 0) \<Longrightarrow> 0 < n"
proof -
  obtain k where k: "sock_ready (skip_polls k s)" "inner_write xs s = inner_write xs (skip_polls k s)"
    by (rule inner_write_live [OF assms(1)])
  let ?s = "skip_polls k s"
  show thesis
  proof (cases "fs_answer s (fs_calls ?s)")
    case (Takes m)
    then have w: "inner_write xs s = Some (Ok (min m (length xs)), snd (inner_poll_write xs ?s))"
      unfolding k(2) by (subst inner_write.simps) (simp add: inner_poll_write_def Let_def)
    have "0 < min m (length xs)" if "\<forall>i. fs_answer s i \<noteq> Takes 0"
      using that [rule_format, of "fs_calls ?s"] Takes assms(2) by auto
    then show thesis
      using Takes by (intro that [OF w]) (auto simp: inner_poll_write_def Let_def log_event_def)
  next
    case (Fails e)
    then have "inner_write xs s = Some (Err e, snd (inner_poll_write xs ?s))"
      unfolding k(2) by (subst inner_write.simps) (simp add: inner_poll_write_def Let_def)
    then show thesis by (rule that) (use Fails in \<open>simp_all add: inner_poll_write_def Let_def\<close>)
  qed (use k(1) in \<open>simp add: sock_ready_def\<close>)
qed

text \<open>What an iteration does after a write.\<close>

definition after_write :: "nat \<Rightarrow> frag_stream \<Rightarrow> frag_stream" where
  "after_write n t =
     (let t = log_event Flushed t;
          t = t\<lparr>fs_remaining := fs_remaining t - n\<rparr>
      in if 0 < fs_remaining t \<and> 0 < fs_delay_ms t then log_event (Slept (fs_delay_ms t)) t else t)"

lemma after_write_simps [simp]:
  "fs_answer (after_write n t) = fs_answer t" "fs_size (after_write n t) = fs_size t"
  "fs_calls (after_write n t) = fs_calls t" "fs_remaining (after_write n t) = fs_remaining t - n"
  by (simp_all add: after_write_def log_event_def Let_def)

lemma fragmented_loop_unfold:
  assumes "0 < fs_remaining s" and "k < length buf"
    and "c = min (min (fs_size s) (fs_remaining s)) (length buf - k)"
    and "inner_write (take c (drop k buf)) s = Some (r, t)"
  shows "fragmented_loop buf k s =
     (case r of Ok n \<Rightarrow> fragmented_loop buf (k + n) (after_write n t) | Err e \<Rightarrow> Some (Err e, t) | Panic \<Rightarrow> Some (Panic, t))"
  using assms by (subst fragmented_loop.simps) (simp add: after_write_def Let_def split: res.split)

lemma fragmented_loop_returns:
  assumes "0 < fs_size s" and "sock_live s" and "\<forall>i. fs_answer s i \<noteq> Takes 0"
  shows "\<exists>r t. fragmented_loop buf k s = Some (r, t) \<and> sock_live t"
  using assms
proof (induction "length buf - k" arbitrary: k s rule: less_induct)
  case less
  show ?case
  proof (cases "0 < fs_remaining s \<and> k < length buf")
    case False
    with less.prems(2) show ?thesis by (subst fragmented_loop.simps) auto
  next
    case True
    define c where "c = min (min (fs_size s) (fs_remaining s)) (length buf - k)"
    have "take c (drop k buf) \<noteq> []" using True less.prems(1) by (simp add: c_def)
    from inner_write_returns [OF less.prems(2) this] obtain r t where
      w: "inner_write (take c (drop k buf)) s = Some (r, t)" "fs_answer t = fs_answer s" "fs_size t = fs_size s"
        "\<And>n. r = Ok n \<Longrightarrow> 0 < n"
      using less.prems(3) by metis
    have live: "sock_live t" "sock_live (after_write n t)" for n
      using less.prems(2) w(2) by (simp_all add: sock_live_def)
    note unfold = fragmented_loop_unfold [OF conjunct1 [OF True] conjunct2 [OF True] c_def w(1)]
    show ?thesis
    proof (cases r)
      case (Ok n)
      with w(4) True have "length buf - (k + n) < length buf - k" by fastforce
      from less.hyps [OF this, of "after_write n t"] less.prems w(2,3) live(2) Ok
      show ?thesis by (simp add: unfold)
    qed (use live(1) in \<open>simp_all add: unfold\<close>)
  qed
qed

lemma fragmented_loop_stuck:
  assumes "fragmented_loop buf k s = Some r"
  shows "\<not> (0 < fs_remaining s \<and> k < length buf \<and> (\<forall>i. fs_answer s i = Takes 0))"
proof (rule fragmented_loop.raw_induct [OF _ assms])
  fix loop buf k s r
  assume ih: "\<And>buf k s r. loop buf k s = Some r \<Longrightarrow>
      \<not> (0 < fs_remaining s \<and> k < length buf \<and> (\<forall>i. fs_answer s i = Takes 0))"
    and run: "(if 0 < fs_remaining s \<and> k < length buf then
        let chunk_size = min (min (fs_size s) (fs_remaining s)) (length buf - k) in
        case inner_write (take chunk_size (drop k buf)) s of
          None \<Rightarrow> None
        | Some (Err e, t) \<Rightarrow> Some (Err e, t)
        | Some (Panic, t) \<Rightarrow> Some (Panic, t)
        | Some (Ok n, t) \<Rightarrow>
            let t = log_event Flushed t;
                t = t\<lparr>fs_remaining := fs_remaining t - n\<rparr>;
                t = (if 0 < fs_remaining t \<and> 0 < fs_delay_ms t then log_event (Slept (fs_delay_ms t)) t else t)
            in loop buf (k + n) t
      else Some (Ok k, s)) = Some r"
  show "\<not> (0 < fs_remaining s \<and> k < length buf \<and> (\<forall>i. fs_answer s i = Takes 0))"
  proof
    assume stuck: "0 < fs_remaining s \<and> k < length buf \<and> (\<forall>i. fs_answer s i = Takes 0)"
    let ?t = "s\<lparr>fs_calls := Suc (fs_calls s)\<rparr>"
    have iw: "inner_write xs s = Some (Ok 0, ?t)" for xs
      using stuck by (subst inner_write.simps) (simp add: inner_poll_write_def Let_def)
    have "loop buf k (after_write 0 ?t) = Some r"
      using run stuck unfolding iw by (simp add: after_write_def Let_def)
    then have "\<not> (0 < fs_remaining (after_write 0 ?t) \<and> k < length buf \<and> (\<forall>i. fs_answer (after_write 0 ?t) i = Takes 0))"
      by (rule ih)
    with stuck show False by simp
  qed
qed

text \<open>The routine \<^verbatim>\<open>fragmented_write\<close> returns on a live socket whose writes take something or fail, but
  spins for ever on a socket that takes nothing (which \<^verbatim>\<open>write\<close> may report as a write of no
  bytes), where the runtime's own loop would report \<^verbatim>\<open>WriteZero\<close>.\<close>

theorem fragmented_write_may_spin:
  assumes "0 < fs_size s" and "0 < fs_remaining s" and "buf \<noteq> []"
  shows "((\<forall>i. \<exists>j. fs_answer s (i + j) \<noteq> NotReady) \<and> (\<forall>i. fs_answer s i \<noteq> Takes 0) \<longrightarrow>
            (\<exists>r. fragmented_write buf s = Some r)) \<and>
         ((\<forall>i. fs_answer s i = Takes 0) \<longrightarrow>
            fragmented_write buf s = None \<and> (\<exists>t. frag_write_all buf s = Some (Err WriteZero, t)))"
proof (intro conjI impI)
  assume a: "(\<forall>i. \<exists>j. fs_answer s (i + j) \<noteq> NotReady) \<and> (\<forall>i. fs_answer s i \<noteq> Takes 0)"
  with fragmented_loop_returns [OF assms(1), of buf 0] obtain r t where
    l: "fragmented_loop buf 0 s = Some (r, t)" "sock_live t" by (auto simp: sock_live_def)
  show "\<exists>r. fragmented_write buf s = Some r"
  proof (cases r)
    case (Ok m)
    show ?thesis
    proof (cases "m < length buf")
      case True
      then have "drop m buf \<noteq> []" by simp
      from inner_write_returns [OF l(2) this] obtain q u where "inner_write (drop m buf) t = Some (q, u)" by metis
      with assms(2,3) l(1) Ok True show ?thesis by (cases q) (simp_all add: fragmented_write_def)
    qed (use assms(2,3) l(1) Ok in \<open>simp add: fragmented_write_def\<close>)
  qed (use assms(2,3) l(1) in \<open>simp_all add: fragmented_write_def\<close>)
next
  assume z: "\<forall>i. fs_answer s i = Takes 0"
  have "fragmented_loop buf 0 s = None"
    using fragmented_loop_stuck [of buf 0 s] assms(2,3) z by (cases "fragmented_loop buf 0 s") auto
  with assms(2,3) show "fragmented_write buf s = None" by (simp add: fragmented_write_def)
  show "\<exists>t. frag_write_all buf s = Some (Err WriteZero, t)"
    using z assms(3)
    by (subst frag_write_all.simps) (simp add: poll_write_def inner_poll_write_def Let_def)
qed

theorem fragmented_write_may_spin_witness:
  "fragmented_write [1, 2, 3] (FragmentedStream_new (\<lambda>_. Takes 0) [] 2 1 5) = None"
  using fragmented_write_may_spin [of "FragmentedStream_new (\<lambda>_. Takes 0) [] 2 1 5" "[1, 2, 3]"]
  by (simp add: FragmentedStream_new_def)

end
