(* ===== verification/Client_Socks.thy ===== *)
theory Client_Socks
  imports Tunnel
begin

section \<open>The SOCKS5 front of the client\<close>

text \<open>
  ghost-client/src/lib.rs: \<^verbatim>\<open>handle_socks5_client\<close>, \<^verbatim>\<open>socks5_reply\<close> and the accept loop. The
  handler reads everything into one array of 256 bytes; a slice of it that is longer panics.
\<close>

datatype SocksError =
    NotSocks5 u8
  | NoAcceptableMethod
  | BadRequestVersion u8
  | UnsupportedCommand u8
  | BadDomainLength nat
  | DomainNotUtf8
  | UnsupportedAddrType u8
  | SocksIo io_error

definition SOCKS_BUF_LEN :: nat where
  "SOCKS_BUF_LEN = 256"

definition read_buf :: "nat \<Rightarrow> (conn, SocksError, bytes) stm" where
  "read_buf n =
     (if SOCKS_BUF_LEN < n then panic else with_err SocksIo (on_in (read_exact n)))"

fun socks5_reply :: "u8 \<Rightarrow> TargetAddr \<Rightarrow> bytes" where
  "socks5_reply rep TargetNone = [0x05, rep, 0x00] @ [0x01] @ [0, 0, 0, 0] @ be16 0"
| "socks5_reply rep (IpV4 a) = [0x05, rep, 0x00] @ [0x01] @ be32 (v4_ip a) @ be16 (v4_port a)"
| "socks5_reply rep (IpV6 a) = [0x05, rep, 0x00] @ [0x04] @ be128 (v6_ip a) @ be16 (v6_port a)"
| "socks5_reply rep (Domain d p) = [0x05, rep, 0x00] @ [0x03] @ [of_nat (length d)] @ d @ be16 p"

text \<open>The address of a request, by its type.\<close>

definition read_target :: "u8 \<Rightarrow> (conn, SocksError, TargetAddr) stm" where
  "read_target atyp =
     (if atyp = 0x01 then
        bind (read_buf 6) (\<lambda>buf.
        ret (IpV4 (socket_v4 (of_be32 (take 4 buf)) (of_be16 (drop 4 buf)))))
      else if atyp = 0x03 then
        bind (read_buf 1) (\<lambda>buf.
        let domain_len = unat (buf ! 0) in
        if domain_len = 0 \<or> domain_len > 255 then throw (BadDomainLength domain_len)
        else
          bind (read_buf (domain_len + 2)) (\<lambda>buf.
          case from_utf8 (take domain_len buf) of
            None \<Rightarrow> throw DomainNotUtf8
          | Some domain \<Rightarrow> ret (Domain domain (of_be16 (drop domain_len buf)))))
      else if atyp = 0x04 then
        bind (read_buf 18) (\<lambda>buf.
        ret (IpV6 (socket_v6 (of_be128 (take 16 buf)) (of_be16 (drop 16 buf)))))
      else throw (UnsupportedAddrType atyp))"

definition socks_write :: "bytes \<Rightarrow> (conn, SocksError, unit) stm" where
  "socks_write bs = with_err SocksIo (on_out (write_all bs))"

text \<open>The greeting and the request, up to the success reply: what the tunnel is then asked for.\<close>

definition socks5_handshake :: "(conn, SocksError, TargetAddr) stm" where
  "socks5_handshake =
     bind (read_buf 2) (\<lambda>buf.
     let version = buf ! 0; nmethods = unat (buf ! 1) in
     if version \<noteq> 0x05 then throw (NotSocks5 version)
     else
       bind (if nmethods > 0 then read_buf nmethods else ret []) (\<lambda>methods.
       let no_auth_supported = (0x00 \<in> set methods) in
       if \<not> no_auth_supported then
         bind (socks_write [0x05, 0xFF]) (\<lambda>_. throw NoAcceptableMethod)
       else
         bind (socks_write [0x05, 0x00]) (\<lambda>_.
         bind (read_buf 4) (\<lambda>buf.
         let version = buf ! 0; cmd = buf ! 1; atyp = buf ! 3 in
         if version \<noteq> 0x05 then throw (BadRequestVersion version)
         else if cmd \<noteq> 0x01 then
           bind (socks_write (socks5_reply 0x07 (Domain (lit ''0.0.0.0'') 0))) (\<lambda>_.
           throw (UnsupportedCommand cmd))
         else
           bind (read_target atyp) (\<lambda>target_addr.
           bind (socks_write (socks5_reply 0x00 (IpV4 (socket_v4 0 0)))) (\<lambda>_.
           ret target_addr))))))"

datatype ProxyError = SocksFailed SocksError | TunnelFailed ClientError

inductive handle_socks5_client ::
  "'r client_env \<Rightarrow> 'r \<Rightarrow> ClientConfig \<Rightarrow> conn \<Rightarrow> (ProxyError, unit) res \<Rightarrow> 'r endpoint option \<Rightarrow> bool"
  for env g config stream where
  socks_fails: "socks5_handshake stream = (Err e, stream') \<Longrightarrow>
    handle_socks5_client env g config stream (Err (SocksFailed e)) None"
| socks_panics: "socks5_handshake stream = (Panic, stream') \<Longrightarrow>
    handle_socks5_client env g config stream Panic None"
| socks_tunnel: "socks5_handshake stream = (Ok target_addr, stream') \<Longrightarrow>
    proxy_through_ghost env g config stream' target_addr r s \<Longrightarrow>
    handle_socks5_client env g config stream (map_err TunnelFailed r) s"

inductive_cases handle_socks5_client_cases: "handle_socks5_client env g config stream r s"

text \<open>
  \<^verbatim>\<open>run_with_ready\<close>: bind, tell the caller that the port is open, accept. The result says
  whether the ready signal was sent, which connections were handed to the handler, and how the
  loop ended.
\<close>

definition run_with_ready ::
  "(bytes \<Rightarrow> (io_error, unit) res) \<Rightarrow> ClientConfig \<Rightarrow> bool \<Rightarrow> (io_error, conn) res list \<Rightarrow>
     bool \<times> (ClientConfig \<times> conn) list \<times> (io_error, unit) res option" where
  "run_with_ready bind_to config ready accepts =
     (case bind_to (cc_socks5_listen config) of
        Ok _ \<Rightarrow> (case accept_loop (\<lambda>stream. (config, stream)) accepts of (cs, stop) \<Rightarrow> (ready, cs, stop))
      | Err e \<Rightarrow> (False, [], Some (Err e))
      | Panic \<Rightarrow> (False, [], Some Panic))"

text \<open>\<^verbatim>\<open>run\<close>, for callers that do not wait, and \<^verbatim>\<open>main\<close>, which has no configuration but the default.\<close>

definition ghost_client_run ::
  "(bytes \<Rightarrow> (io_error, unit) res) \<Rightarrow> ClientConfig \<Rightarrow> (io_error, conn) res list \<Rightarrow>
     bool \<times> (ClientConfig \<times> conn) list \<times> (io_error, unit) res option" where
  "ghost_client_run bind_to config = run_with_ready bind_to config False"

definition client_main ::
  "(bytes \<Rightarrow> (io_error, unit) res) \<Rightarrow> (io_error, conn) res list \<Rightarrow>
     bool \<times> (ClientConfig \<times> conn) list \<times> (io_error, unit) res option" where
  "client_main bind_to = (let config = ClientConfig_default in ghost_client_run bind_to config)"

subsection \<open>Requests that are accepted\<close>

lemma read_buf_Ok:
  "n \<le> SOCKS_BUF_LEN \<Longrightarrow> n \<le> length (src_data (c_in c)) \<Longrightarrow>
   read_buf n c = (Ok (take n (src_data (c_in c))), c\<lparr>c_in := advance n (c_in c)\<rparr>)"
  by (simp add: read_buf_def with_err_def on_in_def read_exact_advance)

lemma read_buf_OkD:
  "read_buf n c = (Ok bs, c') \<Longrightarrow>
     src_data (c_in c) = bs @ src_data (c_in c') \<and> length bs = n \<and> c_out c' = c_out c"
  using read_exact_Ok [of n "c_in c" bs "c_in c'"]
  by (auto simp: read_buf_def on_in_def split: if_splits prod.splits)

lemma read_buf_Panic: "read_buf n c = (Panic, c') \<longleftrightarrow> SOCKS_BUF_LEN < n \<and> c' = c"
  by (cases "read_exact n (c_in c)")
    (auto simp: read_buf_def with_err_def on_in_def)

lemma socks_write_unlimited:
  "wr_limit (c_out c) = None \<Longrightarrow>
   socks_write bs c = (Ok (), c\<lparr>c_out := (c_out c)\<lparr>wr_data := wr_data (c_out c) @ bs\<rparr>\<rparr>)"
  by (simp add: socks_write_def with_err_def on_out_def)

lemma read_buf_get:
  assumes "src_data (c_in c) = bs @ rest" and "length bs = n" and "n \<le> SOCKS_BUF_LEN"
  obtains c' where "read_buf n c = (Ok bs, c')" and "src_data (c_in c') = rest" and "c_out c' = c_out c"
  using read_buf_Ok [of n c] assms by (auto simp: that)

lemma socks_write_put:
  assumes "wr_limit (c_out c) = None"
  obtains c' where "socks_write bs c = (Ok (), c')" and "c_in c' = c_in c"
    and "c_out c' = (c_out c)\<lparr>wr_data := wr_data (c_out c) @ bs\<rparr>"
  using socks_write_unlimited [OF assms] by (auto simp: that)

text \<open>After the greeting and the head of a CONNECT request, what is left is the address.\<close>

lemma handshake_connect:
  assumes "src_data (c_in c) = [5, of_nat (length methods)] @ methods @ [5, 1, rsv, atyp] @ rest"
    and "0 \<in> set methods" and "length methods \<le> 255" and "wr_limit (c_out c) = None"
  obtains c' where
    "socks5_handshake c = bind (read_target atyp) (\<lambda>target_addr.
       bind (socks_write (socks5_reply 0x00 (IpV4 (socket_v4 0 0)))) (\<lambda>_. ret target_addr)) c'"
    and "src_data (c_in c') = rest"
    and "c_out c' = (c_out c)\<lparr>wr_data := wr_data (c_out c) @ [5, 0]\<rparr>"
proof -
  let ?m = "length methods"
  have m: "0 < ?m" "unat (of_nat ?m :: u8) = ?m"
    using assms(2,3) by (auto intro: length_pos_if_in_set)
  have b: "?m \<le> SOCKS_BUF_LEN" using assms(3) by (simp add: SOCKS_BUF_LEN_def)
  obtain c1 where c1: "read_buf 2 c = (Ok [5, of_nat ?m], c1)"
    "src_data (c_in c1) = methods @ [5, 1, rsv, atyp] @ rest" "c_out c1 = c_out c"
    by (rule read_buf_get [OF assms(1), of 2]) (simp_all add: SOCKS_BUF_LEN_def)
  obtain c2 where c2: "read_buf ?m c1 = (Ok methods, c2)"
    "src_data (c_in c2) = [5, 1, rsv, atyp] @ rest" "c_out c2 = c_out c1"
    by (rule read_buf_get [OF c1(2) refl b])
  have "wr_limit (c_out c2) = None" using c1(3) c2(3) assms(4) by simp
  then obtain c3 where c3: "socks_write [5, 0] c2 = (Ok (), c3)" "c_in c3 = c_in c2"
    "c_out c3 = (c_out c2)\<lparr>wr_data := wr_data (c_out c2) @ [5, 0]\<rparr>"
    by (rule socks_write_put)
  have d3: "src_data (c_in c3) = [5, 1, rsv, atyp] @ rest" using c2(2) c3(2) by simp
  obtain c4 where c4: "read_buf 4 c3 = (Ok [5, 1, rsv, atyp], c4)"
    "src_data (c_in c4) = rest" "c_out c4 = c_out c3"
    by (rule read_buf_get [OF d3, of 4]) (simp_all add: SOCKS_BUF_LEN_def)
  have "socks5_handshake c = bind (read_target atyp) (\<lambda>target_addr.
       bind (socks_write (socks5_reply 0x00 (IpV4 (socket_v4 0 0)))) (\<lambda>_. ret target_addr)) c4"
    using m assms(2) unfolding socks5_handshake_def Let_def
    by (simp add: bind_Ok c1(1) c2(1) c3(1) c4(1)
        del: socks5_reply.simps)
  then show thesis
    by (rule that) (use c4 c3 c2 c1 in simp_all)
qed

lemma read_target_wire:
  assumes "wf_addr t" and "t \<noteq> TargetNone" and "addr_wire t = atyp # body"
    and "length body \<le> 257" and "src_data (c_in c) = body @ rest"
  obtains c' where "read_target atyp c = (Ok t, c')" and "src_data (c_in c') = rest" and "c_out c' = c_out c"
proof (cases t)
  case (IpV4 a)
  with assms show thesis
    by (intro that [of "c\<lparr>c_in := advance 6 (c_in c)\<rparr>"])
      (auto simp: read_target_def bind_def read_buf_Ok SOCKS_BUF_LEN_def socket_v4_def protocol_consts)
next
  case (IpV6 a)
  with assms show thesis
    by (intro that [of "c\<lparr>c_in := advance 18 (c_in c)\<rparr>"])
      (auto simp: read_target_def bind_def read_buf_Ok SOCKS_BUF_LEN_def socket_v6_def protocol_consts)
next
  case (Domain d p)
  let ?n = "length d"
  from assms Domain have n: "1 \<le> ?n" "?n \<le> 254" "utf8_valid d"
    and b: "atyp = 3" "body = of_nat ?n # d @ be16 p"
    by (auto simp: protocol_consts)
  let ?c = "c\<lparr>c_in := advance 1 (c_in c)\<rparr>"
  let ?c' = "?c\<lparr>c_in := advance (?n + 2) (c_in ?c)\<rparr>"
  have r1: "read_buf 1 c = (Ok [of_nat ?n], ?c)"
    using assms(5) b by (simp add: read_buf_Ok SOCKS_BUF_LEN_def)
  have r2: "read_buf (?n + 2) ?c = (Ok (d @ be16 p), ?c')"
    using assms(5) b n by (subst read_buf_Ok) (simp_all add: SOCKS_BUF_LEN_def)
  have "d \<noteq> []" using n by auto
  then have "read_target atyp c = (Ok t, ?c')"
    using n b r1 r2 Domain by (simp add: read_target_def bind_def Let_def from_utf8_def)
  then show thesis by (rule that) (use assms(5) b in simp_all)
qed (use assms in simp)

text \<open>A request as a SOCKS5 client sends it: greeting with the given methods, then CONNECT.\<close>

definition socks5_request :: "bytes \<Rightarrow> TargetAddr \<Rightarrow> bytes" where
  "socks5_request methods t =
     [5, of_nat (length methods)] @ methods @ [5, 1, 0] @ addr_wire t"

lemma be_bytes_zero: "be_bytes n 0 = replicate n 0"
  by (induction n) (simp_all add: replicate_append_same)

lemma success_reply: "socks5_reply 0 (IpV4 (socket_v4 0 0)) = [5, 0, 0, 1, 0, 0, 0, 0, 0, 0]"
  by (simp add: socket_v4_def be32_def be16_def be_bytes_zero) (simp add: numeral_eq_Suc)

lemma socks5_connect_understood:
  assumes "wf_addr t" and "t \<noteq> TargetNone" and "length (addr_wire t) \<le> 258"
    and "0 \<in> set methods" and "length methods \<le> 255"
    and "src_data (c_in c) = socks5_request methods t @ rest" and "wr_limit (c_out c) = None"
  shows "\<exists>c'. socks5_handshake c = (Ok t, c') \<and> src_data (c_in c') = rest \<and>
     c_out c' = (c_out c)\<lparr>wr_data := wr_data (c_out c) @ [5, 0] @ [5, 0, 0, 1, 0, 0, 0, 0, 0, 0]\<rparr>"
proof -
  obtain atyp body where w: "addr_wire t = atyp # body" by (cases "addr_wire t") (cases t, auto)
  have d: "src_data (c_in c) = [5, of_nat (length methods)] @ methods @ [5, 1, 0, atyp] @ body @ rest"
    using assms(6) w by (simp add: socks5_request_def)
  obtain c4 where c4: "socks5_handshake c = bind (read_target atyp) (\<lambda>target_addr.
       bind (socks_write (socks5_reply 0x00 (IpV4 (socket_v4 0 0)))) (\<lambda>_. ret target_addr)) c4"
    "src_data (c_in c4) = body @ rest" "c_out c4 = (c_out c)\<lparr>wr_data := wr_data (c_out c) @ [5, 0]\<rparr>"
    by (rule handshake_connect [OF d assms(4,5,7)])
  have "length body \<le> 257" using assms(3) w by simp
  from read_target_wire [OF assms(1,2) w this c4(2)] obtain c5 where
    r4: "read_target atyp c4 = (Ok t, c5)" "src_data (c_in c5) = rest" "c_out c5 = c_out c4" .
  have reply: "socks5_reply 0 (IpV4 (socket_v4 0 0)) = [5, 0, 0, 1, 0, 0, 0, 0, 0, 0]"
    by (rule success_reply)
  have "wr_limit (c_out c5) = None" using r4(3) c4(3) assms(7) by simp
  then obtain c6 where c6: "socks_write (socks5_reply 0 (IpV4 (socket_v4 0 0))) c5 = (Ok (), c6)"
    "c_in c6 = c_in c5" "c_out c6 = (c_out c5)\<lparr>wr_data := wr_data (c_out c5) @ [5, 0, 0, 1, 0, 0, 0, 0, 0, 0]\<rparr>"
    unfolding reply by (rule socks_write_put)
  have "socks5_handshake c = (Ok t, c6)"
    unfolding c4(1) by (simp add: bind_Ok r4(1) c6(1) del: socks5_reply.simps)
  then show ?thesis using r4(2,3) c4(3) c6(2,3) by simp
qed

text \<open>Every CONNECT request for an address the wire format can carry, except domains of 255 bytes, is
  understood: the handshake ends with exactly the target asked for, has answered the greeting
  and reported success, and leaves what follows the request for the tunnel. The success
  reply is sent before the tunnel is tried, whatever becomes of it.\<close>

theorem socks5_request_accepted:
  assumes "wf_addr t" and "t \<noteq> TargetNone" and "length (addr_wire t) \<le> 258"
    and "0 \<in> set methods" and "length methods \<le> 255"
    and "src_data (c_in c) = socks5_request methods t @ rest" and "wr_limit (c_out c) = None"
  shows "\<exists>c'. socks5_handshake c = (Ok t, c') \<and> src_data (c_in c') = rest \<and>
     c_out c' = (c_out c)\<lparr>wr_data := wr_data (c_out c) @ [5, 0] @ [5, 0, 0, 1, 0, 0, 0, 0, 0, 0]\<rparr>"
  using assms by (rule socks5_connect_understood)

definition example_request :: bytes where
  "example_request = socks5_request [2, 0] (Domain (lit ''example.com'') 443)"

theorem socks5_request_accepted_witness:
  "fst (socks5_handshake (fresh_conn [example_request @ [9]])) = Ok (Domain (lit ''example.com'') 443)"
proof -
  let ?t = "Domain (lit ''example.com'') 443"
  have "wf_addr ?t" by (simp add: is_ascii_utf8_valid)
  then show ?thesis
    using socks5_request_accepted [of ?t "[2, 0]" "fresh_conn [example_request @ [9]]" "[9]"]
    by (auto simp: example_request_def)
qed

subsection \<open>When the handler panics\<close>

lemma panic_free_read_buf [panic_free_intros]: "n \<le> SOCKS_BUF_LEN \<Longrightarrow> panic_free (read_buf n) c"
  using read_buf_Panic [of n c] by (cases "read_buf n c") (auto simp: panic_free_def)

lemma panic_free_socks_write [panic_free_intros]: "panic_free (socks_write bs) c"
  unfolding socks_write_def by (intro panic_free_intros)

lemma read_target_no_panic:
  assumes "\<not> (atyp = 3 \<and> (\<exists>rest. src_data (c_in c) = 255 # rest))"
  shows "panic_free (read_target atyp) c"
proof -
  have len: "unat (buf ! 0) + 2 \<le> SOCKS_BUF_LEN"
    if "atyp = 3" and "read_buf 1 c = (Ok buf, c')" for buf c'
  proof -
    from read_buf_OkD [OF that(2)] obtain x where x: "buf = [x]" "src_data (c_in c) = x # src_data (c_in c')"
      using byte_list_1 [of buf] by auto
    with assms that(1) have "x \<noteq> 255" by auto
    then have "unat x \<noteq> 255" by (metis of_nat_numeral of_nat_unat_u8)
    moreover have "unat x < 256" by simp
    ultimately have "unat x + 2 \<le> 256" by linarith
    with x(1) show ?thesis by (simp add: SOCKS_BUF_LEN_def)
  qed
  show ?thesis
    unfolding read_target_def
    by (intro panic_free_intros) (use len in \<open>auto simp: SOCKS_BUF_LEN_def\<close>)
qed

lemma read_target_panics:
  assumes "src_data (c_in c) = 255 # rest"
  shows "fst (read_target 3 c) = Panic"
  using assms by (simp add: read_target_def bind_def read_buf_Ok SOCKS_BUF_LEN_def Let_def)
    (simp add: read_buf_def SOCKS_BUF_LEN_def)

lemma panic_free_Panic: "panic_free m c \<longleftrightarrow> fst (m c) \<noteq> Panic"
  by (simp add: panic_free_def)

text \<open>What the handler has read when it comes to the address.\<close>

lemma read_so_far:
  assumes b1: "read_buf 2 c = (Ok buf1, c1)" "buf1 ! 0 = 5"
    and b2: "(if 0 < unat (buf1 ! 1) then read_buf (unat (buf1 ! 1)) else ret []) c1 = (Ok ms, c2)"
    and w: "socks_write [5, 0] c2 = (Ok u, c3)"
    and b3: "read_buf 4 c3 = (Ok buf3, c4)" "buf3 ! 0 = 5" "buf3 ! 1 = 1"
  shows "src_data (c_in c) = [5, of_nat (length ms)] @ ms @ [5, 1, buf3 ! 2, buf3 ! 3] @ src_data (c_in c4)"
    and "length ms \<le> 255"
proof -
  from read_buf_OkD [OF b1(1)] have s1: "src_data (c_in c) = buf1 @ src_data (c_in c1)" "length buf1 = 2" by auto
  have s2: "src_data (c_in c1) = ms @ src_data (c_in c2)" "length ms = unat (buf1 ! 1)"
    using b2 read_buf_OkD [of "unat (buf1 ! 1)" c1 ms c2] by (auto split: if_splits)
  have s3: "c_in c3 = c_in c2" using w by (auto simp: socks_write_def on_out_OkD)
  from read_buf_OkD [OF b3(1)] have s4: "src_data (c_in c3) = buf3 @ src_data (c_in c4)" "length buf3 = 4" by auto
  have "buf1 = [5, of_nat (length ms)]"
    using s1(2) s2(2) b1(2) by (intro nth_equalityI) (auto simp: less_Suc_eq numeral_2_eq_2)
  moreover have "buf3 = [5, 1, buf3 ! 2, buf3 ! 3]"
    using s4(2) b3(2,3) by (intro nth_equalityI) (auto simp: less_Suc_eq numeral_eq_Suc)
  ultimately show "src_data (c_in c) = [5, of_nat (length ms)] @ ms @ [5, 1, buf3 ! 2, buf3 ! 3] @ src_data (c_in c4)"
    using s1(1) s2(1) s3 s4(1) by (metis append.assoc)
  show "length ms \<le> 255" using s2(2) unat_byte_lt [of "buf1 ! 1"] by linarith
qed

text \<open>C19: The handler panics on exactly one kind of input: a greeting that offers no authentication,
  then a CONNECT for a domain whose length byte is 255, whose 257 bytes of name and port do
  not fit the array of 256. On every other byte stream it returns a target or an error.\<close>

theorem socks5_panics_iff:
  assumes "wr_limit (c_out c) = None"
  shows "fst (socks5_handshake c) = Panic \<longleftrightarrow>
    (\<exists>methods rsv rest. src_data (c_in c) =
       [5, of_nat (length methods)] @ methods @ [5, 1, rsv, 3, 255] @ rest \<and>
       0 \<in> set methods \<and> length methods \<le> 255)"
proof
  assume p: "fst (socks5_handshake c) = Panic"
  show "\<exists>methods rsv rest. src_data (c_in c) =
       [5, of_nat (length methods)] @ methods @ [5, 1, rsv, 3, 255] @ rest \<and>
       0 \<in> set methods \<and> length methods \<le> 255"
  proof (rule ccontr)
    assume no: "\<not> ?thesis"
    have lens: "unat (x :: u8) \<le> SOCKS_BUF_LEN" for x
      using unat_byte_lt [of x] unfolding SOCKS_BUF_LEN_def by linarith
    have tgt: "panic_free (read_target (buf3 ! 3)) c4"
      if "read_buf 2 c = (Ok buf1, c1)" "buf1 ! 0 = 5"
        and "(if 0 < unat (buf1 ! 1) then read_buf (unat (buf1 ! 1)) else ret []) c1 = (Ok ms, c2)"
        and z: "0 \<in> set ms"
        and "socks_write [5, 0] c2 = (Ok u, c3)"
        and "read_buf 4 c3 = (Ok buf3, c4)" "buf3 ! 0 = 5" "buf3 ! 1 = 1"
      for buf1 c1 ms c2 u c3 buf3 c4
      by (rule read_target_no_panic) (use read_so_far [OF that(1-3,5-8)] no z in auto)
    have "panic_free socks5_handshake c"
      unfolding socks5_handshake_def Let_def
      by (intro panic_free_intros; (rule tgt; (assumption | blast)?)?)
        (auto simp: SOCKS_BUF_LEN_def intro: lens [unfolded SOCKS_BUF_LEN_def])
    with p show False by (simp add: panic_free_def)
  qed
next
  assume "\<exists>methods rsv rest. src_data (c_in c) =
       [5, of_nat (length methods)] @ methods @ [5, 1, rsv, 3, 255] @ rest \<and>
       0 \<in> set methods \<and> length methods \<le> 255"
  then obtain methods rsv rest where
    d: "src_data (c_in c) = [5, of_nat (length methods)] @ methods @ [5, 1, rsv, 3, 255] @ rest"
    and z: "0 \<in> set methods" and l: "length methods \<le> 255" by blast
  have d': "src_data (c_in c) = [5, of_nat (length methods)] @ methods @ [5, 1, rsv, 3] @ (255 # rest)"
    using d by simp
  obtain c4 where c4: "socks5_handshake c = bind (read_target 3) (\<lambda>target_addr.
       bind (socks_write (socks5_reply 0x00 (IpV4 (socket_v4 0 0)))) (\<lambda>_. ret target_addr)) c4"
    "src_data (c_in c4) = 255 # rest"
    by (rule handshake_connect [OF d' z l assms]) auto
  from read_target_panics [OF c4(2)] obtain c5 where "read_target 3 c4 = (Panic, c5)"
    by (metis prod.collapse)
  then show "fst (socks5_handshake c) = Panic"
    unfolding c4(1) by (simp add: bind_Panic del: socks5_reply.simps)
qed

theorem socks5_panics_iff_witness:
  "fst (socks5_handshake (fresh_conn [[5, 1, 0], [5, 1, 0, 3, 255], replicate 257 97])) = Panic"
proof -
  have "src_data (c_in (fresh_conn [[5, 1, 0], [5, 1, 0, 3, 255], replicate 257 97])) =
      [5, of_nat (length [0 :: u8])] @ [0] @ [5, 1, 0, 3, 255] @ replicate 257 97" by simp
  then show ?thesis
    using socks5_panics_iff [of "fresh_conn [[5, 1, 0], [5, 1, 0, 3, 255], replicate 257 97]"]
    by (metis fresh_conn_simps(2) fresh_writer_simps(2) le0 length_Cons list.set_intros(1) list.size(3)
        numeral_One Suc_le_mono one_le_numeral One_nat_def)
qed

end
