(* ===== verification/Client_Types.thy ===== *)
theory Client_Types
  imports Client_Socks
begin

section \<open>Well-formedness from the SOCKS5 request to the wire\<close>

text \<open>
  The type of a target address is wider than what the wire format carries (a domain may be longer than 255 bytes or not be
  UTF-8, an IPv6 address may have a scope), and the encoder panics on some of it. Here: what the SOCKS5 front hands to
  the tunnel is always in the format, so that the rest of the client does not panic on it.
\<close>

subsection \<open>What the front hands over\<close>

lemma from_utf8_OkD: "from_utf8 b = Some s \<Longrightarrow> s = b \<and> utf8_valid b"
  by (auto simp: from_utf8_def split: if_splits)

lemma read_target_wf:
  assumes "read_target atyp c = (Ok t, c')"
  shows "wf_addr t \<and> t \<noteq> TargetNone"
proof -
  consider "atyp = 1" | "atyp = 3" | "atyp = 4"
    using assms by (auto simp: read_target_def split: if_splits)
  then show ?thesis
  proof cases
    case 2
    with assms obtain buf c1 buf2 s where b: "read_buf 1 c = (Ok buf, c1)" "unat (buf ! 0) \<noteq> 0"
      and r: "read_buf (unat (buf ! 0) + 2) c1 = (Ok buf2, c')" "from_utf8 (take (unat (buf ! 0)) buf2) = Some s"
      and t: "t = Domain s (of_be16 (drop (unat (buf ! 0)) buf2))"
      by (auto simp: read_target_def bind_eq_Ok Let_def split: if_splits option.splits)
    have "length buf2 = unat (buf ! 0) + 2" using read_buf_OkD [OF r(1)] by simp
    moreover have "unat (buf ! 0) < 256" by simp
    then have "unat (buf ! 0) \<le> 255" by linarith
    ultimately show ?thesis
      using from_utf8_OkD [OF r(2)] t b(2) by (simp add: Suc_le_eq)
  qed (use assms in \<open>auto simp: read_target_def bind_eq_Ok socket_v4_def socket_v6_def\<close>)
qed

lemma socks5_handshake_wf: "socks5_handshake c = (Ok t, c') \<Longrightarrow> wf_addr t \<and> t \<noteq> TargetNone"
  by (auto simp: socks5_handshake_def bind_eq_Ok Let_def split: if_splits dest!: read_target_wf)

subsection \<open>What the tunnel does with it\<close>

lemma init_frame_target:
  assumes "(if padding then on_rng (draw (with_random_padding R m (GhostFrame_new uid target [])))
      else ret (GhostFrame_new uid target [])) p = ((Ok f :: ('e, GhostFrame) res), q)"
  shows "gf_target f = target"
  using assms
  by (auto simp: pipe_OkD with_random_padding_def GhostFrame_new_def split: if_splits prod.splits)

lemma panic_free_encode [panic_free_intros]:
  "wf_addr (gf_target f) \<Longrightarrow> panic_free (lift_res (GhostFrame_encode f)) p"
  by (simp add: panic_free_def GhostFrame_encode_fits wf_addr_fits)

lemma panic_free_cipher [panic_free_intros]:
  "panic_free (lift_res (GhostCipher_new A key)) p" "panic_free (GhostCipher_encrypt R c pt) s"
  by (simp_all add: panic_free_def GhostCipher_new_def GhostCipher_encrypt_def split: prod.split option.split)

lemma panic_free_derive [panic_free_intros]:
  "hkdf_ok H \<Longrightarrow> panic_free (lift_res (derive_key H uid secret)) p"
  using derive_key_length [of H uid secret] by (metis (no_types) fst_conv lift_res_simps panic_free_def res.distinct(3))

lemma client_handshake_panic_free:
  assumes "hkdf_ok (ce_hkdf env)" and "wf_addr target"
  shows "panic_free (client_handshake env config uid target) p"
  unfolding client_handshake_def
  by (intro panic_free_intros assms(1)) (use init_frame_target assms(2) in fastforce)

text \<open>C18: Whatever an application sends, a target that the SOCKS5 front hands to the tunnel is within the wire format (a domain of
  1 to 255 bytes of UTF-8, an IPv6 address without flow and scope) and names a host; so the encoder's \<^verbatim>\<open>expect\<close> cannot
  fail on it, and the handshake with the server does not panic, for every configuration, connection and random draw.\<close>

theorem socks_target_typed:
  assumes "hkdf_ok (ce_hkdf env)" and "socks5_handshake c = (Ok target, c')"
  shows "wf_addr target \<and> target \<noteq> TargetNone \<and> fst (client_handshake env config uid target p) \<noteq> Panic"
  using client_handshake_panic_free [OF assms(1)] socks5_handshake_wf [OF assms(2)]
  by (simp add: panic_free_def)

theorem socks_target_typed_witness:
  "\<exists>target c'. socks5_handshake (fresh_conn [example_request @ [9]]) = (Ok target, c') \<and>
     fst (client_handshake example_client_env ClientConfig_default example_uid target
       \<lparr>p_rng = 0, p_src = src_of [], p_dst = fresh_writer\<rparr>) \<noteq> Panic"
proof -
  let ?t = "Domain (lit ''example.com'') 443"
  have "wf_addr ?t" by (simp add: is_ascii_utf8_valid)
  then obtain c' where c: "socks5_handshake (fresh_conn [example_request @ [9]]) = (Ok ?t, c')"
    using socks5_connect_understood [of ?t "[2, 0]" "fresh_conn [example_request @ [9]]" "[9]"]
    by (auto simp: example_request_def)
  have "hkdf_ok (ce_hkdf example_client_env)" by (simp add: example_client_env_def hkdf_ok_plain)
  from socks_target_typed [OF this c] c show ?thesis by blast
qed

end
