(* ===== verification/Tun_Device.thy ===== *)
theory Tun_Device
  imports Environment "HOL-Library.Sublist"
begin

section \<open>The TUN device\<close>

text \<open>
  ghost-tun/src/device.rs: a file descriptor in non-blocking mode, and the loops that wait for it to be ready and try again
  when the system call would block. The kernel and the reactor of the runtime are the attempts: whether waiting for
  readiness failed, and what the system call returned (a count, or a negative number and \<^verbatim>\<open>errno\<close>).
\<close>

datatype TunError = FcntlGetFailed | FcntlSetFailed | AsyncFdFailed | BadIpv4 | BadTcp

record TunDevice =
  td_fd :: int
  td_async_fd :: int

definition O_NONBLOCK :: int where "O_NONBLOCK = 2048"

text \<open>\<^verbatim>\<open>TunDevice::new\<close>, from the results of the two \<^verbatim>\<open>fcntl\<close> calls and of \<^verbatim>\<open>AsyncFd::new\<close>.\<close>

definition TunDevice_new :: "(int \<Rightarrow> int) \<Rightarrow> (int \<Rightarrow> int \<Rightarrow> int) \<Rightarrow> bool \<Rightarrow> int \<Rightarrow> (TunError, TunDevice) res" where
  "TunDevice_new getfl setfl async_ok fd =
     (let flags = getfl fd in
      if flags < 0 then Err FcntlGetFailed
      else
        let res = setfl fd (flags OR O_NONBLOCK) in
        if res < 0 then Err FcntlSetFailed
        else if async_ok then Ok \<lparr>td_fd = fd, td_async_fd = fd\<rparr> else Err AsyncFdFailed)"

record 'a attempt =
  at_ready :: "io_error option"
  at_result :: int
  at_errno :: nat
  at_value :: 'a

definition EAGAIN :: nat where "EAGAIN = 11"

text \<open>
  One round: the wait may fail, \<^verbatim>\<open>try_io\<close> turns a call that would block into another round, other errors and results
  are the operation's. \<open>None\<close>: another round.
\<close>

definition device_round :: "('a attempt \<Rightarrow> 'b) \<Rightarrow> 'a attempt \<Rightarrow> (io_error, 'b) res option" where
  "device_round value_of t =
     (case at_ready t of
        Some e \<Rightarrow> Some (Err e)
      | None \<Rightarrow>
          if at_result t < 0
          then (if at_errno t = EAGAIN then None else Some (Err (IoFault (at_errno t))))
          else Some (Ok (value_of t)))"

text \<open>The loop of both operations, from the attempts to come; \<open>None\<close>: still waiting. The rest is for the next operation.\<close>

fun device_io :: "('a attempt \<Rightarrow> 'b) \<Rightarrow> 'a attempt list \<Rightarrow> (io_error, 'b) res option \<times> 'a attempt list" where
  "device_io value_of [] = (None, [])"
| "device_io value_of (t # rest) =
     (case device_round value_of t of None \<Rightarrow> device_io value_of rest | Some r \<Rightarrow> (Some r, rest))"

text \<open>\<^verbatim>\<open>read\<close> gives the bytes the kernel copied, at most as many as the buffer holds; \<^verbatim>\<open>write\<close> the number it took.\<close>

definition TunDevice_read :: "nat \<Rightarrow> bytes attempt list \<Rightarrow> (io_error, bytes) res option \<times> bytes attempt list" where
  "TunDevice_read cap = device_io (\<lambda>t. take (min cap (nat (at_result t))) (at_value t))"

definition TunDevice_write :: "bytes \<Rightarrow> unit attempt list \<Rightarrow> (io_error, nat) res option \<times> unit attempt list" where
  "TunDevice_write buf = device_io (\<lambda>t. min (length buf) (nat (at_result t)))"

lemma device_io_shorter: "device_io f ts = (Some r, rest) \<Longrightarrow> length rest < length ts"
  by (induction ts) (auto split: option.splits)

lemma device_round_no_panic [simp]: "device_round f t \<noteq> Some Panic"
  by (simp add: device_round_def split: option.split)

lemma device_io_skips:
  "device_io f ts = (case dropWhile (\<lambda>t. device_round f t = None) ts of
     [] \<Rightarrow> (None, []) | t # rest \<Rightarrow> (device_round f t, rest))"
  by (induction ts) (auto split: option.split)

subsection \<open>The writing task\<close>

text \<open>
  The task of \<^verbatim>\<open>run\<close> that writes the packets of the channel to the device, in order; an error is logged and the
  packet is lost. The result: the packets given to the kernel with the number of bytes it took, and those still in the channel.
\<close>

fun tun_write_task :: "bytes list \<Rightarrow> unit attempt list \<Rightarrow> (bytes \<times> nat) list \<times> bytes list" where
  "tun_write_task [] ts = ([], [])"
| "tun_write_task (packet # packets) ts =
     (case TunDevice_write packet ts of
        (None, _) \<Rightarrow> ([], packet # packets)
      | (Some (Ok n), rest) \<Rightarrow> (case tun_write_task packets rest of (out, left) \<Rightarrow> ((packet, n) # out, left))
      | (Some (Err e), rest) \<Rightarrow> tun_write_task packets rest
      | (Some Panic, _) \<Rightarrow> ([], packets))"

lemma TunDevice_write_takes: "TunDevice_write p ts = (Some (Ok n), rest) \<Longrightarrow> n \<le> length p"
  unfolding TunDevice_write_def
  by (induction ts) (auto simp: device_round_def split: option.splits if_splits)

text \<open>The device gets the packets in the order of the channel, each at most once.\<close>

lemma tun_write_task_in_order:
  "tun_write_task ps ts = (out, left) \<Longrightarrow>
     \<exists>taken. ps = taken @ left \<and> subseq (map fst out) taken \<and> (\<forall>(p, n) \<in> set out. n \<le> length p)"
proof (induction ps ts arbitrary: out left rule: tun_write_task.induct)
  case (2 packet packets ts)
  obtain r rest where w: "TunDevice_write packet ts = (r, rest)" by fastforce
  show ?case
  proof (cases r)
    case None
    with 2(3) w show ?thesis by simp
  next
    case (Some x)
    show ?thesis
    proof (cases x)
      case (Ok n)
      obtain out' where o: "tun_write_task packets rest = (out', left)" "out = (packet, n) # out'"
        using 2(3) w Some Ok by (auto split: prod.splits)
      from 2(1) [OF w [symmetric] Some Ok o(1)] obtain taken where
        "packets = taken @ left" "subseq (map fst out') taken" "\<forall>(p, n) \<in> set out'. n \<le> length p" by blast
      then show ?thesis
        using o(2) TunDevice_write_takes [of packet ts n rest] w Some Ok
        by (intro exI [of _ "packet # taken"]) simp
    next
      case (Err e)
      with 2(3) w Some have "tun_write_task packets rest = (out, left)" by simp
      from 2(2) [OF w [symmetric] Some Err this] obtain taken where
        "packets = taken @ left" "subseq (map fst out) taken" "\<forall>(p, n) \<in> set out. n \<le> length p" by blast
      then show ?thesis by (intro exI [of _ "packet # taken"]) (simp add: list_emb_Cons)
    next
      case Panic
      with 2(3) w Some show ?thesis by (intro exI [of _ "[packet]"]) simp
    qed
  qed
qed simp

end
