(* ===== verification/Tun_Socks.thy ===== *)
theory Tun_Socks
  imports Client_Socks
begin

section \<open>The SOCKS5 client of the TUN front\<close>

text \<open>
  ghost-tun/src/socks5.rs: CONNECT and UDP ASSOCIATE as a client of a SOCKS5 proxy, here on the
  connection to it. In the program that proxy is the SOCKS5 front of \<open>Client_Socks\<close>.
\<close>

datatype TunSocksError =
    ProxyUnreachable io_error
  | VersionMismatch u8
  | MethodNotAccepted u8
  | ReplyVersionMismatch u8
  | ConnectRefused u8
  | AssociateRefused u8
  | UnknownAtyp u8
  | TunSocksIo io_error

definition tun_read :: "nat \<Rightarrow> (conn, TunSocksError, bytes) stm" where
  "tun_read n = with_err TunSocksIo (on_in (read_exact n))"

definition tun_write :: "bytes \<Rightarrow> (conn, TunSocksError, unit) stm" where
  "tun_write bs = with_err TunSocksIo (on_out (write_all bs))"

fun encode_addr :: "SocketAddr \<Rightarrow> bytes \<Rightarrow> bytes" where
  "encode_addr (V4 v4) buf = buf @ [0x01] @ be32 (v4_ip v4) @ be16 (v4_port v4)"
| "encode_addr (V6 v6) buf = buf @ [0x04] @ be128 (v6_ip v6) @ be16 (v6_port v6)"

definition skip_socks5_addr :: "(conn, TunSocksError, unit) stm" where
  "skip_socks5_addr =
     bind (tun_read 1) (\<lambda>atyp.
     if atyp ! 0 = 0x01 then bind (tun_read 6) (\<lambda>_. ret ())
     else if atyp ! 0 = 0x03 then
       bind (tun_read 1) (\<lambda>len. bind (tun_read (unat (len ! 0) + 2)) (\<lambda>_. ret ()))
     else if atyp ! 0 = 0x04 then bind (tun_read 18) (\<lambda>_. ret ())
     else throw (UnknownAtyp (atyp ! 0)))"

definition read_socks5_addr :: "(conn, TunSocksError, SocketAddr) stm" where
  "read_socks5_addr =
     bind (tun_read 1) (\<lambda>atyp.
     if atyp ! 0 = 0x01 then
       bind (tun_read 6) (\<lambda>buf. ret (V4 (socket_v4 (of_be32 (take 4 buf)) (of_be16 (drop 4 buf)))))
     else if atyp ! 0 = 0x04 then
       bind (tun_read 18) (\<lambda>buf. ret (V6 (socket_v6 (of_be128 (take 16 buf)) (of_be16 (drop 16 buf)))))
     else throw (UnknownAtyp (atyp ! 0)))"

text \<open>CONNECT on an open connection to the proxy; \<open>Ok\<close> means that data may flow.\<close>

definition socks5_connect :: "SocketAddr \<Rightarrow> (conn, TunSocksError, unit) stm" where
  "socks5_connect target =
     bind (tun_write [0x05, 0x01, 0x00]) (\<lambda>_.
     bind (tun_read 2) (\<lambda>buf.
     if buf ! 0 \<noteq> 0x05 then throw (VersionMismatch (buf ! 0))
     else if buf ! 1 \<noteq> 0x00 then throw (MethodNotAccepted (buf ! 1))
     else
       bind (tun_write (encode_addr target [0x05, 0x01, 0x00])) (\<lambda>_.
       bind (tun_read 4) (\<lambda>resp.
       if resp ! 0 \<noteq> 0x05 then throw (ReplyVersionMismatch (resp ! 0))
       else if resp ! 1 \<noteq> 0x00 then throw (ConnectRefused (resp ! 1))
       else skip_socks5_addr))))"

definition socks5_udp_associate :: "(conn, TunSocksError, SocketAddr) stm" where
  "socks5_udp_associate =
     bind (tun_write [0x05, 0x01, 0x00]) (\<lambda>_.
     bind (tun_read 2) (\<lambda>buf.
     if buf ! 1 \<noteq> 0x00 then throw (MethodNotAccepted (buf ! 1))
     else
       bind (tun_write [0x05, 0x03, 0x00, 0x01, 0x00, 0x00, 0x00, 0x00, 0x00, 0x00]) (\<lambda>_.
       bind (tun_read 4) (\<lambda>resp.
       if resp ! 1 \<noteq> 0x00 then throw (AssociateRefused (resp ! 1))
       else read_socks5_addr))))"

subsection \<open>Steps on a connection\<close>

lemma tun_read_get:
  assumes "src_data (c_in c) = bs @ rest" and "length bs = n"
  obtains c' where "tun_read n c = (Ok bs, c')" and "src_data (c_in c') = rest" and "c_out c' = c_out c"
proof -
  have "tun_read n c = (Ok bs, c\<lparr>c_in := advance n (c_in c)\<rparr>)"
    using assms by (simp add: tun_read_def with_err_def on_in_def read_exact_advance)
  then show thesis by (rule that) (use assms in simp_all)
qed

lemma tun_write_put:
  assumes "wr_limit (c_out c) = None"
  obtains c' where "tun_write bs c = (Ok (), c')" and "c_in c' = c_in c"
    and "c_out c' = (c_out c)\<lparr>wr_data := wr_data (c_out c) @ bs\<rparr>"
proof -
  have "tun_write bs c = (Ok (), c\<lparr>c_out := (c_out c)\<lparr>wr_data := wr_data (c_out c) @ bs\<rparr>\<rparr>)"
    using assms by (simp add: tun_write_def with_err_def on_out_def)
  then show thesis by (rule that) simp_all
qed

text \<open>After an accepting reply, what decides is the address that is skipped, \<^emph>\<open>without\<close> its type,
  which the four bytes of the reply have already consumed.\<close>

lemma connect_accepted:
  assumes "src_data (c_in c) = [5, 0] @ [5, 0, rsv, atyp] @ rest" and "wr_limit (c_out c) = None"
  obtains c' where "socks5_connect target c = skip_socks5_addr c'" and "src_data (c_in c') = rest"
    and "wr_data (c_out c') = wr_data (c_out c) @ [5, 1, 0] @ encode_addr target [5, 1, 0]"
proof -
  obtain c1 where c1: "tun_write [5, 1, 0] c = (Ok (), c1)" "c_in c1 = c_in c"
    "c_out c1 = (c_out c)\<lparr>wr_data := wr_data (c_out c) @ [5, 1, 0]\<rparr>"
    by (rule tun_write_put [OF assms(2)])
  have d1: "src_data (c_in c1) = [5, 0] @ [5, 0, rsv, atyp] @ rest" using c1(2) assms(1) by simp
  obtain c2 where c2: "tun_read 2 c1 = (Ok [5, 0], c2)"
    "src_data (c_in c2) = [5, 0, rsv, atyp] @ rest" "c_out c2 = c_out c1"
    by (rule tun_read_get [OF d1, of 2]) simp_all
  have "wr_limit (c_out c2) = None" using c2(3) c1(3) assms(2) by simp
  then obtain c3 where c3: "tun_write (encode_addr target [5, 1, 0]) c2 = (Ok (), c3)" "c_in c3 = c_in c2"
    "c_out c3 = (c_out c2)\<lparr>wr_data := wr_data (c_out c2) @ encode_addr target [5, 1, 0]\<rparr>"
    by (rule tun_write_put)
  have d3: "src_data (c_in c3) = [5, 0, rsv, atyp] @ rest" using c3(2) c2(2) by simp
  obtain c4 where c4: "tun_read 4 c3 = (Ok [5, 0, rsv, atyp], c4)"
    "src_data (c_in c4) = rest" "c_out c4 = c_out c3"
    by (rule tun_read_get [OF d3, of 4]) simp_all
  have "socks5_connect target c = skip_socks5_addr c4"
    by (simp add: socks5_connect_def bind_Ok c1(1) c2(1) c3(1) c4(1))
  then show thesis by (rule that) (use c4 c3 c2 c1 in simp_all)
qed

lemma encode_addr_request:
  "[5, 1, 0] @ encode_addr target [5, 1, 0] = socks5_request [0] (TargetAddr_from_SocketAddr target)"
  by (cases target) (simp_all add: socks5_request_def protocol_consts)

text \<open>The TUN front cannot use the SOCKS5 front it is built for. For every target, the request it
  sends is understood by the client's handler, which answers with success; but the address in that
  answer is then read from one byte too late, its first zero is taken for an address type, and the
  CONNECT fails, although the client has begun to open the tunnel.\<close>

theorem tun_connect_fails_against_client:
  assumes "wf_addr (TargetAddr_from_SocketAddr target)"
    and "wr_limit (c_out proxy) = None" and "wr_data (c_out proxy) = []"
    and "src_data (c_in proxy) = socks5_request [0] (TargetAddr_from_SocketAddr target) @ rest"
    and "wr_limit (c_out c) = None" and "wr_data (c_out c) = []"
    and "src_data (c_in c) = wr_data (c_out (snd (socks5_handshake proxy)))"
  shows "fst (socks5_handshake proxy) = Ok (TargetAddr_from_SocketAddr target) \<and>
    fst (socks5_connect target c) = Err (UnknownAtyp 0) \<and>
    wr_data (c_out (snd (socks5_connect target c))) =
      socks5_request [0] (TargetAddr_from_SocketAddr target)"
proof -
  have t: "TargetAddr_from_SocketAddr target \<noteq> TargetNone"
    and l: "length (addr_wire (TargetAddr_from_SocketAddr target)) \<le> 258"
    by (cases target; simp)+
  obtain p' where p: "socks5_handshake proxy = (Ok (TargetAddr_from_SocketAddr target), p')"
    and out: "wr_data (c_out p') = [5, 0] @ [5, 0, 0, 1, 0, 0, 0, 0, 0, 0]"
    using socks5_connect_understood [OF assms(1) t l _ _ assms(4,2)] assms(3) by auto
  have d: "src_data (c_in c) = [5, 0] @ [5, 0, 0, 1] @ [0, 0, 0, 0, 0, 0]"
    using assms(7) p out by simp
  obtain c' where c': "socks5_connect target c = skip_socks5_addr c'"
    "src_data (c_in c') = [0, 0, 0, 0, 0, 0]"
    "wr_data (c_out c') = wr_data (c_out c) @ [5, 1, 0] @ encode_addr target [5, 1, 0]"
    by (rule connect_accepted [OF d assms(5)])
  have d': "src_data (c_in c') = [0] @ [0, 0, 0, 0, 0]" using c'(2) by simp
  obtain c2 where "tun_read 1 c' = (Ok [0], c2)" "c_out c2 = c_out c'"
    by (rule tun_read_get [OF d', of 1]) simp_all
  then have "skip_socks5_addr c' = (Err (UnknownAtyp 0), c2)" and "c_out c2 = c_out c'"
    by (simp_all add: skip_socks5_addr_def bind_Ok)
  with p c'(1,3) assms(6) encode_addr_request [of target] show ?thesis by simp
qed

definition example_target :: SocketAddr where
  "example_target = V4 (socket_v4 0x5DB8D822 443)"

definition example_proxy :: conn where
  "example_proxy = fresh_conn [socks5_request [0] (TargetAddr_from_SocketAddr example_target)]"

theorem tun_connect_fails_against_client_witness:
  "fst (socks5_connect example_target (fresh_conn [wr_data (c_out (snd (socks5_handshake example_proxy)))])) =
     Err (UnknownAtyp 0)"
  using tun_connect_fails_against_client [of example_target example_proxy "[]"
      "fresh_conn [wr_data (c_out (snd (socks5_handshake example_proxy)))]"]
  by (simp add: example_proxy_def example_target_def)

end
