(* ===== verification/Tun_Session.thy ===== *)
theory Tun_Session
  imports Tun_Socks
begin

section \<open>TCP sessions of the TUN front\<close>

text \<open>
  ghost-tun/src/tcp_session.rs: flow keys, the NAT table, and \<^verbatim>\<open>run_tcp_session\<close>, the userspace end
  of a TCP connection. A packet is the record of what the etherparse library is asked to build; whether
  the library builds it (\<open>Ipv4Header::new\<close> and the checksum may refuse) is the parameter \<open>builds\<close>. The
  channel to the device is unbounded and the device task drains it.
\<close>

record FlowKey =
  fk_src_ip :: u32
  fk_src_port :: u16
  fk_dst_ip :: u32
  fk_dst_port :: u16

definition FlowKey_new :: "bytes \<Rightarrow> u16 \<Rightarrow> bytes \<Rightarrow> u16 \<Rightarrow> FlowKey" where
  "FlowKey_new src_ip src_port dst_ip dst_port =
     \<lparr>fk_src_ip = of_be32 src_ip, fk_src_port = src_port, fk_dst_ip = of_be32 dst_ip, fk_dst_port = dst_port\<rparr>"

definition FlowKey_reverse :: "FlowKey \<Rightarrow> FlowKey" where
  "FlowKey_reverse k =
     \<lparr>fk_src_ip = fk_dst_ip k, fk_src_port = fk_dst_port k, fk_dst_ip = fk_src_ip k, fk_dst_port = fk_src_port k\<rparr>"

lemma FlowKey_reverse_reverse [simp]: "FlowKey_reverse (FlowKey_reverse k) = k"
  by (simp add: FlowKey_reverse_def)

subsection \<open>The NAT table\<close>

text \<open>From a flow to the sending end of its channel; a channel is named by a number.\<close>

type_synonym TcpNatTable = "FlowKey \<Rightarrow> nat option"

definition TcpNatTable_new :: TcpNatTable where
  "TcpNatTable_new = (\<lambda>_. None)"

definition TcpNatTable_default :: TcpNatTable where
  "TcpNatTable_default = TcpNatTable_new"

definition TcpNatTable_insert :: "FlowKey \<Rightarrow> nat \<Rightarrow> TcpNatTable \<Rightarrow> TcpNatTable" where
  "TcpNatTable_insert key tx sessions = sessions(key \<mapsto> tx)"

definition TcpNatTable_get :: "TcpNatTable \<Rightarrow> FlowKey \<Rightarrow> nat option" where
  "TcpNatTable_get sessions key = sessions key"

definition TcpNatTable_remove :: "FlowKey \<Rightarrow> TcpNatTable \<Rightarrow> TcpNatTable" where
  "TcpNatTable_remove key sessions = sessions(key := None)"

text \<open>What the packet handler relies on: the laws of a table with one entry per key.\<close>

locale flow_table =
  fixes empty :: 't and insert :: "'k \<Rightarrow> 'v \<Rightarrow> 't \<Rightarrow> 't" and get :: "'t \<Rightarrow> 'k \<Rightarrow> 'v option"
    and remove :: "'k \<Rightarrow> 't \<Rightarrow> 't"
  assumes get_empty: "get empty k = None"
    and get_insert: "get (insert k v t) j = (if j = k then Some v else get t j)"
    and get_remove: "get (remove k t) j = (if j = k then None else get t j)"
begin

lemma get_insert_same: "get (insert k v t) k = Some v"
  by (simp add: get_insert)

lemma get_insert_other: "j \<noteq> k \<Longrightarrow> get (insert k v t) j = get t j"
  by (simp add: get_insert)

lemma get_remove_same: "get (remove k t) k = None"
  by (simp add: get_remove)

lemma get_remove_other: "j \<noteq> k \<Longrightarrow> get (remove k t) j = get t j"
  by (simp add: get_remove)

end

interpretation nat_table: flow_table TcpNatTable_new TcpNatTable_insert TcpNatTable_get TcpNatTable_remove
  by unfold_locales
    (simp_all add: TcpNatTable_new_def TcpNatTable_insert_def TcpNatTable_get_def TcpNatTable_remove_def)

subsection \<open>Packets to the device\<close>

record tcp_packet =
  tp_src_ip :: u32
  tp_dst_ip :: u32
  tp_src_port :: u16
  tp_dst_port :: u16
  tp_seq :: u32
  tp_ack_number :: u32
  tp_rst :: bool
  tp_syn :: bool
  tp_ack :: bool
  tp_fin :: bool
  tp_psh :: bool
  tp_window :: u16
  tp_ip_payload_len :: u16
  tp_payload :: bytes

definition TCP_HEADER_LEN :: nat where
  "TCP_HEADER_LEN = 20"

definition send_tcp_packet ::
  "(tcp_packet \<Rightarrow> bool) \<Rightarrow> u32 \<Rightarrow> u32 \<Rightarrow> u16 \<Rightarrow> u16 \<Rightarrow> u32 \<Rightarrow> u32 \<Rightarrow> bool \<Rightarrow> bool \<Rightarrow> bool \<Rightarrow> bool \<Rightarrow> bool \<Rightarrow>
     bytes \<Rightarrow> (tcp_packet list, unit, unit) stm" where
  "send_tcp_packet builds src_ip dst_ip src_port dst_port seq ack rst syn ack_flag fin psh payload tun_tx =
     (let packet = \<lparr>tp_src_ip = src_ip, tp_dst_ip = dst_ip, tp_src_port = src_port, tp_dst_port = dst_port,
            tp_seq = seq, tp_ack_number = ack, tp_rst = rst, tp_syn = syn, tp_ack = ack_flag,
            tp_fin = fin, tp_psh = psh, tp_window = 65535,
            tp_ip_payload_len = of_nat TCP_HEADER_LEN + of_nat (length payload), tp_payload = payload\<rparr>
      in if builds packet then (Ok (), tun_tx @ [packet]) else (Err (), tun_tx))"

definition send_ack ::
  "(tcp_packet \<Rightarrow> bool) \<Rightarrow> FlowKey \<Rightarrow> u32 \<Rightarrow> u32 \<Rightarrow> (tcp_packet list, unit, unit) stm" where
  "send_ack builds key seq ack =
     send_tcp_packet builds (fk_dst_ip key) (fk_src_ip key) (fk_dst_port key) (fk_src_port key)
       seq ack False False True False False []"

subsection \<open>The session\<close>

text \<open>
  The task from the proxy to the device: every read becomes a packet, and the end of the stream, for
  whatever reason, a FIN. The state of the loop is the next sequence number.
\<close>

function socks_to_tun ::
  "(tcp_packet \<Rightarrow> bool) \<Rightarrow> FlowKey \<Rightarrow> u32 \<Rightarrow> u32 \<Rightarrow> source \<Rightarrow> tcp_packet list \<Rightarrow> tcp_packet list" where
  "socks_to_tun builds key next_server_seq next_client_ack socks_rd tun_tx =
     (case read_some CHUNK_LEN socks_rd of
        (Ok buf, rd) \<Rightarrow>
          if buf = [] then
            snd (send_tcp_packet builds (fk_dst_ip key) (fk_src_ip key) (fk_dst_port key) (fk_src_port key)
                   next_server_seq next_client_ack False False True True False [] tun_tx)
          else
            (case send_tcp_packet builds (fk_dst_ip key) (fk_src_ip key) (fk_dst_port key) (fk_src_port key)
                    next_server_seq next_client_ack False False True False True buf tun_tx of
               (Ok _, tx) \<Rightarrow>
                 socks_to_tun builds key (next_server_seq + of_nat (length buf)) next_client_ack rd tx
             | (_, tx) \<Rightarrow>
                 snd (send_tcp_packet builds (fk_dst_ip key) (fk_src_ip key) (fk_dst_port key) (fk_src_port key)
                        next_server_seq next_client_ack False False True True False [] tx))
      | (_, rd) \<Rightarrow>
          snd (send_tcp_packet builds (fk_dst_ip key) (fk_src_ip key) (fk_dst_port key) (fk_src_port key)
                 next_server_seq next_client_ack False False True True False [] tun_tx))"
  by pat_completeness auto
termination
  by (relation "measure (\<lambda>(builds, key, seq, ack, rd, tx). src_size rd)")
    (auto dest!: sym [of "(Ok _, _)" "read_some _ _"] intro: read_some_decreases)

declare socks_to_tun.simps [simp del]

text \<open>
  The task from the channel to the proxy: what was sent to the channel is written in order, empty
  messages are skipped, the first write error ends it.
\<close>

fun data_to_socks :: "bytes list \<Rightarrow> writer \<Rightarrow> writer" where
  "data_to_socks [] socks_wr = socks_wr"
| "data_to_socks (payload # rest) socks_wr =
     (if payload = [] then data_to_socks rest socks_wr
      else
        case write_all payload socks_wr of
          (Ok _, w) \<Rightarrow> data_to_socks rest w
        | (_, w) \<Rightarrow> w)"

text \<open>
  The whole session on a connection to the proxy (an error if there is none): the packets it sends
  to the device, given that the task towards the device runs to its end, and what the proxy has been
  sent of the messages that arrived. The \<^verbatim>\<open>select!\<close> at the end waits for the first of the two tasks and only drops
  the handle of the other, which runs on detached; so both tasks have their whole effect here. The flushes and the
  shutdown of the socket are left out, since a writer passes on at once what it is given.
\<close>

definition run_tcp_session ::
  "(tcp_packet \<Rightarrow> bool) \<Rightarrow> FlowKey \<Rightarrow> u32 \<Rightarrow> bytes list \<Rightarrow> (TunSocksError, conn) res \<Rightarrow> SocketAddr \<Rightarrow>
     tcp_packet list \<Rightarrow> tcp_packet list \<times> writer option" where
  "run_tcp_session builds key client_initial_seq data_rx proxy target tun_tx =
     (let connected = (case proxy of
            Ok c \<Rightarrow> (case socks5_connect target c of
                (Ok _, c') \<Rightarrow> Ok c' | (Err e, _) \<Rightarrow> Err e | (Panic, _) \<Rightarrow> Panic)
          | Err e \<Rightarrow> Err e | Panic \<Rightarrow> Panic)
      in case connected of
        Ok socks \<Rightarrow>
          let server_seq = 0; client_ack = client_initial_seq + 1 in
          (case send_tcp_packet builds (fk_dst_ip key) (fk_src_ip key) (fk_dst_port key) (fk_src_port key)
                  server_seq client_ack False True True False False [] tun_tx of
             (Ok _, tx) \<Rightarrow>
               (socks_to_tun builds key (server_seq + 1) client_ack (c_in socks) tx,
                Some (data_to_socks data_rx (c_out socks)))
           | (_, tx) \<Rightarrow> (tx, None))
      | Err e \<Rightarrow>
          (snd (send_tcp_packet builds (fk_dst_ip key) (fk_src_ip key) (fk_dst_port key) (fk_src_port key)
                  0 (client_initial_seq + 1) True False True False False [] tun_tx), None)
      | Panic \<Rightarrow> (tun_tx, None))"

subsection \<open>The stream of packets to the application\<close>

text \<open>\<open>contiguous s ps\<close>: the packets carry a stream that starts at sequence number \<open>s\<close> without gaps.\<close>

fun contiguous :: "u32 \<Rightarrow> tcp_packet list \<Rightarrow> bool" where
  "contiguous s [] = True"
| "contiguous s (p # ps) \<longleftrightarrow> tp_seq p = s \<and> contiguous (s + of_nat (length (tp_payload p))) ps"

definition data_packet :: "FlowKey \<Rightarrow> u32 \<Rightarrow> tcp_packet \<Rightarrow> bool" where
  "data_packet key ack p \<longleftrightarrow>
     tp_src_ip p = fk_dst_ip key \<and> tp_dst_ip p = fk_src_ip key \<and>
     tp_src_port p = fk_dst_port key \<and> tp_dst_port p = fk_src_port key \<and>
     tp_ack p \<and> \<not> tp_rst p \<and> \<not> tp_syn p \<and> tp_ack_number p = ack \<and>
     unat (tp_ip_payload_len p) = TCP_HEADER_LEN + length (tp_payload p)"

lemma sent_packet:
  assumes "\<forall>p. builds p"
  shows "send_tcp_packet builds sip dip sp dp s a r sy ak f ps pl tx =
    (Ok (), tx @ [\<lparr>tp_src_ip = sip, tp_dst_ip = dip, tp_src_port = sp, tp_dst_port = dp,
            tp_seq = s, tp_ack_number = a, tp_rst = r, tp_syn = sy, tp_ack = ak,
            tp_fin = f, tp_psh = ps, tp_window = 65535,
            tp_ip_payload_len = of_nat TCP_HEADER_LEN + of_nat (length pl), tp_payload = pl\<rparr>])"
  using assms by (simp add: send_tcp_packet_def Let_def)

lemma ip_len: "n \<le> CHUNK_LEN \<Longrightarrow> unat (of_nat TCP_HEADER_LEN + of_nat n :: u16) = TCP_HEADER_LEN + n"
  unfolding of_nat_add [symmetric] by (rule unat_of_nat_u16) (simp add: TCP_HEADER_LEN_def CHUNK_LEN_def)

text \<open>The packets of a session, by what differs between them.\<close>

definition out_packet :: "FlowKey \<Rightarrow> u32 \<Rightarrow> u32 \<Rightarrow> bool \<Rightarrow> bool \<Rightarrow> bool \<Rightarrow> bytes \<Rightarrow> tcp_packet" where
  "out_packet key s a syn fin psh payload =
     \<lparr>tp_src_ip = fk_dst_ip key, tp_dst_ip = fk_src_ip key, tp_src_port = fk_dst_port key,
      tp_dst_port = fk_src_port key, tp_seq = s, tp_ack_number = a, tp_rst = False, tp_syn = syn,
      tp_ack = True, tp_fin = fin, tp_psh = psh, tp_window = 65535,
      tp_ip_payload_len = of_nat TCP_HEADER_LEN + of_nat (length payload), tp_payload = payload\<rparr>"

lemma sent_out:
  "\<forall>p. builds p \<Longrightarrow> send_tcp_packet builds (fk_dst_ip key) (fk_src_ip key) (fk_dst_port key) (fk_src_port key) s a False syn True
     fin psh payload tx = (Ok (), tx @ [out_packet key s a syn fin psh payload])"
  by (simp add: sent_packet out_packet_def)

lemma out_packet_data: "length payload \<le> CHUNK_LEN \<Longrightarrow> data_packet key a (out_packet key s a False fin psh payload)"
  by (simp add: data_packet_def out_packet_def ip_len)

lemma out_packet_simps [simp]:
  "tp_seq (out_packet key s a syn fin psh payload) = s" "tp_payload (out_packet key s a syn fin psh payload) = payload"
  "tp_fin (out_packet key s a syn fin psh payload) = fin" "tp_syn (out_packet key s a syn fin psh payload) = syn"
  "tp_ack_number (out_packet key s a syn fin psh payload) = a"
  by (simp_all add: out_packet_def)

text \<open>A step of the loop: the FIN at the end of the stream, however it ends, or a packet with what was read.\<close>

lemma socks_to_tun_end:
  "\<forall>p. builds p \<Longrightarrow> read_some CHUNK_LEN rd = (r, rd') \<Longrightarrow> \<nexists>buf. r = Ok buf \<and> buf \<noteq> [] \<Longrightarrow>
   socks_to_tun builds key s a rd tx = tx @ [out_packet key s a False True False []]"
  by (subst socks_to_tun.simps) (auto simp: sent_out split: res.split)

lemma socks_to_tun_data:
  "\<forall>p. builds p \<Longrightarrow> read_some CHUNK_LEN rd = (Ok buf, rd') \<Longrightarrow> buf \<noteq> [] \<Longrightarrow>
   socks_to_tun builds key s a rd tx =
     socks_to_tun builds key (s + of_nat (length buf)) a rd' (tx @ [out_packet key s a False False True buf])"
  by (subst socks_to_tun.simps) (simp add: sent_out)

lemma read_some_end:
  assumes "src_ok rd" and "read_some CHUNK_LEN rd = (r, rd')" and "\<nexists>buf. r = Ok buf \<and> buf \<noteq> []"
  shows "src_data rd = []"
proof (cases r)
  case (Ok buf)
  with assms read_some_eof [of CHUNK_LEN rd rd'] show ?thesis by (simp add: CHUNK_LEN_def)
qed (use assms(2) in \<open>auto simp: read_some_def src_data_def split: list.splits option.splits if_splits\<close>)

lemma socks_to_tun_stream:
  assumes "\<forall>p. builds p" and "src_ok rd"
  shows "\<exists>ds fin. socks_to_tun builds key s a rd tx = tx @ ds @ [fin] \<and>
    contiguous s (ds @ [fin]) \<and> concat (map tp_payload ds) = src_data rd \<and>
    (\<forall>p \<in> set (ds @ [fin]). data_packet key a p) \<and> (\<forall>p \<in> set ds. \<not> tp_fin p) \<and>
    tp_fin fin \<and> tp_payload fin = []"
  using assms(2)
proof (induction "src_size rd" arbitrary: rd s tx rule: less_induct)
  case less
  obtain r rd' where r: "read_some CHUNK_LEN rd = (r, rd')" by fastforce
  show ?case
  proof (cases "\<exists>buf. r = Ok buf \<and> buf \<noteq> []")
    case False
    from socks_to_tun_end [OF assms(1) r False] read_some_end [OF less.prems r False] out_packet_data [of "[]" key a s True False]
    show ?thesis by (intro exI [of _ "[]"] exI [of _ "out_packet key s a False True False []"]) simp
  next
    case True
    then obtain buf where rb: "read_some CHUNK_LEN rd = (Ok buf, rd')" "buf \<noteq> []" using r by auto
    let ?p = "out_packet key s a False False True buf"
    obtain ds f where d: "socks_to_tun builds key (s + of_nat (length buf)) a rd' (tx @ [?p]) = (tx @ [?p]) @ ds @ [f]"
      "contiguous (s + of_nat (length buf)) (ds @ [f])" "concat (map tp_payload ds) = src_data rd'"
      "\<forall>p \<in> set (ds @ [f]). data_packet key a p" "\<forall>p \<in> set ds. \<not> tp_fin p" "tp_fin f" "tp_payload f = []"
      using less.hyps [OF read_some_decreases [OF rb] read_some_Ok(3) [OF rb(1) less.prems]] by meson
    with socks_to_tun_data [OF assms(1) rb] read_some_Ok(1) [OF rb(1)] out_packet_data [OF read_some_cap [OF rb(1)], of key a s]
    show ?thesis by (intro exI [of _ "?p # ds"] exI [of _ f]) simp
  qed
qed

text \<open>The other direction: what arrives is passed on in order, up to the first failing write.\<close>

lemma data_to_socks_all:
  "wr_limit w = None \<Longrightarrow> data_to_socks ms w = w\<lparr>wr_data := wr_data w @ concat ms\<rparr>"
  by (induction ms arbitrary: w) auto

lemma data_to_socks_prefix: "\<exists>k. wr_data (data_to_socks ms w) = wr_data w @ take k (concat ms)"
proof (induction ms w rule: data_to_socks.induct)
  case (2 payload rest w)
  show ?case
  proof (cases "write_all payload w")
    case (Pair r w')
    show ?thesis
    proof (cases r)
      case (Ok u)
      with Pair have d: "wr_data w' = wr_data w @ payload" by (simp add: write_all_Ok)
      show ?thesis
      proof (cases "payload = []")
        case False
        then obtain k where "wr_data (data_to_socks rest w') = wr_data w' @ take k (concat rest)"
          using 2(2) [OF _ Pair [symmetric] Ok] by blast
        with False Pair Ok d show ?thesis
          by (intro exI [of _ "length payload + k"]) simp
      qed (use 2(1) in simp)
    next
      case (Err e)
      then have "payload \<noteq> []" using Pair by (auto simp: write_all_def split: option.splits prod.splits if_splits)
      moreover obtain k where "wr_data w' = wr_data w @ take k payload"
        using write_all_prefix [of payload w] Pair by auto
      ultimately show ?thesis
        using Pair Err by (intro exI [of _ "min k (length payload)"]) (simp add: min_def)
    next
      case Panic
      then show ?thesis using Pair write_all_no_panic [of payload w] by simp
    qed
  qed
qed (auto intro: exI [of _ 0])

subsection \<open>Properties of a session\<close>

text \<open>C21: Once the proxy has accepted the CONNECT, a session gives the application a well formed TCP
  stream: a SYN-ACK with sequence number 0, then packets whose sequence numbers continue without gaps
  from 1 and whose payloads are exactly the bytes the proxy sends, then one FIN, all with the flow's
  addresses reversed and a correct length field; and the bytes that arrive from the application
  reach the proxy in order. But every one of these packets carries the same acknowledgement number,
  the one of the SYN: nothing the application sends is ever acknowledged.\<close>

theorem session_stream_correct:
  assumes "\<forall>p. builds p" and "socks5_connect target c = (Ok (), c')" and "src_ok (c_in c')"
    and "wr_limit (c_out c') = None"
  shows "\<exists>synack ds fin w. run_tcp_session builds key seq data_rx (Ok c) target tx =
      (tx @ synack # ds @ [fin], Some w) \<and>
    tp_syn synack \<and> tp_seq synack = 0 \<and> contiguous 1 (ds @ [fin]) \<and>
    concat (map tp_payload ds) = src_data (c_in c') \<and>
    (\<forall>p \<in> set (ds @ [fin]). data_packet key (seq + 1) p) \<and> tp_ack_number synack = seq + 1 \<and>
    filter tp_fin (ds @ [fin]) = [fin] \<and>
    wr_data w = wr_data (c_out c') @ concat data_rx"
proof -
  let ?p = "out_packet key 0 (seq + 1) True False False []"
  obtain ds fin where d: "socks_to_tun builds key 1 (seq + 1) (c_in c') (tx @ [?p]) = (tx @ [?p]) @ ds @ [fin]"
    "contiguous 1 (ds @ [fin])" "concat (map tp_payload ds) = src_data (c_in c')"
    "\<forall>p \<in> set (ds @ [fin]). data_packet key (seq + 1) p" "\<forall>p \<in> set ds. \<not> tp_fin p" "tp_fin fin"
    using socks_to_tun_stream [OF assms(1,3)] by meson
  have "run_tcp_session builds key seq data_rx (Ok c) target tx =
      (tx @ ?p # ds @ [fin], Some (data_to_socks data_rx (c_out c')))"
    using d(1) assms(2) by (simp add: run_tcp_session_def Let_def sent_out [OF assms(1)])
  with d(2-6) data_to_socks_all [OF assms(4)] show ?thesis
    by (intro exI [of _ ?p] exI [of _ ds] exI [of _ fin] exI [of _ "data_to_socks data_rx (c_out c')"])
      (auto simp: filter_empty_conv)
qed

text \<open>A proxy whose reply the front accepts: it repeats the address type.\<close>

definition example_socks :: conn where
  "example_socks = fresh_conn [[5, 0], [5, 0, 0, 1, 1, 0, 0, 0, 0, 0, 0], [72, 84, 84, 80], [13, 10]]"

definition example_flow :: FlowKey where
  "example_flow = FlowKey_new [10, 0, 0, 2] 40000 [93, 184, 216, 34] 443"

lemma example_socks_connect:
  "\<exists>c'. socks5_connect example_target example_socks = (Ok (), c') \<and> src_ok (c_in c') \<and>
     wr_limit (c_out c') = None"
  by (simp add: socks5_connect_def example_socks_def example_target_def skip_socks5_addr_def bind_def
      tun_read_def tun_write_def with_err_def on_in_def on_out_def read_exact_def src_data_def src_of_def
      src_ok_def ret_def)

theorem session_stream_correct_witness:
  "\<exists>w. snd (run_tcp_session (\<lambda>_. True) example_flow 7 [[1, 2], [], [3]] (Ok example_socks) example_target []) = Some w"
proof -
  obtain c' where "socks5_connect example_target example_socks = (Ok (), c')" "src_ok (c_in c')"
    "wr_limit (c_out c') = None"
    using example_socks_connect by blast
  from session_stream_correct [OF _ this, of "\<lambda>_. True" example_flow 7 "[[1, 2], [], [3]]" "[]"]
  show ?thesis by auto
qed

text \<open>When the CONNECT fails, for whatever reason, the application gets exactly one packet, a RST that
  acknowledges its SYN, and nothing it sent reaches the proxy.\<close>

theorem failed_connect_resets:
  assumes "\<forall>p. builds p" and "fst (socks5_connect target c) = Err e"
  shows "\<exists>p. run_tcp_session builds key seq data_rx (Ok c) target tx = (tx @ [p], None) \<and>
    tp_rst p \<and> \<not> tp_syn p \<and> \<not> tp_fin p \<and> tp_ack_number p = seq + 1 \<and> tp_payload p = [] \<and>
    tp_dst_ip p = fk_src_ip key \<and> tp_dst_port p = fk_src_port key"
proof -
  obtain c' where "socks5_connect target c = (Err e, c')"
    using assms(2) by (cases "socks5_connect target c") simp
  then show ?thesis
    by (simp add: run_tcp_session_def Let_def sent_packet [OF assms(1)])
qed

theorem failed_connect_resets_witness:
  "\<exists>p. run_tcp_session (\<lambda>_. True) example_flow 7 [[1, 2]] (Ok (fresh_conn [[4, 0]])) example_target [] =
     ([p], None) \<and> tp_rst p"
proof -
  have "fst (socks5_connect example_target (fresh_conn [[4, 0]])) = Err (VersionMismatch 4)"
    by (simp add: socks5_connect_def bind_def tun_read_def tun_write_def with_err_def on_in_def
        on_out_def read_exact_def src_data_def src_of_def)
  from failed_connect_resets [OF _ this, of "\<lambda>_. True" example_flow 7 "[[1, 2]]" "[]"]
  show ?thesis by auto
qed

end
