(* ===== verification/Tun_Processor.thy ===== *)
theory Tun_Processor
  imports Tun_Session Tun_Device
begin

section \<open>The packet processor of the TUN front\<close>

text \<open>
  ghost-tun/src/lib.rs: \<^verbatim>\<open>TunProcessor\<close>, which turns the packets read from the device into
  sessions and data for them. The header parsers are the etherparse library, a parameter. A session and the channel to it are one
  entry of a list, in the order of their creation; the NAT table maps a flow to the index.
\<close>

subsection \<open>Parsed headers\<close>

record ipv4_view =
  ih_len :: nat
  ih_protocol :: u8
  ih_source :: bytes
  ih_destination :: bytes

record tcp_view =
  th_len :: nat
  th_source_port :: u16
  th_destination_port :: u16
  th_seq :: u32
  th_syn :: bool
  th_ack :: bool
  th_fin :: bool
  th_rst :: bool

record etherparse =
  ep_ipv4 :: "bytes \<Rightarrow> ipv4_view option"
  ep_tcp :: "bytes \<Rightarrow> tcp_view option"

text \<open>What the code relies on: the header slices lie within the data.\<close>

definition etherparse_ok :: "etherparse \<Rightarrow> bool" where
  "etherparse_ok E \<longleftrightarrow>
     (\<forall>d h. ep_ipv4 E d = Some h \<longrightarrow> ih_len h \<le> length d) \<and>
     (\<forall>d h. ep_tcp E d = Some h \<longrightarrow> th_len h \<le> length d)"

definition IP_TCP :: u8 where "IP_TCP = 6"
definition IP_UDP :: u8 where "IP_UDP = 17"

subsection \<open>The processor\<close>

record tun_session =
  ts_key :: FlowKey
  ts_client_seq :: u32
  ts_target :: SocketAddr
  ts_data :: "bytes list"
  ts_alive :: bool

record TunProcessor =
  tun_socks5_addr :: SocketAddr
  tun_nat :: TcpNatTable
  tun_sessions :: "tun_session list"

definition TunProcessor_new :: "(TunError, TunDevice) res \<Rightarrow> SocketAddr \<Rightarrow> (TunError, TunProcessor) res" where
  "TunProcessor_new device socks5_addr =
     bind_res device (\<lambda>_. Ok \<lparr>tun_socks5_addr = socks5_addr, tun_nat = TcpNatTable_new, tun_sessions = []\<rparr>)"

text \<open>\<^verbatim>\<open>tx.send\<close>, whose error (the session has dropped its end) the code ignores.\<close>

definition session_send :: "bytes \<Rightarrow> tun_session \<Rightarrow> tun_session" where
  "session_send m s = (if ts_alive s then s\<lparr>ts_data := ts_data s @ [m]\<rparr> else s)"

definition tx_send :: "nat \<Rightarrow> bytes \<Rightarrow> TunProcessor \<Rightarrow> TunProcessor" where
  "tx_send i m st = st\<lparr>tun_sessions := (tun_sessions st)[i := session_send m (tun_sessions st ! i)]\<rparr>"

definition new_session :: "FlowKey \<Rightarrow> u32 \<Rightarrow> tun_session" where
  "new_session key seq = \<lparr>ts_key = key, ts_client_seq = seq,
     ts_target = V4 (socket_v4 (fk_dst_ip key) (fk_dst_port key)), ts_data = [], ts_alive = True\<rparr>"

text \<open>The part of \<^verbatim>\<open>handle_tcp\<close> after the parsing.\<close>

definition handle_segment :: "FlowKey \<Rightarrow> tcp_view \<Rightarrow> bytes \<Rightarrow> TunProcessor \<Rightarrow> TunProcessor" where
  "handle_segment key tcp tcp_payload st =
     (if th_rst tcp then st\<lparr>tun_nat := TcpNatTable_remove key (tun_nat st)\<rparr>
      else if th_syn tcp \<and> \<not> th_ack tcp then
        (if TcpNatTable_get (tun_nat st) key \<noteq> None then st
         else st\<lparr>tun_nat := TcpNatTable_insert key (length (tun_sessions st)) (tun_nat st),
                 tun_sessions := tun_sessions st @ [new_session key (th_seq tcp)]\<rparr>)
      else case TcpNatTable_get (tun_nat st) key of
          Some tx \<Rightarrow>
            if th_fin tcp then
              (let st' = tx_send tx [] st in st'\<lparr>tun_nat := TcpNatTable_remove key (tun_nat st')\<rparr>)
            else if tcp_payload \<noteq> [] then tx_send tx tcp_payload st
            else st
        | None \<Rightarrow> st)"

definition handle_tcp :: "etherparse \<Rightarrow> ipv4_view \<Rightarrow> bytes \<Rightarrow> (TunProcessor, TunError, unit) stm" where
  "handle_tcp E ip payload st =
     (case ep_tcp E payload of
        None \<Rightarrow> (Err BadTcp, st)
      | Some tcp \<Rightarrow>
          if length payload < th_len tcp then (Panic, st)
          else
            let tcp_payload = drop (th_len tcp) payload;
                key = FlowKey_new (ih_source ip) (th_source_port tcp) (ih_destination ip) (th_destination_port tcp)
            in (Ok (), handle_segment key tcp tcp_payload st))"

definition handle_udp :: "ipv4_view \<Rightarrow> bytes \<Rightarrow> (TunProcessor, TunError, unit) stm" where
  "handle_udp ip payload = ret ()"

definition process_packet :: "etherparse \<Rightarrow> bytes \<Rightarrow> (TunProcessor, TunError, unit) stm" where
  "process_packet E data st =
     (if length data < 20 then (Ok (), st)
      else if drop_bit 4 (data ! 0) AND 0x0f \<noteq> 4 then (Ok (), st)
      else case ep_ipv4 E data of
          None \<Rightarrow> (Err BadIpv4, st)
        | Some ip \<Rightarrow>
            if length data < ih_len ip then (Panic, st)
            else
              let payload = drop (ih_len ip) data in
              if ih_protocol ip = IP_TCP then handle_tcp E ip payload st
              else if ih_protocol ip = IP_UDP then handle_udp ip payload st
              else (Ok (), st))"

text \<open>
  The main loop, from the attempts at the device. It stops at an empty read; \<^verbatim>\<open>run\<close> then
  waits for the writing task, which ends when the channel has lost all its senders. One of these is
  \<^verbatim>\<open>tun_tx\<close>, which \<^verbatim>\<open>run\<close> itself still holds, so that this wait is the state the program stays in.
\<close>

definition TUN_BUF_LEN :: nat where "TUN_BUF_LEN = 65535"

datatype run_state = Reading | AwaitingWriter | Crashed

function tun_run :: "etherparse \<Rightarrow> bytes attempt list \<Rightarrow> TunProcessor \<Rightarrow> run_state \<times> TunProcessor" where
  "tun_run E tries st =
     (case TunDevice_read TUN_BUF_LEN tries of
        (None, _) \<Rightarrow> (Reading, st)
      | (Some (Ok buf), rest) \<Rightarrow>
          if buf = [] then (AwaitingWriter, st)
          else (case process_packet E buf st of
              (Panic, st') \<Rightarrow> (Crashed, st')
            | (_, st') \<Rightarrow> tun_run E rest st')
      | (Some (Err e), rest) \<Rightarrow> tun_run E rest st
      | (Some Panic, rest) \<Rightarrow> (Crashed, st))"
  by pat_completeness auto
termination
  by (relation "measure (\<lambda>(E, ts, st). length ts)") (auto simp: TunDevice_read_def dest!: sym [of "(Some _, _)"] device_io_shorter)

declare tun_run.simps [simp del]


subsection \<open>What a packet is, as a segment of a flow\<close>

text \<open>The segment that reaches \<^verbatim>\<open>handle_segment\<close>, if the packet is TCP over IPv4 and both headers parse.\<close>

definition segment_of :: "etherparse \<Rightarrow> bytes \<Rightarrow> (FlowKey \<times> tcp_view \<times> bytes) option" where
  "segment_of E data =
     (if length data < 20 \<or> drop_bit 4 (data ! 0) AND 0x0f \<noteq> 4 then None
      else case ep_ipv4 E data of
          None \<Rightarrow> None
        | Some ip \<Rightarrow>
            if ih_protocol ip \<noteq> IP_TCP then None
            else case ep_tcp E (drop (ih_len ip) data) of
                None \<Rightarrow> None
              | Some tcp \<Rightarrow> Some (FlowKey_new (ih_source ip) (th_source_port tcp) (ih_destination ip)
                    (th_destination_port tcp), tcp, drop (th_len tcp) (drop (ih_len ip) data)))"

definition apply_segment :: "(FlowKey \<times> tcp_view \<times> bytes) option \<Rightarrow> TunProcessor \<Rightarrow> TunProcessor" where
  "apply_segment s st = (case s of None \<Rightarrow> st | Some (key, tcp, pl) \<Rightarrow> handle_segment key tcp pl st)"

lemma handle_tcp_ok:
  assumes "etherparse_ok E"
  shows "handle_tcp E ip payload st = (case ep_tcp E payload of None \<Rightarrow> (Err BadTcp, st)
    | Some tcp \<Rightarrow> (Ok (), handle_segment (FlowKey_new (ih_source ip) (th_source_port tcp)
        (ih_destination ip) (th_destination_port tcp)) tcp (drop (th_len tcp) payload) st))"
proof (cases "ep_tcp E payload")
  case (Some tcp)
  with assms have "\<not> length payload < th_len tcp" by (auto simp: etherparse_ok_def not_less)
  with Some show ?thesis by (simp add: handle_tcp_def)
qed (simp add: handle_tcp_def)

lemma process_packet_segment:
  assumes "etherparse_ok E"
  shows "\<exists>r. process_packet E data st = (r, apply_segment (segment_of E data) st) \<and> r \<noteq> Panic"
proof (cases "ep_ipv4 E data")
  case (Some ip)
  with assms have "\<not> length data < ih_len ip" by (auto simp: etherparse_ok_def not_less)
  with Some show ?thesis
    by (simp add: process_packet_def segment_of_def apply_segment_def handle_tcp_ok [OF assms]
        handle_udp_def split: option.split)
qed (simp add: process_packet_def segment_of_def apply_segment_def)

subsection \<open>One flow at a time\<close>

text \<open>
  The specification: a flow is an automaton of its own. Its state is whether the table has an entry
  for it, and the sessions it has had, the current one last; a segment of the flow is its only input.
\<close>

type_synonym flow_state = "bool \<times> tun_session list"

definition send_last :: "bytes \<Rightarrow> tun_session list \<Rightarrow> tun_session list" where
  "send_last m ss = butlast ss @ [session_send m (last ss)]"

definition flow_step :: "FlowKey \<Rightarrow> tcp_view \<Rightarrow> bytes \<Rightarrow> flow_state \<Rightarrow> flow_state" where
  "flow_step key tcp pl f =
     (case f of (active, ss) \<Rightarrow>
        if th_rst tcp then (False, ss)
        else if th_syn tcp \<and> \<not> th_ack tcp then
          (if active then (True, ss) else (True, ss @ [new_session key (th_seq tcp)]))
        else if \<not> active then (False, ss)
        else if th_fin tcp then (False, send_last [] ss)
        else if pl \<noteq> [] then (True, send_last pl ss)
        else (True, ss))"

definition of_flow :: "FlowKey \<Rightarrow> tun_session \<Rightarrow> bool" where
  "of_flow key s \<longleftrightarrow> ts_key s = key"

definition flow_abs :: "FlowKey \<Rightarrow> TunProcessor \<Rightarrow> flow_state" where
  "flow_abs key st = (TcpNatTable_get (tun_nat st) key \<noteq> None, filter (of_flow key) (tun_sessions st))"

text \<open>The invariant: an entry of the table is the latest session of its own flow.\<close>

definition nat_ok :: "TunProcessor \<Rightarrow> bool" where
  "nat_ok st \<longleftrightarrow> (\<forall>key i. TcpNatTable_get (tun_nat st) key = Some i \<longrightarrow>
     i < length (tun_sessions st) \<and> of_flow key (tun_sessions st ! i) \<and>
     (\<forall>j < length (tun_sessions st). i < j \<longrightarrow> \<not> of_flow key (tun_sessions st ! j)))"

lemma nat_okD:
  assumes "nat_ok st" and "TcpNatTable_get (tun_nat st) key = Some i"
  shows "i < length (tun_sessions st)" and "of_flow key (tun_sessions st ! i)"
    and "i < j \<Longrightarrow> j < length (tun_sessions st) \<Longrightarrow> \<not> of_flow key (tun_sessions st ! j)"
  using assms by (auto simp: nat_ok_def)

lemma of_flow_send [simp]: "of_flow key (session_send m s) = of_flow key s"
  by (simp add: of_flow_def session_send_def)

lemma of_flow_new [simp]: "of_flow key (new_session k seq) \<longleftrightarrow> k = key"
  by (simp add: of_flow_def new_session_def)

lemma tx_send_simps [simp]: "tun_nat (tx_send i m st) = tun_nat st"
  "tun_sessions (tx_send i m st) = (tun_sessions st)[i := session_send m (tun_sessions st ! i)]"
  by (simp_all add: tx_send_def)

lemma of_flow_nth_update [simp]:
  "of_flow key (xs[i := session_send m (xs ! i)] ! j) = of_flow key (xs ! j)"
  by (cases "i < length xs"; cases "i = j") (auto simp: list_update_beyond)

lemma nat_ok_tx_send: "nat_ok st \<Longrightarrow> nat_ok (tx_send i m st)"
  unfolding nat_ok_def by simp

lemma nat_ok_remove:
  assumes "nat_ok st"
  shows "nat_ok (st\<lparr>tun_nat := TcpNatTable_remove key (tun_nat st)\<rparr>)"
  using assms by (auto simp: nat_ok_def nat_table.get_remove split: if_splits)

lemma nat_ok_insert:
  assumes "nat_ok st"
  shows "nat_ok (st\<lparr>tun_nat := TcpNatTable_insert key (length (tun_sessions st)) (tun_nat st),
    tun_sessions := tun_sessions st @ [new_session key seq]\<rparr>)"
  using assms by (auto simp: nat_ok_def nat_table.get_insert nth_append less_Suc_eq split: if_splits)

lemma nat_ok_segment: "nat_ok st \<Longrightarrow> nat_ok (handle_segment key tcp pl st)"
  using nat_ok_remove [OF nat_ok_tx_send, of st]
  by (auto simp: handle_segment_def Let_def nat_ok_remove nat_ok_insert nat_ok_tx_send split: option.splits)

text \<open>A list whose last element with the property is at a known place.\<close>

lemma filter_update_last:
  assumes "i < length xs" and "P (xs ! i)" and "P x" and "\<forall>j < length xs. i < j \<longrightarrow> \<not> P (xs ! j)"
  shows "filter P (xs[i := x]) = butlast (filter P xs) @ [x]" and "last (filter P xs) = xs ! i"
proof -
  have none: "filter P (drop (Suc i) xs) = []"
  proof (rule ccontr)
    assume "filter P (drop (Suc i) xs) \<noteq> []"
    then obtain n where "n < length (drop (Suc i) xs)" "P (drop (Suc i) xs ! n)"
      by (metis filter_empty_conv in_set_conv_nth)
    with assms(4) show False by auto
  qed
  from id_take_nth_drop [OF assms(1)] none assms(2)
  have f: "filter P xs = filter P (take i xs) @ [xs ! i]"
    by (metis (no_types, lifting) append_Nil2 filter.simps(2) filter_append)
  then show "last (filter P xs) = xs ! i" by simp
  from f none assms(1,3) show "filter P (xs[i := x]) = butlast (filter P xs) @ [x]"
    by (simp add: upd_conv_take_nth_drop)
qed

lemma flow_send_same:
  assumes "nat_ok st" and "TcpNatTable_get (tun_nat st) key = Some i"
  shows "filter (of_flow key) (tun_sessions (tx_send i m st)) =
    send_last m (filter (of_flow key) (tun_sessions st))"
  using filter_update_last [of i "tun_sessions st" "of_flow key" "session_send m (tun_sessions st ! i)"]
    nat_okD [OF assms] by (simp add: send_last_def)

lemma flow_send_other:
  assumes "nat_ok st" and "TcpNatTable_get (tun_nat st) key = Some i" and "k \<noteq> key"
  shows "filter (of_flow k) (tun_sessions (tx_send i m st)) = filter (of_flow k) (tun_sessions st)"
proof -
  let ?xs = "tun_sessions st"
  have i: "i < length ?xs" "\<not> of_flow k (?xs ! i)"
    using nat_okD [OF assms(1,2)] assms(3) by (auto simp: of_flow_def)
  have "filter (of_flow k) ?xs = filter (of_flow k) (take i ?xs @ ?xs ! i # drop (Suc i) ?xs)"
    by (simp only: id_take_nth_drop [OF i(1), symmetric])
  then show ?thesis using i by (simp add: upd_conv_take_nth_drop)
qed

lemma handle_segment_refines:
  assumes "nat_ok st"
  shows "flow_abs k (handle_segment key tcp pl st) =
    (if k = key then flow_step key tcp pl (flow_abs k st) else flow_abs k st)"
proof (cases "th_rst tcp \<or> th_syn tcp \<and> \<not> th_ack tcp")
  case True
  then show ?thesis
    by (auto simp: handle_segment_def flow_abs_def flow_step_def nat_table.get_remove nat_table.get_insert)
next
  case data: False
  show ?thesis
  proof (cases "TcpNatTable_get (tun_nat st) key")
    case None
    with data show ?thesis by (auto simp: handle_segment_def flow_abs_def flow_step_def)
  next
    case (Some i)
    from data Some flow_send_same [OF assms Some] flow_send_other [OF assms Some, of k] show ?thesis
      by (cases "k = key") (auto simp: handle_segment_def flow_abs_def flow_step_def nat_table.get_remove Let_def
        simp del: tx_send_simps(2))
  qed
qed


subsection \<open>Whole runs\<close>

text \<open>What a packet is to the automaton of flow \<open>k\<close>.\<close>

definition flow_input :: "etherparse \<Rightarrow> FlowKey \<Rightarrow> bytes \<Rightarrow> flow_state \<Rightarrow> flow_state" where
  "flow_input E k data f =
     (case segment_of E data of
        Some (key, tcp, pl) \<Rightarrow> if k = key then flow_step key tcp pl f else f
      | None \<Rightarrow> f)"

lemma apply_segment_refines:
  assumes "nat_ok st"
  shows "flow_abs k (apply_segment (segment_of E data) st) = flow_input E k data (flow_abs k st)"
  using handle_segment_refines [OF assms]
  by (auto simp: apply_segment_def flow_input_def split: option.split)

lemma nat_ok_apply: "nat_ok st \<Longrightarrow> nat_ok (apply_segment s st)"
  by (auto simp: apply_segment_def nat_ok_segment split: option.split)

lemma nat_ok_new: "TunProcessor_new device addr = Ok st \<Longrightarrow> nat_ok st"
  by (auto simp: TunProcessor_new_def nat_ok_def nat_table.get_empty bind_res_eq_Ok)

text \<open>The packets a run reads before it is told the end.\<close>

definition read_round :: "bytes attempt \<Rightarrow> (io_error, bytes) res option" where
  "read_round = device_round (\<lambda>t. take (min TUN_BUF_LEN (nat (at_result t))) (at_value t))"

fun packets_read :: "bytes attempt list \<Rightarrow> bytes list" where
  "packets_read [] = []"
| "packets_read (t # rest) =
     (case read_round t of
        None \<Rightarrow> packets_read rest
      | Some (Ok buf) \<Rightarrow> if buf = [] then [] else buf # packets_read rest
      | Some (Err e) \<Rightarrow> packets_read rest
      | Some Panic \<Rightarrow> [])"

lemma TunDevice_read_step:
  "TunDevice_read TUN_BUF_LEN [] = (None, [])"
  "TunDevice_read TUN_BUF_LEN (t # rest) =
     (case read_round t of None \<Rightarrow> TunDevice_read TUN_BUF_LEN rest | Some r \<Rightarrow> (Some r, rest))"
  by (simp_all add: TunDevice_read_def read_round_def cong: option.case_cong)

lemma tun_run_steps:
  "tun_run E [] st = (Reading, st)"
  "tun_run E (t # rest) st =
     (case read_round t of
        None \<Rightarrow> tun_run E rest st
      | Some (Err e) \<Rightarrow> tun_run E rest st
      | Some Panic \<Rightarrow> (Crashed, st)
      | Some (Ok buf) \<Rightarrow>
          if buf = [] then (AwaitingWriter, st)
          else (case process_packet E buf st of (Panic, st') \<Rightarrow> (Crashed, st') | (_, st') \<Rightarrow> tun_run E rest st'))"
  by (simp_all add: tun_run.simps [of E "[]"] tun_run.simps [of E "t # rest"] tun_run.simps [of E rest]
      TunDevice_read_step split: option.split res.split)

lemma tun_run_packets:
  assumes "etherparse_ok E"
  shows "snd (tun_run E tries st) = fold (\<lambda>d. apply_segment (segment_of E d)) (packets_read tries) st \<and>
    fst (tun_run E tries st) = (if \<exists>t \<in> set tries. read_round t = Some (Ok []) then AwaitingWriter else Reading)"
proof (induction tries arbitrary: st)
  case (Cons t rest)
  have "read_round t \<noteq> Some Panic" by (simp add: read_round_def)
  then consider "read_round t = None" | e where "read_round t = Some (Err e)" | "read_round t = Some (Ok [])"
    | buf where "read_round t = Some (Ok buf)" "buf \<noteq> []"
    by (metis option.exhaust res.exhaust)
  then show ?case
  proof cases
    case 4
    obtain r where "process_packet E buf st = (r, apply_segment (segment_of E buf) st)" "r \<noteq> Panic"
      using process_packet_segment [OF assms] by blast
    with 4 Cons.IH [of "apply_segment (segment_of E buf) st"] show ?thesis by (cases r) (simp_all add: tun_run_steps)
  qed (use Cons.IH in \<open>simp_all add: tun_run_steps\<close>)
qed (simp add: tun_run_steps)

text \<open>A read that gets a packet.\<close>

definition got :: "bytes \<Rightarrow> bytes attempt" where
  "got d = \<lparr>at_ready = None, at_result = int (length d), at_errno = 0, at_value = d\<rparr>"

definition failed :: "nat \<Rightarrow> bytes attempt" where
  "failed errno = \<lparr>at_ready = None, at_result = -1, at_errno = errno, at_value = []\<rparr>"

lemma read_round_simps [simp]:
  "length d \<le> TUN_BUF_LEN \<Longrightarrow> read_round (got d) = Some (Ok d)"
  "read_round (failed n) = (if n = EAGAIN then None else Some (Err (IoFault n)))"
  by (simp_all add: read_round_def device_round_def got_def failed_def)

lemma fold_refines:
  "nat_ok st \<Longrightarrow>
   flow_abs k (fold (\<lambda>d. apply_segment (segment_of E d)) ds st) = fold (flow_input E k) ds (flow_abs k st)"
  and nat_ok_fold: "nat_ok st \<Longrightarrow> nat_ok (fold (\<lambda>d. apply_segment (segment_of E d)) ds st)"
  by (induction ds arbitrary: st) (simp_all add: apply_segment_refines nat_ok_apply)

text \<open>C20: The packet processor keeps the flows apart. For every sequence of reads from the device,
  interrupted, failing or not, with any packets in it, whether they parse or not, the run does not crash;
  and what becomes of a flow (its table entry, its sessions and the data each has been sent) is what the
  automaton of that flow alone makes of the flow's own segments, in their order. After an
  empty read the run stays waiting for its writer.\<close>

theorem tun_run_refines_flows:
  assumes "etherparse_ok E" and "nat_ok st"
  shows "flow_abs k (snd (tun_run E tries st)) = fold (flow_input E k) (packets_read tries) (flow_abs k st) \<and>
    nat_ok (snd (tun_run E tries st)) \<and>
    fst (tun_run E tries st) = (if \<exists>t \<in> set tries. read_round t = Some (Ok []) then AwaitingWriter else Reading)"
  using tun_run_packets [OF assms(1)] fold_refines [OF assms(2)] nat_ok_fold [OF assms(2)]
  by simp

subsection \<open>A concrete parser, for closed instances\<close>

text \<open>Headers without options.\<close>

definition plain_ipv4 :: "bytes \<Rightarrow> ipv4_view option" where
  "plain_ipv4 d = (if length d < 20 then None
     else Some \<lparr>ih_len = 20, ih_protocol = d ! 9, ih_source = take 4 (drop 12 d), ih_destination = take 4 (drop 16 d)\<rparr>)"

definition plain_tcp :: "bytes \<Rightarrow> tcp_view option" where
  "plain_tcp d = (if length d < 20 then None
     else Some \<lparr>th_len = 20, th_source_port = of_be16 (take 2 d), th_destination_port = of_be16 (take 2 (drop 2 d)),
       th_seq = of_be32 (take 4 (drop 4 d)), th_syn = bit (d ! 13) 1, th_ack = bit (d ! 13) 4,
       th_fin = bit (d ! 13) 0, th_rst = bit (d ! 13) 2\<rparr>)"

definition plain_parser :: etherparse where
  "plain_parser = \<lparr>ep_ipv4 = plain_ipv4, ep_tcp = plain_tcp\<rparr>"

lemma plain_parser_ok: "etherparse_ok plain_parser"
  by (simp add: etherparse_ok_def plain_parser_def plain_ipv4_def plain_tcp_def)

definition example_packet :: "u8 \<Rightarrow> u32 \<Rightarrow> bytes \<Rightarrow> bytes" where
  "example_packet flags seq payload =
     [0x45, 0, 0, 40, 0, 0, 0, 0, 64, 6, 0, 0] @ [10, 0, 0, 2] @ [93, 184, 216, 34] @
     be16 40000 @ be16 443 @ be32 seq @ [0, 0, 0, 0] @ [0x50, flags, 255, 255, 0, 0, 0, 0] @ payload"

lemma example_packet_segment:
  "segment_of plain_parser (example_packet flags seq payload) =
     Some (example_flow, \<lparr>th_len = 20, th_source_port = 40000, th_destination_port = 443, th_seq = seq,
       th_syn = bit flags 1, th_ack = bit flags 4, th_fin = bit flags 0, th_rst = bit flags 2\<rparr>, payload)"
  by (simp add: segment_of_def plain_parser_def plain_ipv4_def plain_tcp_def example_packet_def IP_TCP_def
      example_flow_def nth_append)

lemma example_packet_fits: "length payload \<le> 65000 \<Longrightarrow> length (example_packet flags seq payload) \<le> TUN_BUF_LEN"
  by (simp add: example_packet_def TUN_BUF_LEN_def)

lemma example_packet_nonempty: "example_packet flags seq payload \<noteq> []"
  by (simp add: example_packet_def)

definition example_tun :: TunProcessor where
  "example_tun = \<lparr>tun_socks5_addr = V4 (socket_v4 0x7F000001 10808), tun_nat = TcpNatTable_new, tun_sessions = []\<rparr>"

lemma example_tun_ok: "nat_ok example_tun"
  by (rule nat_ok_new [of "Ok \<lparr>td_fd = 3, td_async_fd = 3\<rparr>" "V4 (socket_v4 0x7F000001 10808)"]) (simp add: TunProcessor_new_def example_tun_def)

definition example_open_tun :: TunProcessor where
  "example_open_tun = example_tun\<lparr>tun_nat := TcpNatTable_insert example_flow 0 TcpNatTable_new,
     tun_sessions := [new_session example_flow 7]\<rparr>"

lemma example_open_tun_ok: "nat_ok example_open_tun"
  by (simp add: nat_ok_def example_open_tun_def nat_table.get_insert nat_table.get_empty)

text \<open>A SYN, an interrupted and a failing read, a data segment, and the close of the device.\<close>

theorem tun_run_refines_flows_witness:
  "flow_abs example_flow (snd (tun_run plain_parser
      [got (example_packet 0x02 7 []), failed EAGAIN, failed 5, got (example_packet 0x18 8 [1, 2]), got []] example_tun)) =
   (True, [(new_session example_flow 7)\<lparr>ts_data := [[1, 2]]\<rparr>])"
proof -
  have start: "flow_abs example_flow example_tun = (False, [])"
    by (simp add: flow_abs_def example_tun_def nat_table.get_empty)
  show ?thesis
    using tun_run_refines_flows [OF plain_parser_ok example_tun_ok,
        of example_flow "[got (example_packet 0x02 7 []), failed EAGAIN, failed 5, got (example_packet 0x18 8 [1, 2]), got []]"]
    by (simp add: start flow_input_def example_packet_segment example_packet_nonempty example_packet_fits flow_step_def
        send_last_def session_send_def new_session_def EAGAIN_def)
qed


subsection \<open>A flow's data\<close>

definition plain_data :: "tcp_view \<Rightarrow> bool" where
  "plain_data tcp \<longleftrightarrow> \<not> th_rst tcp \<and> \<not> th_fin tcp \<and> (th_syn tcp \<longrightarrow> th_ack tcp)"

lemma send_last_alive:
  assumes "ss \<noteq> []" and "ts_alive (last ss)"
  shows "ts_data (last (send_last m ss)) = ts_data (last ss) @ [m]"
    and "ts_alive (last (send_last m ss))" and "send_last m ss \<noteq> []"
    and "butlast (send_last m ss) = butlast ss"
  using assms by (simp_all add: send_last_def session_send_def)

text \<open>What data segments do to an open flow: the sequence numbers play no part.\<close>

lemma flow_data_segments:
  assumes "\<forall>d \<in> set ds. \<exists>tcp pl. segment_of E d = Some (key, tcp, pl) \<and> plain_data tcp"
    and "ss \<noteq> []" and "ts_alive (last ss)"
  shows "\<exists>ss'. fold (flow_input E key) ds (True, ss) = (True, ss') \<and> ss' \<noteq> [] \<and> ts_alive (last ss') \<and>
    butlast ss' = butlast ss \<and>
    concat (ts_data (last ss')) =
      concat (ts_data (last ss)) @ concat (map (\<lambda>d. snd (snd (the (segment_of E d)))) ds)"
  using assms
proof (induction ds arbitrary: ss)
  case (Cons d ds)
  from Cons.prems(1) obtain tcp pl where d: "segment_of E d = Some (key, tcp, pl)" "plain_data tcp" by auto
  let ?s = "if pl = [] then ss else send_last pl ss"
  have step: "flow_input E key d (True, ss) = (True, ?s)"
    using d by (auto simp: flow_input_def flow_step_def plain_data_def)
  have s: "?s \<noteq> []" "ts_alive (last ?s)" "butlast ?s = butlast ss"
    "concat (ts_data (last ?s)) = concat (ts_data (last ss)) @ pl"
    using send_last_alive [OF Cons.prems(2,3), of pl] Cons.prems(2,3) by auto
  from Cons.IH [OF _ s(1,2)] Cons.prems(1) step s(3,4) d(1) show ?case by auto
qed simp

text \<open>While a flow is open, the bytes its proxy connection is sent are the payloads of its data
  segments in the order in which they are read, whatever their sequence numbers: a segment that the application
  retransmits (and it must, since no acknowledgement is ever sent) is delivered again, one that was reordered
  is delivered out of order.\<close>

theorem segments_forwarded_as_they_come:
  assumes "etherparse_ok E" and "nat_ok st"
    and "flow_abs key st = (True, old @ [s])" and "ts_alive s"
    and "\<forall>d \<in> set ds. d \<noteq> [] \<and> length d \<le> TUN_BUF_LEN \<and> (\<exists>tcp pl. segment_of E d = Some (key, tcp, pl) \<and> plain_data tcp)"
    and "wr_limit w = None"
  shows "\<exists>s'. flow_abs key (snd (tun_run E (map got ds) st)) = (True, old @ [s']) \<and>
    wr_data (data_to_socks (ts_data s') w) =
      wr_data w @ concat (ts_data s) @ concat (map (\<lambda>d. snd (snd (the (segment_of E d)))) ds)"
proof -
  have p: "packets_read (map got ds) = ds"
    using assms(5) by (induction ds) auto
  obtain ss' where ss': "fold (flow_input E key) ds (True, old @ [s]) = (True, ss')" "ss' \<noteq> []"
    "butlast ss' = butlast (old @ [s])"
    "concat (ts_data (last ss')) =
       concat (ts_data (last (old @ [s]))) @ concat (map (\<lambda>d. snd (snd (the (segment_of E d)))) ds)"
    using flow_data_segments [of ds E key "old @ [s]"] assms(4,5) by auto
  have "flow_abs key (snd (tun_run E (map got ds) st)) = (True, ss')"
    unfolding conjunct1 [OF tun_run_packets [OF assms(1)]] p ss'(1) [symmetric] assms(3) [symmetric]
    by (rule fold_refines [OF assms(2)])
  moreover have "ss' = old @ [last ss']" using ss'(2,3) by (metis append_butlast_last_id butlast_snoc)
  ultimately show ?thesis
    using ss'(4) data_to_socks_all [OF assms(6), of "ts_data (last ss')"]
    by (intro exI [of _ "last ss'"]) simp
qed

text \<open>A segment that is sent twice arrives twice.\<close>

theorem segments_forwarded_as_they_come_witness:
  "\<exists>s'. wr_data (data_to_socks (ts_data s') fresh_writer) = [1, 2, 1, 2] \<and>
     flow_abs example_flow (snd (tun_run plain_parser
       (map got [example_packet 0x18 8 [1, 2], example_packet 0x18 8 [1, 2]]) example_open_tun)) =
     (True, [s'])"
proof -
  have f: "flow_abs example_flow example_open_tun = (True, [] @ [new_session example_flow 7])"
    by (simp add: flow_abs_def example_open_tun_def nat_table.get_insert)
  show ?thesis
    using segments_forwarded_as_they_come [OF plain_parser_ok example_open_tun_ok f,
        of "[example_packet 0x18 8 [1, 2], example_packet 0x18 8 [1, 2]]" fresh_writer]
    by (auto simp: example_packet_segment example_packet_nonempty example_packet_fits plain_data_def new_session_def)
qed

text \<open>What the last segment of a stream carries is lost: a segment with FIN closes the flow (the table entry goes,
  and later segments of the flow have no effect) and its payload is not passed on.\<close>

theorem fin_payload_dropped:
  assumes "etherparse_ok E" and "nat_ok st" and "flow_abs key st = (True, old @ [s])"
    and "segment_of E d = Some (key, tcp, pl)" and "th_fin tcp" and "\<not> th_rst tcp" and "th_syn tcp \<longrightarrow> th_ack tcp"
  shows "\<exists>s'. flow_abs key (snd (process_packet E d st)) = (False, old @ [s']) \<and>
    concat (ts_data s') = concat (ts_data s)"
proof -
  obtain r where "process_packet E d st = (r, apply_segment (segment_of E d) st)"
    using process_packet_segment [OF assms(1)] by blast
  then have "flow_abs key (snd (process_packet E d st)) = (False, send_last [] (old @ [s]))"
    using apply_segment_refines [OF assms(2), of key E d] assms(3-7)
    by (simp add: flow_input_def flow_step_def)
  then show ?thesis by (intro exI [of _ "session_send [] s"]) (simp add: send_last_def session_send_def)
qed

theorem fin_payload_dropped_witness:
  "\<exists>s'. flow_abs example_flow (snd (process_packet plain_parser (example_packet 0x11 8 [1, 2]) example_open_tun)) =
     (False, [s']) \<and> concat (ts_data s') = []"
proof -
  have f: "flow_abs example_flow example_open_tun = (True, [] @ [new_session example_flow 7])"
    by (simp add: flow_abs_def example_open_tun_def nat_table.get_insert)
  show ?thesis
    using fin_payload_dropped [OF plain_parser_ok example_open_tun_ok f example_packet_segment [of "0x11" 8 "[1, 2]"]]
    by (simp add: new_session_def)
qed

subsection \<open>Sessions that have ended\<close>

text \<open>
  A session that ends (its CONNECT failed, a write failed) drops its end of the channel; nothing tells
  the table. Packets and such ends, in any order:
\<close>

datatype tun_event = PacketIn bytes | SessionEnds nat

fun tun_apply :: "etherparse \<Rightarrow> tun_event \<Rightarrow> TunProcessor \<Rightarrow> TunProcessor" where
  "tun_apply E (PacketIn data) st = snd (process_packet E data st)"
| "tun_apply E (SessionEnds i) st =
     st\<lparr>tun_sessions := (tun_sessions st)[i := (tun_sessions st ! i)\<lparr>ts_alive := False\<rparr>]\<rparr>"

text \<open>The packets that remove the entry of a flow.\<close>

fun closes_flow :: "etherparse \<Rightarrow> FlowKey \<Rightarrow> tun_event \<Rightarrow> bool" where
  "closes_flow E key (PacketIn data) =
     (case segment_of E data of
        Some (k, tcp, pl) \<Rightarrow> k = key \<and> (th_rst tcp \<or> th_fin tcp \<and> (th_syn tcp \<longrightarrow> th_ack tcp))
      | None \<Rightarrow> False)"
| "closes_flow E key (SessionEnds i) = False"

text \<open>How many sessions a flow has had.\<close>

definition sessions_of :: "FlowKey \<Rightarrow> TunProcessor \<Rightarrow> nat" where
  "sessions_of key st = count_list (map ts_key (tun_sessions st)) key"

definition flow_dead :: "FlowKey \<Rightarrow> nat \<Rightarrow> tun_session \<Rightarrow> nat \<Rightarrow> TunProcessor \<Rightarrow> bool" where
  "flow_dead key i s n st \<longleftrightarrow> nat_ok st \<and> TcpNatTable_get (tun_nat st) key = Some i \<and>
     tun_sessions st ! i = s \<and> \<not> ts_alive s \<and> sessions_of key st = n"

lemma ts_key_send [simp]: "ts_key (session_send m s) = ts_key s"
  by (simp add: session_send_def)

lemma map_key_update [simp]: "ts_key s = ts_key (xs ! i) \<Longrightarrow> map ts_key (xs[i := s]) = map ts_key xs"
  by (metis list_update_id map_update)

lemma sessions_of_tx_send [simp]: "sessions_of key (tx_send i m st) = sessions_of key st"
  by (simp add: sessions_of_def)

lemma sessions_of_nat [simp]: "sessions_of key (tun_nat_update f st) = sessions_of key st"
  by (simp add: sessions_of_def)

lemma session_end_ok: "nat_ok st \<Longrightarrow> nat_ok (tun_apply E (SessionEnds i) st)"
  by (cases "i < length (tun_sessions st)")
    (auto simp: nat_ok_def nth_list_update of_flow_def list_update_beyond)

lemma dead_send [simp]: "\<not> ts_alive s \<Longrightarrow> session_send m s = s"
  by (simp add: session_send_def)

lemma dead_again [simp]: "\<not> ts_alive s \<Longrightarrow> s\<lparr>ts_alive := False\<rparr> = s"
  by (cases s) simp

lemma flow_dead_segment:
  assumes "flow_dead key i s n st"
    and "k = key \<Longrightarrow> \<not> th_rst tcp \<and> (th_fin tcp \<longrightarrow> th_syn tcp \<and> \<not> th_ack tcp)"
  shows "flow_dead key i s n (handle_segment k tcp pl st)"
proof -
  note d = assms(1) [unfolded flow_dead_def]
  have len: "i < length (tun_sessions st)" and own: "ts_key s = key"
    using d nat_okD [of st key i] by (auto simp: of_flow_def)
  have other: "j \<noteq> i" if "TcpNatTable_get (tun_nat st) k = Some j" "k \<noteq> key" for j
    using that d own nat_okD(2) [of st k j] by (auto simp: of_flow_def)
  have "nat_ok (handle_segment k tcp pl st)" using d by (simp add: nat_ok_segment)
  moreover have "TcpNatTable_get (tun_nat (handle_segment k tcp pl st)) key = Some i"
    using d assms(2)
    by (auto simp: handle_segment_def Let_def nat_table.get_remove nat_table.get_insert split: option.split)
  moreover have "tun_sessions (handle_segment k tcp pl st) ! i = s"
    using d len other
    by (cases "k = key") (auto simp: handle_segment_def Let_def nth_append nth_list_update split: option.split)
  moreover have "sessions_of key (handle_segment k tcp pl st) = n"
    using d by (auto simp: handle_segment_def Let_def sessions_of_def new_session_def split: option.split)
  ultimately show ?thesis using d by (simp add: flow_dead_def)
qed

lemma flow_dead_apply:
  assumes "etherparse_ok E" and "flow_dead key i s n st" and "\<not> closes_flow E key ev"
  shows "flow_dead key i s n (tun_apply E ev st)"
proof (cases ev)
  case (PacketIn data)
  obtain r where "process_packet E data st = (r, apply_segment (segment_of E data) st)"
    using process_packet_segment [OF assms(1)] by blast
  moreover have "flow_dead key i s n (apply_segment (segment_of E data) st)"
    using assms(2,3) PacketIn flow_dead_segment [OF assms(2)]
    by (auto simp: apply_segment_def split: option.splits)
  ultimately show ?thesis using PacketIn by simp
next
  case (SessionEnds j)
  have "(tun_sessions st)[j := (tun_sessions st ! j)\<lparr>ts_alive := False\<rparr>] ! i = s"
    using assms(2) nat_okD(1) [of st key i] by (cases "i = j") (auto simp: flow_dead_def)
  with SessionEnds assms(2) session_end_ok [of st E j] show ?thesis
    by (simp add: flow_dead_def sessions_of_def)
qed

text \<open>C34: A flow whose session has ended by itself is stuck. Its table entry remains, and until the application
  sends a RST or a FIN of that very flow, no sequence of packets, of this flow or of others, and of further
  session ends gives it a new session or delivers a byte to it: a new SYN for the same ports is ignored.\<close>

theorem stale_entry_blocks_flow:
  assumes "etherparse_ok E" and "nat_ok st" and "TcpNatTable_get (tun_nat st) key = Some i"
    and "\<forall>ev \<in> set evs. \<not> closes_flow E key ev"
  shows "let st' = fold (tun_apply E) evs (tun_apply E (SessionEnds i) st) in
    TcpNatTable_get (tun_nat st') key = Some i \<and> sessions_of key st' = sessions_of key st \<and>
    ts_data (tun_sessions st' ! i) = ts_data (tun_sessions st ! i) \<and> \<not> ts_alive (tun_sessions st' ! i)"
proof -
  let ?s = "(tun_sessions st ! i)\<lparr>ts_alive := False\<rparr>"
  have start: "flow_dead key i ?s (sessions_of key st) (tun_apply E (SessionEnds i) st)"
    using assms(2,3) nat_okD(1) [OF assms(2,3)] session_end_ok [OF assms(2), of E i]
    by (simp add: flow_dead_def sessions_of_def)
  have "flow_dead key i ?s (sessions_of key st) (fold (tun_apply E) evs st')"
    if "flow_dead key i ?s (sessions_of key st) st'" for st'
    using assms(4) that by (induction evs arbitrary: st') (simp_all add: flow_dead_apply [OF assms(1)])
  from this [OF start] show ?thesis by (simp add: flow_dead_def Let_def)
qed

theorem stale_entry_blocks_flow_witness:
  "sessions_of example_flow (fold (tun_apply plain_parser)
     [PacketIn (example_packet 0x18 8 [1, 2]), PacketIn (example_packet 0x02 99 [])]
     (tun_apply plain_parser (SessionEnds 0) example_open_tun)) = 1"
proof -
  have f: "TcpNatTable_get (tun_nat example_open_tun) example_flow = Some 0"
    "sessions_of example_flow example_open_tun = 1"
    by (simp_all add: example_open_tun_def nat_table.get_insert sessions_of_def new_session_def)
  from stale_entry_blocks_flow [OF plain_parser_ok example_open_tun_ok f(1),
      of "[PacketIn (example_packet 0x18 8 [1, 2]), PacketIn (example_packet 0x02 99 [])]"]
  show ?thesis
    by (simp add: example_packet_segment f(2) Let_def)
qed

end
