(* ===== verification/Tun_Whole.thy ===== *)
theory Tun_Whole
  imports Tun_Processor
begin

section \<open>The TUN front on the client's own proxy\<close>

text \<open>
  The two ends of the loopback connection at 127.0.0.1:10808 together: what \<open>socks5_connect\<close> of the TUN front writes is what
  \<open>socks5_handshake\<close> of the client reads, and the other way round. Each side's input is thus the other side's output, and
  what the exchange is has to be found from its beginning, one message after the other.
\<close>

subsection \<open>What a side writes first\<close>

text \<open>\<open>appends m\<close>: running \<open>m\<close> only adds to what has been written; \<open>silent m\<close>: it adds nothing.\<close>

definition appends :: "(conn, 'e, 'a) stm \<Rightarrow> bool" where
  "appends m \<longleftrightarrow> (\<forall>c. \<exists>u. wr_data (c_out (snd (m c))) = wr_data (c_out c) @ u)"

definition silent :: "(conn, 'e, 'a) stm \<Rightarrow> bool" where
  "silent m \<longleftrightarrow> (\<forall>c. c_out (snd (m c)) = c_out c)"

lemma appends_bind:
  assumes "appends m" and "\<And>x. appends (f x)"
  shows "appends (bind m f)"
  unfolding appends_def
proof
  fix c
  obtain r d where m: "m c = (r, d)" by fastforce
  obtain u where u: "wr_data (c_out d) = wr_data (c_out c) @ u"
    using assms(1) m unfolding appends_def by (metis snd_conv)
  show "\<exists>u. wr_data (c_out (snd (bind m f c))) = wr_data (c_out c) @ u"
  proof (cases r)
    case (Ok x)
    obtain v where "wr_data (c_out (snd (f x d))) = wr_data (c_out d) @ v"
      using assms(2) [of x] unfolding appends_def by blast
    with m u Ok show ?thesis by (simp add: bind_def)
  qed (use m u in \<open>simp_all add: bind_def\<close>)
qed

lemma silent_bind: "silent m \<Longrightarrow> (\<And>x. silent (f x)) \<Longrightarrow> silent (bind m f)"
  unfolding silent_def bind_def by (auto split: prod.splits res.splits) (metis snd_conv)+

lemma silent_reads: "silent (ret x)" "silent (throw e)" "silent panic" "silent (tun_read n)" "silent (read_buf n)"
  by (auto simp: silent_def ret_def throw_def panic_def tun_read_def read_buf_def with_err_def on_in_def split: prod.splits)

lemma silent_appends: "silent m \<Longrightarrow> appends m"
  by (auto simp: silent_def appends_def)

lemma appends_write: "appends (with_err f (on_out (write_all bs)))"
  unfolding appends_def
proof
  fix c :: conn
  have "c_out (snd (with_err f (on_out (write_all bs)) c)) = snd (write_all bs (c_out c))"
    by (simp add: with_err_def on_out_def split: prod.split)
  then show "\<exists>u. wr_data (c_out (snd (with_err f (on_out (write_all bs)) c))) = wr_data (c_out c) @ u"
    using write_all_prefix [of bs "c_out c"] by auto
qed

lemma appends_steps:
  "appends (ret x)" "appends (throw e)" "appends (tun_read n)" "appends (read_buf n)" "appends (tun_write bs)" "appends (socks_write bs)"
  by (simp_all add: silent_appends silent_reads tun_write_def socks_write_def appends_write)

lemma appends_read_target: "appends (read_target atyp)"
  unfolding read_target_def Let_def
  by (auto intro!: appends_bind appends_steps silent_appends [OF silent_reads(3)] split: option.split)

subsection \<open>The exchange\<close>

text \<open>The front's first message is its greeting, whatever comes back.\<close>

lemma connect_greets:
  assumes "wr_limit (c_out c) = None" and "wr_data (c_out c) = []"
  shows "\<exists>u. wr_data (c_out (snd (socks5_connect target c))) = [5, 1, 0] @ u"
proof -
  obtain c1 where c1: "tun_write [5, 1, 0] c = (Ok (), c1)" "c_out c1 = (c_out c)\<lparr>wr_data := wr_data (c_out c) @ [5, 1, 0]\<rparr>"
    by (rule tun_write_put [OF assms(1)]) blast
  define rest where "rest = (\<lambda>_ :: unit. bind (tun_read 2) (\<lambda>buf.
     if buf ! 0 \<noteq> 0x05 then throw (VersionMismatch (buf ! 0))
     else if buf ! 1 \<noteq> 0x00 then throw (MethodNotAccepted (buf ! 1))
     else
       bind (tun_write (encode_addr target [0x05, 0x01, 0x00])) (\<lambda>_.
       bind (tun_read 4) (\<lambda>resp.
       if resp ! 0 \<noteq> 0x05 then throw (ReplyVersionMismatch (resp ! 0))
       else if resp ! 1 \<noteq> 0x00 then throw (ConnectRefused (resp ! 1))
       else skip_socks5_addr))))"
  have "appends (rest ())"
    unfolding rest_def skip_socks5_addr_def by (auto intro!: appends_bind appends_steps)
  then obtain u where "wr_data (c_out (snd (rest () c1))) = wr_data (c_out c1) @ u" by (auto simp: appends_def)
  moreover have "socks5_connect target = bind (tun_write [5, 1, 0]) rest" by (simp add: socks5_connect_def rest_def)
  then have "socks5_connect target c = rest () c1" by (simp add: bind_Ok c1(1))
  ultimately show ?thesis using c1(2) assms(2) by auto
qed

text \<open>To a greeting that offers no authentication only, the client answers at once.\<close>

lemma handshake_answers:
  assumes "src_data (c_in p) = [5, 1, 0] @ u" and "wr_limit (c_out p) = None" and "wr_data (c_out p) = []"
  shows "\<exists>d. wr_data (c_out (snd (socks5_handshake p))) = [5, 0] @ d"
proof -
  have d0: "src_data (c_in p) = [5, 1] @ [0] @ u" using assms(1) by simp
  obtain p1 where p1: "read_buf 2 p = (Ok [5, 1], p1)" "src_data (c_in p1) = [0] @ u" "c_out p1 = c_out p"
    by (rule read_buf_get [OF d0, of 2]) (simp_all add: SOCKS_BUF_LEN_def)
  obtain p2 where p2: "read_buf (Suc 0) p1 = (Ok [0], p2)" "c_out p2 = c_out p1"
    by (rule read_buf_get [OF p1(2), of "Suc 0"]) (simp_all add: SOCKS_BUF_LEN_def)
  have l: "wr_limit (c_out p2) = None" using p2(2) p1(3) assms(2) by simp
  obtain p3 where p3: "socks_write [5, 0] p2 = (Ok (), p3)" "c_out p3 = (c_out p2)\<lparr>wr_data := wr_data (c_out p2) @ [5, 0]\<rparr>"
    by (rule socks_write_put [OF l]) blast
  define rest where "rest = (\<lambda>_ :: unit. bind (read_buf 4) (\<lambda>buf.
         let version = buf ! 0; cmd = buf ! 1; atyp = buf ! 3 in
         if version \<noteq> 0x05 then throw (BadRequestVersion version)
         else if cmd \<noteq> 0x01 then
           bind (socks_write (socks5_reply 0x07 (Domain (lit ''0.0.0.0'') 0))) (\<lambda>_. throw (UnsupportedCommand cmd))
         else
           bind (read_target atyp) (\<lambda>target_addr.
           bind (socks_write (socks5_reply 0x00 (IpV4 (socket_v4 0 0)))) (\<lambda>_. ret target_addr))))"
  have "appends (rest ())"
    unfolding rest_def Let_def by (auto intro!: appends_bind appends_steps appends_read_target)
  then obtain d where "wr_data (c_out (snd (rest () p3))) = wr_data (c_out p3) @ d" by (auto simp: appends_def)
  moreover have "socks5_handshake p = rest () p3"
    by (simp add: socks5_handshake_def bind_Ok p1(1) p2(1) p3(1) rest_def Let_def del: lit_Cons)
  ultimately show ?thesis using p3(2) p2(2) p1(3) assms(3) by auto
qed

text \<open>After that answer the front sends its request, and nothing more before it has succeeded.\<close>

lemma connect_requests:
  assumes "src_data (c_in c) = [5, 0] @ d" and "wr_limit (c_out c) = None" and "wr_data (c_out c) = []"
  shows "wr_data (c_out (snd (socks5_connect target c))) = socks5_request [0] (TargetAddr_from_SocketAddr target)"
proof -
  obtain c1 where c1: "tun_write [5, 1, 0] c = (Ok (), c1)" "c_in c1 = c_in c"
    "c_out c1 = (c_out c)\<lparr>wr_data := wr_data (c_out c) @ [5, 1, 0]\<rparr>"
    by (rule tun_write_put [OF assms(2)])
  have d1: "src_data (c_in c1) = [5, 0] @ d" using c1(2) assms(1) by simp
  obtain c2 where c2: "tun_read 2 c1 = (Ok [5, 0], c2)" "c_out c2 = c_out c1"
    by (rule tun_read_get [OF d1, of 2]) simp_all
  have l: "wr_limit (c_out c2) = None" using c2(2) c1(3) assms(2) by simp
  obtain c3 where c3: "tun_write (encode_addr target [5, 1, 0]) c2 = (Ok (), c3)"
    "c_out c3 = (c_out c2)\<lparr>wr_data := wr_data (c_out c2) @ encode_addr target [5, 1, 0]\<rparr>"
    by (rule tun_write_put [OF l]) blast
  define rest where "rest = (\<lambda>_ :: unit. bind (tun_read 4) (\<lambda>resp.
       if resp ! 0 \<noteq> 0x05 then throw (ReplyVersionMismatch (resp ! 0))
       else if resp ! 1 \<noteq> 0x00 then throw (ConnectRefused (resp ! 1))
       else skip_socks5_addr))"
  have "silent (rest ())"
    unfolding rest_def skip_socks5_addr_def by (auto intro!: silent_bind silent_reads)
  then have "c_out (snd (rest () c3)) = c_out c3" by (simp add: silent_def)
  moreover have "socks5_connect target c = rest () c3"
    by (simp add: socks5_connect_def bind_Ok c1(1) c2(1) c3(1) rest_def)
  ultimately show ?thesis
    using c3(2) c2(2) c1(3) assms(3) encode_addr_request [of target] by simp
qed

lemma connect_against_client:
  assumes "wf_addr (TargetAddr_from_SocketAddr target)"
    and "wr_limit (c_out proxy) = None" and "wr_data (c_out proxy) = []"
    and "wr_limit (c_out c) = None" and "wr_data (c_out c) = []"
    and "src_data (c_in proxy) = wr_data (c_out (snd (socks5_connect target c)))"
    and "src_data (c_in c) = wr_data (c_out (snd (socks5_handshake proxy)))"
  shows "fst (socks5_handshake proxy) = Ok (TargetAddr_from_SocketAddr target) \<and>
    fst (socks5_connect target c) = Err (UnknownAtyp 0)"
proof -
  obtain u where "src_data (c_in proxy) = [5, 1, 0] @ u"
    using connect_greets [OF assms(4,5)] assms(6) by metis
  from handshake_answers [OF this assms(2,3)] obtain d where "src_data (c_in c) = [5, 0] @ d"
    using assms(7) by metis
  from connect_requests [OF this assms(4,5), of target] assms(6)
  have "src_data (c_in proxy) = socks5_request [0] (TargetAddr_from_SocketAddr target) @ []" by simp
  from tun_connect_fails_against_client [OF assms(1-3) this assms(4,5,7)] show ?thesis by simp
qed

subsection \<open>Every session of every run\<close>

text \<open>The target of a session is the destination of its flow.\<close>

definition target_of :: "FlowKey \<Rightarrow> SocketAddr" where
  "target_of key = V4 (socket_v4 (fk_dst_ip key) (fk_dst_port key))"

definition targets_ok :: "TunProcessor \<Rightarrow> bool" where
  "targets_ok st \<longleftrightarrow> (\<forall>s \<in> set (tun_sessions st). ts_target s = target_of (ts_key s))"

lemma targets_ok_send: "targets_ok st \<Longrightarrow> targets_ok (tx_send i m st)"
  by (cases "i < length (tun_sessions st)")
    (auto simp: targets_ok_def tx_send_def session_send_def list_update_beyond dest!: subsetD [OF set_update_subset_insert])

lemma targets_ok_segment: "targets_ok st \<Longrightarrow> targets_ok (handle_segment key tcp pl st)"
  using targets_ok_send [of st]
  by (auto simp: handle_segment_def Let_def targets_ok_def new_session_def target_of_def split: option.split)

lemma targets_ok_run:
  assumes "etherparse_ok E" and "TunProcessor_new device addr = Ok st"
  shows "targets_ok (snd (tun_run E tries st))"
proof -
  have step: "targets_ok st \<Longrightarrow> targets_ok (apply_segment s st)" for s st
    by (auto simp: apply_segment_def targets_ok_segment split: option.split)
  have "targets_ok st" using assms(2) by (auto simp: TunProcessor_new_def targets_ok_def bind_res_eq_Ok)
  then have "targets_ok (fold (\<lambda>d. apply_segment (segment_of E d)) ds st)" for ds
    by (induction ds arbitrary: st) (simp_all add: step)
  then show ?thesis using tun_run_packets [OF assms(1)] by simp
qed

text \<open>C33: The TUN front carries nothing when its proxy is the client it is built for. For every run of the packet processor, from its start,
  on any packets, and for every session of that run, the exchange with the client's SOCKS5 front (each reading what the other
  writes) ends with the client accepting the flow's destination and the session giving up: the session sends the
  application a single packet, a RST without data, and none of the application's data reaches the proxy.\<close>

theorem tun_front_only_resets:
  assumes "etherparse_ok E" and "TunProcessor_new device addr = Ok st" and "\<forall>p. builds p"
    and "s \<in> set (tun_sessions (snd (tun_run E tries st)))"
    and "wr_limit (c_out proxy) = None" and "wr_data (c_out proxy) = []"
    and "wr_limit (c_out c) = None" and "wr_data (c_out c) = []"
    and "src_data (c_in proxy) = wr_data (c_out (snd (socks5_connect (ts_target s) c)))"
    and "src_data (c_in c) = wr_data (c_out (snd (socks5_handshake proxy)))"
  shows "fst (socks5_handshake proxy) =
      Ok (IpV4 (socket_v4 (fk_dst_ip (ts_key s)) (fk_dst_port (ts_key s)))) \<and>
    (\<exists>p. run_tcp_session builds (ts_key s) (ts_client_seq s) (ts_data s) (Ok c) (ts_target s) tx = (tx @ [p], None) \<and>
       tp_rst p \<and> tp_payload p = [] \<and> tp_ack_number p = ts_client_seq s + 1 \<and>
       tp_dst_ip p = fk_src_ip (ts_key s) \<and> tp_dst_port p = fk_src_port (ts_key s))"
proof -
  have t: "ts_target s = target_of (ts_key s)"
    using targets_ok_run [OF assms(1,2)] assms(4) by (auto simp: targets_ok_def)
  have "wf_addr (TargetAddr_from_SocketAddr (ts_target s))" by (simp add: t target_of_def)
  note x = connect_against_client [OF this assms(5-10)]
  then have "fst (socks5_handshake proxy) = Ok (IpV4 (socket_v4 (fk_dst_ip (ts_key s)) (fk_dst_port (ts_key s))))"
    by (simp add: t target_of_def)
  moreover from x have "fst (socks5_connect (ts_target s) c) = Err (UnknownAtyp 0)" by simp
  note failed_connect_resets [OF assms(3) this, of "ts_key s" "ts_client_seq s" "ts_data s" tx]
  ultimately show ?thesis by blast
qed

text \<open>A run with one SYN, and the two ends of its session's connection.\<close>

theorem tun_front_only_resets_witness:
  "\<exists>s p. tun_sessions (snd (tun_run plain_parser [got (example_packet 0x02 7 [])] example_tun)) = [s] \<and>
     run_tcp_session (\<lambda>_. True) (ts_key s) (ts_client_seq s) (ts_data s)
       (Ok (fresh_conn [[5, 0], [5, 0, 0, 1, 0, 0, 0, 0, 0, 0]])) (ts_target s) [] = ([p], None) \<and> tp_rst p"
proof -
  let ?dev = "Ok \<lparr>td_fd = 3, td_async_fd = 3\<rparr> :: (TunError, TunDevice) res" and ?addr = "V4 (socket_v4 0x7F000001 10808)"
  let ?s = "new_session example_flow 7" and ?c = "fresh_conn [[5, 0], [5, 0, 0, 1, 0, 0, 0, 0, 0, 0]]"
  let ?req = "socks5_request [0] (TargetAddr_from_SocketAddr (target_of example_flow))"
  let ?p = "fresh_conn [?req]"
  have new: "TunProcessor_new ?dev ?addr = Ok example_tun" by (simp add: TunProcessor_new_def example_tun_def)
  have run: "tun_sessions (snd (tun_run plain_parser [got (example_packet 0x02 7 [])] example_tun)) = [?s]"
    using tun_run_packets [OF plain_parser_ok, of "[got (example_packet 0x02 7 [])]" example_tun]
    by (simp add: example_packet_segment example_packet_nonempty example_packet_fits apply_segment_def handle_segment_def
        example_tun_def nat_table.get_empty)
  have t: "ts_target ?s = target_of example_flow" by (simp add: new_session_def target_of_def)
  have "src_data (c_in ?c) = [5, 0] @ [5, 0, 0, 1, 0, 0, 0, 0, 0, 0]" by simp
  from connect_requests [OF this, of "target_of example_flow"]
  have p: "src_data (c_in ?p) = wr_data (c_out (snd (socks5_connect (ts_target ?s) ?c)))" by (simp add: t)
  have w: "wf_addr (TargetAddr_from_SocketAddr (target_of example_flow))"
    "TargetAddr_from_SocketAddr (target_of example_flow) \<noteq> TargetNone"
    "length (addr_wire (TargetAddr_from_SocketAddr (target_of example_flow))) \<le> 258"
    by (simp_all add: target_of_def)
  have "src_data (c_in ?p) = ?req @ []" by simp
  from socks5_connect_understood [OF w _ _ this]
  have c: "src_data (c_in ?c) = wr_data (c_out (snd (socks5_handshake ?p)))" by auto
  from tun_front_only_resets [OF plain_parser_ok new _ _ _ _ _ _ p c, of "\<lambda>_. True" "[got (example_packet 0x02 7 [])]" "[]"] run
  show ?thesis by auto
qed

end
