(* ===== verification/Fragment_Writer.thy ===== *)
theory Fragment_Writer
  imports Fragment Tunnel
begin

section \<open>The fragmented stream as a writer\<close>

text \<open>
  ghost-client/src/tunnel.rs puts every connection to the server inside a \<open>FragmentedStream\<close>, with or without fragmentation. The
  other theories write to a \<open>writer\<close>, which appends what it is given until it fails. Here it is shown that this is a
  specification of the stream: a client cannot tell the two apart.
\<close>

definition client_frag_stream :: "(nat \<Rightarrow> write_answer) \<Rightarrow> read_answer list \<Rightarrow> ClientConfig \<Rightarrow> frag_stream" where
  "client_frag_stream answer reads config =
     (if cc_enable_fragmentation config then FragmentedStream_new answer reads 128 2 5
      else FragmentedStream_new answer reads 0 1 0)"

text \<open>A client that writes one buffer after the other and gives up at the first error, on either.\<close>

primrec write_each :: "bytes list \<Rightarrow> (writer, io_error, unit) stm" where
  "write_each [] = ret ()"
| "write_each (b # bs) = bind (write_all b) (\<lambda>_. write_each bs)"

primrec frag_write_each :: "bytes list \<Rightarrow> frag_stream \<Rightarrow> ((io_error, unit) res \<times> frag_stream) option" where
  "frag_write_each [] s = Some (Ok (), s)"
| "frag_write_each (b # bs) s =
     (case frag_write_all b s of
        Some (Ok _, t) \<Rightarrow> frag_write_each bs t
      | other \<Rightarrow> other)"

lemma small_first_append:
  "small_first left most (gs @ hs) \<longleftrightarrow> small_first left most gs \<and> small_first (left - length (concat gs)) most hs"
  by (induction left most gs rule: small_first.induct) auto

text \<open>\<open>serves w\<close>: the writer does to a sequence of buffers what the stream has done, with the result \<open>r\<close> and the bytes sent.\<close>

definition serves :: "bytes list \<Rightarrow> (nat \<times> io_error) option \<Rightarrow> (io_error, unit) res \<Rightarrow> bytes \<Rightarrow> bool" where
  "serves bs lim r sent \<longleftrightarrow>
     (\<forall>w. \<exists>w'. write_each bs (w\<lparr>wr_limit := lim\<rparr>) = (r, w') \<and> wr_data w' = wr_data w @ sent)"

lemma serves_Nil: "serves [] None (Ok ()) []"
  by (simp add: serves_def ret_def)

text \<open>A buffer that is written leaves the writer with what it can still take; one that is not, ends the sequence.\<close>

lemma serves_Cons:
  assumes "serves bs lim r sent"
  shows "serves (b # bs) (map_option (\<lambda>(k, e). (length b + k, e)) lim) r (b @ sent)"
  unfolding serves_def
proof
  fix w :: writer
  let ?w = "w\<lparr>wr_limit := map_option (\<lambda>(k, e). (length b + k, e)) lim\<rparr>"
  have "write_all b ?w = (Ok (), (w\<lparr>wr_data := wr_data w @ b\<rparr>)\<lparr>wr_limit := lim\<rparr>)"
    by (cases lim) (auto simp: write_all_def)
  moreover obtain w' where "write_each bs ((w\<lparr>wr_data := wr_data w @ b\<rparr>)\<lparr>wr_limit := lim\<rparr>) = (r, w')"
    "wr_data w' = wr_data (w\<lparr>wr_data := wr_data w @ b\<rparr>) @ sent"
    using assms unfolding serves_def by blast
  ultimately show "\<exists>w'. write_each (b # bs) ?w = (r, w') \<and> wr_data w' = wr_data w @ b @ sent"
    by (simp add: bind_Ok)
qed

lemma serves_fails: "rest \<noteq> [] \<Longrightarrow> serves ((sent @ rest) # bs) (Some (length sent, e)) (Err e) sent"
  by (simp add: serves_def write_all_def bind_def)

text \<open>When the socket can make a write fail.\<close>

definition sock_may_fail :: "(nat \<Rightarrow> write_answer) \<Rightarrow> bool" where
  "sock_may_fail answer \<longleftrightarrow> (\<exists>i e. answer i = Takes 0 \<or> answer i = Fails e)"

lemma frag_write_each_refines:
  assumes "sock_live s" and "0 < fs_size s"
  shows "\<exists>r t gs lim. frag_write_each bs s = Some (r, t) \<and> fs_sent t = fs_sent s @ gs \<and>
    small_first (fs_remaining s) (fs_size s) gs \<and> serves bs lim r (concat gs) \<and>
    (lim = None \<or> sock_may_fail (fs_answer s))"
  using assms
proof (induction bs arbitrary: s)
  case Nil
  show ?case by (intro exI [of _ "Ok ()"] exI [of _ s] exI [of _ "[]"] exI [of _ None]) (simp add: serves_Nil)
next
  case (Cons b bs)
  obtain r gs t where run: "frag_write_all b s = Some (r, t)" and w: "written b s r gs t"
    using frag_write_all_total [OF Cons.prems(1)] by blast
  obtain rest where rest: "b = concat gs @ rest" "r = Ok () \<longleftrightarrow> rest = []"
    using w by (auto simp: written_def)
  show ?case
  proof (cases "r = Ok ()")
    case True
    have t: "sock_live t" "0 < fs_size t" "fs_answer t = fs_answer s" "fs_size t = fs_size s"
      "fs_remaining t = fs_remaining s - length (concat gs)" "fs_sent t = fs_sent s @ gs"
      using w Cons.prems by (simp_all add: written_def sock_live_def)
    obtain q u hs lim where u: "frag_write_each bs t = Some (q, u)" "fs_sent u = fs_sent t @ hs"
      "small_first (fs_remaining t) (fs_size t) hs" "serves bs lim q (concat hs)" "lim = None \<or> sock_may_fail (fs_answer t)"
      using Cons.IH [OF t(1,2)] by blast
    have "frag_write_each (b # bs) s = Some (q, u)" using run True u(1) by simp
    moreover have "small_first (fs_remaining s) (fs_size s) (gs @ hs)"
      using w u(3) t(4,5) by (simp add: small_first_append written_def)
    moreover have "b = concat gs" using rest True by simp
    with serves_Cons [OF u(4), of b]
    have "serves (b # bs) (map_option (\<lambda>(k, e). (length b + k, e)) lim) q (concat (gs @ hs))" by simp
    ultimately show ?thesis using u(2,5) t(3,6) by fastforce
  next
    case False
    then obtain e where e: "r = Err e" "sock_may_fail (fs_answer s)"
      using w Cons.prems(2) by (auto simp: written_def sock_may_fail_def)
    then have "frag_write_each (b # bs) s = Some (Err e, t)" using run by simp
    moreover have "serves (b # bs) (Some (length (concat gs), e)) (Err e) (concat gs)"
      using serves_fails rest False by blast
    ultimately show ?thesis using w e(2) unfolding written_def by blast
  qed
qed

text \<open>C28: The stream under the tunnel is a refinement of the plain writer that the model of the tunnel writes to. For every socket that is not
  pending for ever, every configuration and every sequence of buffers there is a writer (without a limit, if the socket never fails)
  that answers the sequence with the same result and receives the same bytes; with fragmentation on, what the
  socket gets of the first 128 bytes comes in pieces of at most two bytes.\<close>

theorem fragmented_refines_writer:
  assumes "\<And>i. \<exists>j. answer (i + j) \<noteq> NotReady"
  shows "\<exists>r t lim w. frag_write_each bufs (client_frag_stream answer reads config) = Some (r, t) \<and>
    write_each bufs (fresh_writer\<lparr>wr_limit := lim\<rparr>) = (r, w) \<and> concat (fs_sent t) = wr_data w \<and>
    ((\<nexists>i e. answer i = Takes 0 \<or> answer i = Fails e) \<longrightarrow> lim = None) \<and>
    (cc_enable_fragmentation config \<longrightarrow> small_first 128 2 (fs_sent t))"
proof -
  let ?s = "client_frag_stream answer reads config"
  have s: "fs_answer ?s = answer" "0 < fs_size ?s" "fs_sent ?s = []"
    "cc_enable_fragmentation config \<Longrightarrow> fs_remaining ?s = 128 \<and> fs_size ?s = 2"
    by (simp_all add: client_frag_stream_def FragmentedStream_new_def)
  have "sock_live ?s" using assms by (simp add: sock_live_def s(1))
  from frag_write_each_refines [OF this s(2), of bufs] obtain r t gs lim where
    t: "frag_write_each bufs ?s = Some (r, t)" "fs_sent t = gs" "small_first (fs_remaining ?s) (fs_size ?s) gs"
      "serves bufs lim r (concat gs)" "lim = None \<or> sock_may_fail answer"
    unfolding s(1,3) by auto
  from t(4) obtain w where "write_each bufs (fresh_writer\<lparr>wr_limit := lim\<rparr>) = (r, w)" "wr_data w = concat gs"
    unfolding serves_def by (metis append_Nil fresh_writer_def writer.select_convs(1))
  with t s(4) show ?thesis unfolding sock_may_fail_def by fastforce
qed

theorem fragmented_refines_writer_witness:
  "\<exists>t. frag_write_each [[22, 3, 1], [2, 0]] (client_frag_stream (\<lambda>i. if even i then NotReady else Takes 10) [] ClientConfig_default) =
      Some (Ok (), t) \<and> concat (fs_sent t) = [22, 3, 1, 2, 0]"
proof -
  have live: "\<exists>j. (if even (i + j) then NotReady else Takes 10) \<noteq> NotReady" for i :: nat
    by (rule exI [of _ "Suc i"]) simp
  have "\<nexists>i e. (if even i then NotReady else Takes 10) = Takes 0 \<or> (if even i then NotReady else Takes 10) = Fails e"
    by auto
  with fragmented_refines_writer [where answer = "\<lambda>i. if even i then NotReady else Takes 10", OF live,
      of "[[22, 3, 1], [2, 0]]" "[]" ClientConfig_default]
  obtain r t w where w: "write_each [[22, 3, 1], [2, 0]] (fresh_writer\<lparr>wr_limit := None\<rparr>) = (r, w)"
    and t: "frag_write_each [[22, 3, 1], [2, 0]]
        (client_frag_stream (\<lambda>i. if even i then NotReady else Takes 10) [] ClientConfig_default) = Some (r, t)"
      "concat (fs_sent t) = wr_data w" by blast
  from w have "r = Ok ()" "wr_data w = [22, 3, 1, 2, 0]" by (auto simp: bind_def ret_def fresh_writer_def)
  with t show ?thesis by auto
qed

end
