(* ===== verification/Mobile_Api.thy ===== *)
theory Mobile_Api
  imports Client_Socks Tun_Processor
begin

section \<open>The mobile bridge\<close>

text \<open>
  ghost_flutter/rust/src/api.rs: the functions the Flutter application calls, the statics they
  share, and the background tasks they start. A start call is two steps, because it waits in between
  for the ready signal; the background task runs between them in steps of its own, which are those
  of \<^verbatim>\<open>run_with_ready\<close> as the bridge sees them: the port is bound and the signal sent, or the task
  fails and drops the sender. The parts of a call before and after its wait are taken in one piece here, and aborting
  a task takes effect at once: this is how the calls run when nothing gets in between their accesses. \<open>Mobile_Steps\<close>
  has the same calls one access at a time, with tasks that are only told to end, and shows that its steps give
  \<open>start_begin\<close> and \<open>stop_proxy\<close> when they are not interrupted.
\<close>

datatype ProxyStatus = Stopped | Connecting | Connected | Error

primrec status_code :: "ProxyStatus \<Rightarrow> int" where
  "status_code Stopped = 0"
| "status_code Connecting = 1"
| "status_code Connected = 2"
| "status_code Error = 3"

text \<open>
  The life of a background task. \<open>Returning\<close> is after \<^verbatim>\<open>run_with_ready\<close> has returned (so that the sender
  is gone), \<open>Reported\<close> after the status has been stored.
\<close>

datatype task_phase = Spawned | Binding | Serving | Returning "(io_error, unit) res" | Reported | Finished | Aborted

text \<open>How the ready channel looks to the waiting start call.\<close>

datatype ready_state = NotReady | ReadySent | SenderDropped

text \<open>The arguments of a start call, in the order of its parameters.\<close>

type_synonym start_args = "bytes \<times> bytes \<times> bool \<times> bool \<times> bytes"

record api_task =
  at_config :: ClientConfig
  at_phase :: task_phase
  at_ready :: ready_state

record api_state =
  as_status :: int
  as_running :: bool
  as_tasks :: "api_task list"
  as_task :: "nat option"
  as_waiting :: "nat list"

definition api_init :: api_state where
  "api_init = \<lparr>as_status = status_code Stopped, as_running = False, as_tasks = [], as_task = None, as_waiting = []\<rparr>"

fun api_client_config :: "start_args \<Rightarrow> ClientConfig" where
  "api_client_config (server_addr, user_id, enable_padding, enable_fragmentation, mask_domain) =
     \<lparr>cc_socks5_listen = lit ''127.0.0.1:10808'',
      cc_server_addr = server_addr,
      cc_user_id = user_id,
      cc_enable_padding = enable_padding,
      cc_enable_fragmentation = enable_fragmentation,
      cc_max_padding_len = 64,
      cc_mask_domain = mask_domain,
      cc_reality_auth_key = lit ''0000000000000000000000000000000000000000000000000000000000000000''\<rparr>"

subsection \<open>The calls\<close>

text \<open>An aborted task is dropped, and with it a sender it still holds.\<close>

definition drop_sender :: "ready_state \<Rightarrow> ready_state" where
  "drop_sender r = (if r = NotReady then SenderDropped else r)"

definition task_live :: "api_task \<Rightarrow> bool" where
  "task_live t \<longleftrightarrow> at_phase t \<noteq> Finished \<and> at_phase t \<noteq> Aborted"

definition abort_task :: "nat \<Rightarrow> api_task list \<Rightarrow> api_task list" where
  "abort_task i ts = (if i < length ts \<and> task_live (ts ! i)
     then ts[i := (ts ! i)\<lparr>at_phase := Aborted, at_ready := drop_sender (at_ready (ts ! i))\<rparr>] else ts)"

definition stop_proxy :: "api_state \<Rightarrow> int \<times> api_state" where
  "stop_proxy s =
     (let s1 = (case as_task s of
          Some handle \<Rightarrow> s\<lparr>as_task := None, as_tasks := abort_task handle (as_tasks s)\<rparr>
        | None \<Rightarrow> s)
      in (0, s1\<lparr>as_running := False, as_status := status_code Stopped\<rparr>))"

text \<open>Until the wait: either the call is over, or it has a task to wait for.\<close>

definition start_begin :: "start_args \<Rightarrow> api_state \<Rightarrow> int option \<times> api_state" where
  "start_begin args s =
     (if as_running s then (Some 0, s)
      else (None, s\<lparr>as_status := status_code Connecting,
             as_tasks := as_tasks s @ [\<lparr>at_config = api_client_config args, at_phase = Spawned, at_ready = NotReady\<rparr>],
             as_task := Some (length (as_tasks s)),
             as_waiting := as_waiting s @ [length (as_tasks s)]\<rparr>))"

text \<open>
  After the wait. \<^verbatim>\<open>timeout(..).await.is_ok()\<close> holds when the receiver has completed in time,
  with the signal \<^emph>\<open>or\<close> with the error that the sender is gone.
\<close>

definition bound_in_time :: "ready_state option \<Rightarrow> bool" where
  "bound_in_time received = (received \<noteq> None)"

definition start_end :: "ready_state option \<Rightarrow> api_state \<Rightarrow> int \<times> api_state" where
  "start_end received s =
     (if bound_in_time received then (0, s\<lparr>as_status := status_code Connected\<rparr>)
      else (status_code Error, (snd (stop_proxy s))\<lparr>as_status := status_code Error\<rparr>))"

definition get_proxy_status :: "api_state \<Rightarrow> int" where
  "get_proxy_status s = as_status s"

definition is_proxy_running :: "api_state \<Rightarrow> bool" where
  "is_proxy_running s = as_running s"

definition test_connection :: "bytes \<Rightarrow> int" where
  "test_connection server_addr = 0"

definition get_protocol_version :: u8 where
  "get_protocol_version = PROTOCOL_VERSION"

subsection \<open>The background task\<close>

definition set_task :: "nat \<Rightarrow> api_task \<Rightarrow> api_state \<Rightarrow> api_state" where
  "set_task i t s = s\<lparr>as_tasks := (as_tasks s)[i := t]\<rparr>"

text \<open>One step of task \<open>i\<close>; \<open>outcome\<close> is what the network gives it there (binding, then accepting).\<close>

definition task_step :: "nat \<Rightarrow> (io_error, unit) res \<Rightarrow> api_state \<Rightarrow> api_state" where
  "task_step i outcome s =
     (let t = as_tasks s ! i in
      case at_phase t of
        Spawned \<Rightarrow> set_task i (t\<lparr>at_phase := Binding\<rparr>) (s\<lparr>as_running := True\<rparr>)
      | Binding \<Rightarrow>
          (if outcome = Ok () then set_task i (t\<lparr>at_phase := Serving, at_ready := ReadySent\<rparr>) s
           else set_task i (t\<lparr>at_phase := Returning outcome, at_ready := drop_sender (at_ready t)\<rparr>) s)
      | Serving \<Rightarrow> (if outcome = Ok () then s else set_task i (t\<lparr>at_phase := Returning outcome\<rparr>) s)
      | Returning r \<Rightarrow>
          (case r of
             Ok _ \<Rightarrow> set_task i (t\<lparr>at_phase := Reported\<rparr>) (s\<lparr>as_status := status_code Stopped\<rparr>)
           | Err e \<Rightarrow> set_task i (t\<lparr>at_phase := Reported\<rparr>) (s\<lparr>as_status := status_code Error\<rparr>)
           | Panic \<Rightarrow> set_task i (t\<lparr>at_phase := Finished\<rparr>) s)
      | Reported \<Rightarrow> set_task i (t\<lparr>at_phase := Finished\<rparr>) (s\<lparr>as_running := False\<rparr>)
      | Finished \<Rightarrow> s
      | Aborted \<Rightarrow> s)"

subsection \<open>Interleavings\<close>

datatype api_label =
    StartCall start_args "int option"
  | StartReturn nat int
  | StopCall
  | TaskStep nat "(io_error, unit) res"

text \<open>A panic of the task is excluded: \<open>run_with_ready\<close> has none of its own.\<close>

inductive api_step :: "api_state \<Rightarrow> api_label \<Rightarrow> api_state \<Rightarrow> bool" where
  call_start: "start_begin args s = (r, s') \<Longrightarrow> api_step s (StartCall args r) s'"
| start_completes: "i \<in> set (as_waiting s) \<Longrightarrow> at_ready (as_tasks s ! i) \<noteq> NotReady \<Longrightarrow>
    start_end (Some (at_ready (as_tasks s ! i))) s = (r, s') \<Longrightarrow>
    api_step s (StartReturn i r) (s'\<lparr>as_waiting := removeAll i (as_waiting s')\<rparr>)"
| start_times_out: "i \<in> set (as_waiting s) \<Longrightarrow> at_ready (as_tasks s ! i) = NotReady \<Longrightarrow>
    start_end None s = (r, s') \<Longrightarrow>
    api_step s (StartReturn i r) (s'\<lparr>as_waiting := removeAll i (as_waiting s')\<rparr>)"
| call_stop: "stop_proxy s = (r, s') \<Longrightarrow> api_step s StopCall s'"
| task_runs: "i < length (as_tasks s) \<Longrightarrow> outcome \<noteq> Panic \<Longrightarrow>
    api_step s (TaskStep i outcome) (task_step i outcome s)"

inductive_cases api_step_cases: "api_step s l s'"

text \<open>Runs, as the labels of their steps.\<close>

inductive api_run :: "api_state \<Rightarrow> api_label list \<Rightarrow> api_state \<Rightarrow> bool" where
  run_here: "api_run s [] s"
| run_more: "api_step s l t \<Longrightarrow> api_run t ls u \<Longrightarrow> api_run s (l # ls) u"

text \<open>The runs in which no start call is made while another one waits.\<close>

inductive api_reach :: "api_state \<Rightarrow> bool" where
  at_init: "api_reach api_init"
| at_step: "api_reach s \<Longrightarrow> api_step s l t \<Longrightarrow> ((\<exists>args r. l = StartCall args r) \<Longrightarrow> as_waiting s = []) \<Longrightarrow> api_reach t"

subsection \<open>What a start call returns\<close>

text \<open>
  The invariant: every live task is the one whose handle is kept, the running flag says that it has
  started, a start call waits at most for this one, and what waits has an unfinished channel only if the
  task is before or in its bind.
\<close>

definition busy :: "task_phase \<Rightarrow> bool" where
  "busy p \<longleftrightarrow> p \<noteq> Spawned \<and> p \<noteq> Finished \<and> p \<noteq> Aborted"

definition task_ok :: "api_task \<Rightarrow> bool" where
  "task_ok t \<longleftrightarrow>
     (at_ready t = NotReady \<longleftrightarrow> at_phase t = Spawned \<or> at_phase t = Binding) \<and>
     (at_phase t = Serving \<longrightarrow> at_ready t = ReadySent) \<and> at_phase t \<noteq> Returning Panic"

text \<open>Two parts: what holds of each task and of what waits for it, and what the running flag says.\<close>

definition task_fits :: "api_state \<Rightarrow> nat \<Rightarrow> api_task \<Rightarrow> bool" where
  "task_fits s i t \<longleftrightarrow> task_ok t \<and> (task_live t \<longrightarrow> as_task s = Some i) \<and>
     (at_phase t = Spawned \<longrightarrow> i \<in> set (as_waiting s)) \<and> (busy (at_phase t) \<longrightarrow> as_running s)"

definition api_ok :: "api_state \<Rightarrow> bool" where
  "api_ok s \<longleftrightarrow>
     (\<forall>i < length (as_tasks s). task_fits s i (as_tasks s ! i)) \<and>
     (as_running s \<longrightarrow> (\<exists>i < length (as_tasks s). busy (at_phase (as_tasks s ! i)))) \<and>
     (\<forall>i \<in> set (as_waiting s). i < length (as_tasks s))"

lemma api_okD:
  assumes "api_ok s"
  shows "i < length (as_tasks s) \<Longrightarrow> task_fits s i (as_tasks s ! i)"
    and "i \<in> set (as_waiting s) \<Longrightarrow> i < length (as_tasks s)"
    and "as_running s \<Longrightarrow> \<exists>i < length (as_tasks s). busy (at_phase (as_tasks s ! i))"
  using assms by (auto simp: api_ok_def)

lemma busy_live: "busy (at_phase t) \<Longrightarrow> task_live t"
  by (simp add: busy_def task_live_def)

lemma live_cases: "task_live t \<longleftrightarrow> at_phase t = Spawned \<or> busy (at_phase t)"
  by (cases "at_phase t") (auto simp: task_live_def busy_def)

text \<open>A single task changes: what has to hold of it.\<close>

lemma api_ok_set_task:
  assumes "api_ok s" and "i < length (as_tasks s)" and "as_task s = Some i" and "task_ok t'"
    and "at_phase t' \<noteq> Spawned" and "b \<longleftrightarrow> busy (at_phase t')"
  shows "api_ok (set_task i t' (s\<lparr>as_running := b, as_status := c\<rparr>))"
proof -
  define u where "u = set_task i t' (s\<lparr>as_running := b, as_status := c\<rparr>)"
  have dead: "\<not> task_live (as_tasks s ! j)" "task_ok (as_tasks s ! j)" if "j < length (as_tasks s)" "j \<noteq> i" for j
    using api_okD(1) [OF assms(1) that(1)] assms(3) that(2) by (auto simp: task_fits_def)
  have n: "length (as_tasks u) = length (as_tasks s)" "as_tasks u ! i = t'" "as_waiting u = as_waiting s"
    "as_running u = b" "as_task u = Some i" "\<And>j. j \<noteq> i \<Longrightarrow> as_tasks u ! j = as_tasks s ! j"
    using assms(2,3) by (simp_all add: u_def set_task_def)
  have "task_fits u j (as_tasks u ! j)" if "j < length (as_tasks s)" for j
    using that dead n assms(4-6) by (cases "j = i") (simp_all add: task_fits_def live_cases)
  moreover have "\<exists>j < length (as_tasks s). busy (at_phase (as_tasks u ! j))" if b
    using that assms(2,6) n(2) by metis
  ultimately show ?thesis unfolding u_def [symmetric]
    using api_okD(2) [OF assms(1)] n(1,3,4) by (simp add: api_ok_def)
qed

lemma api_ok_task_step:
  assumes "api_ok s" and "i < length (as_tasks s)" and "outcome \<noteq> Panic"
  shows "api_ok (task_step i outcome s)"
proof (cases "task_live (as_tasks s ! i)")
  case False
  with assms(1) show ?thesis by (auto simp: task_live_def task_step_def Let_def)
next
  case True
  let ?t = "as_tasks s ! i"
  note fits = api_okD(1) [OF assms(1,2), unfolded task_fits_def]
  have set: "api_ok (set_task i t' (s\<lparr>as_running := b, as_status := c\<rparr>))"
    if "task_ok t'" "at_phase t' \<noteq> Spawned" "b \<longleftrightarrow> busy (at_phase t')" for t' b c
    using api_ok_set_task [OF assms(1,2) _ that] fits True by simp
  have same: "api_ok (set_task i t' s)" if "task_ok t'" "at_phase t' \<noteq> Spawned" "as_running s \<longleftrightarrow> busy (at_phase t')" for t'
    using set [OF that, of "as_status s"] by simp
  have setc: "api_ok (set_task i t' (s\<lparr>as_status := c\<rparr>))"
    if "task_ok t'" "at_phase t' \<noteq> Spawned" "as_running s \<longleftrightarrow> busy (at_phase t')" for t' c
    using set [OF that, of c] by simp
  have run: "as_running s" if "at_phase ?t \<noteq> Spawned"
    using fits True that by (simp add: live_cases)
  have tok: "task_ok ?t" using fits by simp
  show ?thesis
  proof (cases "at_phase ?t")
    case Spawned
    then show ?thesis
      using set [of "?t\<lparr>at_phase := Binding\<rparr>" True "as_status s"] tok
      by (simp add: task_step_def task_ok_def busy_def)
  next
    case Binding
    then show ?thesis
      using same tok run assms(3)
      by (cases outcome) (auto simp: task_step_def task_ok_def busy_def drop_sender_def)
  next
    case Serving
    then show ?thesis
      using same tok run assms(1,3)
      by (cases outcome) (auto simp: task_step_def task_ok_def busy_def)
  next
    case (Returning r)
    then show ?thesis
      using setc tok run
      by (cases r) (auto simp: task_step_def task_ok_def busy_def)
  next
    case Reported
    then show ?thesis
      using set [of _ False "as_status s"] tok
      by (auto simp: task_step_def task_ok_def busy_def)
  qed (use True in \<open>simp_all add: task_live_def\<close>)
qed

lemma stop_proxy_result:
  assumes "api_ok s" and "stop_proxy s = (r, s')"
  shows "api_ok s'" and "r = 0" and "\<forall>t \<in> set (as_tasks s'). \<not> task_live t" and "as_status s' = 0"
    and "\<not> as_running s'" and "as_waiting s' = as_waiting s" and "length (as_tasks s') = length (as_tasks s)"
proof -
  show r: "r = 0" and "as_status s' = 0" and "\<not> as_running s'" and "as_waiting s' = as_waiting s"
    and "length (as_tasks s') = length (as_tasks s)"
    using assms(2) by (auto simp: stop_proxy_def Let_def abort_task_def split: option.splits)
  have dead: "task_ok (as_tasks s' ! i) \<and> \<not> task_live (as_tasks s' ! i)" if "i < length (as_tasks s')" for i
    using that assms(2) api_okD(1) [OF assms(1), of i]
    by (auto simp: stop_proxy_def Let_def abort_task_def task_fits_def nth_list_update task_ok_def task_live_def
        drop_sender_def split: option.splits if_splits)
  then show "\<forall>t \<in> set (as_tasks s'). \<not> task_live t" by (auto simp: in_set_conv_nth)
  from dead api_okD(2) [OF assms(1)] \<open>\<not> as_running s'\<close> \<open>as_waiting s' = as_waiting s\<close>
    \<open>length (as_tasks s') = length (as_tasks s)\<close> show "api_ok s'"
    by (auto simp: api_ok_def task_fits_def live_cases)
qed

lemma api_ok_start_begin:
  assumes "api_ok s" and "as_waiting s = []" and "start_begin args s = (r, s')"
  shows "api_ok s'"
proof (cases "as_running s")
  case True
  with assms show ?thesis by (simp add: start_begin_def)
next
  case False
  have dead: "\<not> task_live (as_tasks s ! i)" "task_ok (as_tasks s ! i)" if "i < length (as_tasks s)" for i
    using api_okD(1) [OF assms(1) that] assms(2) False by (auto simp: task_fits_def live_cases)
  from False assms(3) have s': "s' = s\<lparr>as_status := 1,
      as_tasks := as_tasks s @ [\<lparr>at_config = api_client_config args, at_phase = Spawned, at_ready = NotReady\<rparr>],
      as_task := Some (length (as_tasks s)), as_waiting := [length (as_tasks s)]\<rparr>"
    using assms(2) by (auto simp: start_begin_def)
  have "task_fits s' i (as_tasks s' ! i)" if "i < length (as_tasks s')" for i
    using that dead [of i] False unfolding s'
    by (cases "i = length (as_tasks s)") (auto simp: nth_append task_fits_def live_cases task_ok_def busy_def)
  with False show ?thesis by (simp add: api_ok_def s')
qed

lemma api_ok_waiting:
  assumes "api_ok s" and "\<And>j. j \<in> set ws \<Longrightarrow> j \<in> set (as_waiting s)"
    and "\<And>j. j < length (as_tasks s) \<Longrightarrow> at_phase (as_tasks s ! j) = Spawned \<Longrightarrow> j \<in> set ws"
  shows "api_ok (s\<lparr>as_status := c, as_waiting := ws\<rparr>)"
  using assms by (auto simp: api_ok_def task_fits_def)

lemma api_ok_start_end:
  assumes "api_ok s" and "received = (if at_ready (as_tasks s ! i) = NotReady then None else Some (at_ready (as_tasks s ! i)))"
    and "start_end received s = (r, s')"
  shows "api_ok (s'\<lparr>as_waiting := removeAll i (as_waiting s')\<rparr>)"
proof (cases "at_ready (as_tasks s ! i) = NotReady")
  case True
  obtain r0 t where t: "stop_proxy s = (r0, t)" by fastforce
  with True assms(2,3) have s': "s' = t\<lparr>as_status := 3\<rparr>"
    by (simp add: start_end_def bound_in_time_def)
  have "at_phase (as_tasks t ! j) \<noteq> Spawned" if "j < length (as_tasks t)" for j
    using stop_proxy_result(3) [OF assms(1) t] nth_mem [OF that] by (auto simp: task_live_def)
  with api_ok_waiting [OF stop_proxy_result(1) [OF assms(1) t], of "removeAll i (as_waiting t)" 3]
  show ?thesis by (simp add: s')
next
  case False
  with assms(2,3) have s': "s' = s\<lparr>as_status := 2\<rparr>" by (simp add: start_end_def bound_in_time_def)
  have "j \<noteq> i \<and> j \<in> set (as_waiting s)" if "j < length (as_tasks s)" "at_phase (as_tasks s ! j) = Spawned" for j
    using api_okD(1) [OF assms(1) that(1)] that(2) False by (auto simp: task_fits_def task_ok_def)
  with api_ok_waiting [OF assms(1), of "removeAll i (as_waiting s)" 2] show ?thesis by (simp add: s')
qed

lemma api_ok_step:
  assumes "api_step s l t" and "api_ok s" and "(\<exists>args r. l = StartCall args r) \<Longrightarrow> as_waiting s = []"
  shows "api_ok t"
  using assms(1)
proof cases
  case (call_start args r)
  then show ?thesis using api_ok_start_begin [OF assms(2)] assms(3) by blast
next
  case (start_completes i r s')
  then show ?thesis using api_ok_start_end [OF assms(2), of _ i r s'] by simp
next
  case (start_times_out i r s')
  then show ?thesis using api_ok_start_end [OF assms(2), of _ i r s'] by simp
next
  case (call_stop r)
  then show ?thesis using stop_proxy_result(1) [OF assms(2)] by blast
next
  case (task_runs i outcome)
  then show ?thesis using api_ok_task_step [OF assms(2)] by simp
qed

lemma api_reach_ok: "api_reach s \<Longrightarrow> api_ok s"
proof (induction rule: api_reach.induct)
  case at_init
  then show ?case by (simp add: api_ok_def api_init_def)
next
  case (at_step s l t)
  then show ?case using api_ok_step by blast
qed


subsection \<open>Runs\<close>

lemma run_start:
  "\<not> as_running s \<Longrightarrow> api_run (snd (start_begin args s)) ls u \<Longrightarrow> api_run s (StartCall args None # ls) u"
  by (rule run_more [OF call_start]) (auto simp: start_begin_def)

lemma run_task:
  "i < length (as_tasks s) \<Longrightarrow> outcome \<noteq> Panic \<Longrightarrow> api_run (task_step i outcome s) ls u \<Longrightarrow>
   api_run s (TaskStep i outcome # ls) u"
  by (rule run_more [OF task_runs])

lemma run_return:
  assumes "i \<in> set (as_waiting s)" and "at_ready (as_tasks s ! i) \<noteq> NotReady"
    and "api_run (s\<lparr>as_status := status_code Connected, as_waiting := removeAll i (as_waiting s)\<rparr>) ls u"
  shows "api_run s (StartReturn i 0 # ls) u"
proof -
  have "api_step s (StartReturn i 0) ((s\<lparr>as_status := status_code Connected\<rparr>)
      \<lparr>as_waiting := removeAll i (as_waiting (s\<lparr>as_status := status_code Connected\<rparr>))\<rparr>)"
    using assms(1,2) by (intro start_completes) (simp_all add: start_end_def bound_in_time_def)
  from run_more [OF this] assms(3) show ?thesis by simp
qed

lemmas api_eval = api_init_def start_begin_def task_step_def set_task_def stop_proxy_def abort_task_def
  task_live_def drop_sender_def get_proxy_status_def is_proxy_running_def Let_def

text \<open>The status after a start call can be false. If the port cannot be bound, for whatever reason, the call can
  still return zero and leave the status at connected, with no task alive and nothing running.\<close>

theorem failed_bind_reported_connected:
  "\<exists>s. api_run api_init
      [StartCall args None, TaskStep 0 (Ok ()), TaskStep 0 (Err e), TaskStep 0 (Ok ()), TaskStep 0 (Ok ()), StartReturn 0 0] s \<and>
    get_proxy_status s = status_code Connected \<and> \<not> is_proxy_running s \<and> (\<forall>t \<in> set (as_tasks s). \<not> task_live t)"
  by (rule exI, rule conjI, rule run_start, simp add: api_eval,
      (rule run_task, simp add: api_eval, simp)+, rule run_return, simp add: api_eval, simp add: api_eval,
      rule run_here) (simp add: api_eval)

text \<open>Closed instances: the state after a call and the first step of its task.\<close>

definition example_args :: start_args where
  "example_args = (lit ''reliz.example.com:443'', lit ''00000000000000000000000000000001'', True, True, lit ''www.apple.com'')"

definition example_api :: api_state where
  "example_api = task_step 0 (Ok ()) (snd (start_begin example_args api_init))"

lemma example_api_reach: "api_reach example_api"
proof -
  have "api_step api_init (StartCall example_args None) (snd (start_begin example_args api_init))"
    by (rule call_start) (simp add: start_begin_def api_init_def)
  then have "api_reach (snd (start_begin example_args api_init))"
    by (rule at_step [OF at_init]) (simp add: api_init_def)
  moreover have "api_step (snd (start_begin example_args api_init)) (TaskStep 0 (Ok ())) example_api"
    unfolding example_api_def by (rule task_runs) (simp_all add: start_begin_def api_init_def)
  ultimately show ?thesis by (rule at_step) simp
qed


subsection \<open>The TUN task\<close>

text \<open>The descriptors of the tasks that have been started, each with whether it still runs, and the kept handle.\<close>

record tun_api =
  ta_tasks :: "(int \<times> bool) list"
  ta_task :: "nat option"

definition start_tun :: "int \<Rightarrow> tun_api \<Rightarrow> int \<times> tun_api" where
  "start_tun tun_fd s =
     (if tun_fd < 0 then (- 1, s)
      else (0, s\<lparr>ta_tasks := ta_tasks s @ [(tun_fd, True)], ta_task := Some (length (ta_tasks s))\<rparr>))"

definition stop_tun :: "tun_api \<Rightarrow> int \<times> tun_api" where
  "stop_tun s =
     (case ta_task s of
        Some handle \<Rightarrow> (0, s\<lparr>ta_tasks := (ta_tasks s)[handle := (fst (ta_tasks s ! handle), False)], ta_task := None\<rparr>)
      | None \<Rightarrow> (0, s))"

definition ghost_tun_start :: "int \<Rightarrow> tun_api \<Rightarrow> int \<times> tun_api" where
  "ghost_tun_start tun_fd = start_tun tun_fd"

definition ghost_tun_stop :: "tun_api \<Rightarrow> int \<times> tun_api" where
  "ghost_tun_stop = stop_tun"

text \<open>A stop call ends the processor started last, and only this one: if it was started while another one ran,
  the other one keeps its descriptor and runs on, and no later stop call reaches it.\<close>

theorem stop_tun_only_latest:
  assumes "0 \<le> fd1" and "0 \<le> fd2"
  shows "let s1 = snd (ghost_tun_start fd1 s); s2 = snd (ghost_tun_start fd2 s1); s3 = snd (ghost_tun_stop s2) in
    ta_tasks s3 = ta_tasks s @ [(fd1, True), (fd2, False)] \<and> ghost_tun_stop s3 = (0, s3)"
  using assms
  by (simp add: ghost_tun_start_def ghost_tun_stop_def start_tun_def stop_tun_def nth_append list_update_append)

theorem stop_tun_only_latest_witness:
  "ta_tasks (snd (ghost_tun_stop (snd (ghost_tun_start 6 (snd (ghost_tun_start 5 \<lparr>ta_tasks = [], ta_task = None\<rparr>)))))) =
     [(5, True), (6, False)]"
  using stop_tun_only_latest [of 5 6 "\<lparr>ta_tasks = [], ta_task = None\<rparr>"] by (simp add: Let_def)

end
