(* ===== verification/Mobile_Steps.thy ===== *)
theory Mobile_Steps
  imports Mobile_Api
begin

section \<open>The mobile bridge, one access at a time\<close>

text \<open>
  ghost_flutter/rust/src/api.rs again, now with the calls cut at every access to what they share. The calls of the
  application run on the threads of the bridge and the background tasks on those of the runtime, so between any two
  accesses another call or a task can get in: \<^verbatim>\<open>PROXY_RUNNING\<close> and \<^verbatim>\<open>PROXY_STATUS\<close> are atomics, the handle is
  behind a mutex that a stop call holds over \<^verbatim>\<open>take\<close> and \<^verbatim>\<open>abort\<close> and a start call only for the store. A start
  call spawns its task before it stores the handle. Aborting only asks: the task is marked (\<open>bs_told\<close>), a poll that
  is under way goes on, and the task is dropped when it next would wait, which it does in the bind and in accept, or
  before its first poll; the steps let a task that has been told make any number of moves before it is dropped, so
  that they cover wherever the poll was. \<open>Mobile_Api\<close> has the same calls run without interference: \<open>stop_proxy_alone\<close>
  and \<open>start_begin_alone\<close> say that its functions are what the accesses come to when nothing gets in between.
\<close>

subsection \<open>Where a call stands\<close>

text \<open>
  Each constructor is the access a call makes next; the flag of the stop part says that it is the clean-up of a
  start call that timed out.
\<close>

datatype call_pc =
    StartCheck start_args
  | StartStatus start_args
  | StartSpawn start_args
  | StartStore nat
  | StartWait nat
  | StartConnected
  | StopAbort bool
  | StopRunning bool
  | StopStatus bool
  | StartError
  | Returned int

record bridge_state =
  bs_api :: api_state
  bs_told :: "nat set"
  bs_calls :: "call_pc list"

definition bridge_init :: bridge_state where
  "bridge_init = \<lparr>bs_api = api_init, bs_told = {}, bs_calls = []\<rparr>"

definition new_task :: "start_args \<Rightarrow> api_task" where
  "new_task args = \<lparr>at_config = api_client_config args, at_phase = Spawned, at_ready = NotReady\<rparr>"

text \<open>
  The next access of a call: what it does to the statics and to the marks, and where the call then stands.
  A call that waits goes on when the channel is resolved, or when its time is over (\<open>timed_out\<close>).
\<close>

fun call_move :: "bool \<Rightarrow> call_pc \<Rightarrow> api_state \<times> nat set \<Rightarrow> call_pc \<times> api_state \<times> nat set" where
  "call_move timed_out (StartCheck args) (a, told) = (if as_running a then Returned 0 else StartStatus args, a, told)"
| "call_move timed_out (StartStatus args) (a, told) = (StartSpawn args, a\<lparr>as_status := status_code Connecting\<rparr>, told)"
| "call_move timed_out (StartSpawn args) (a, told) =
     (StartStore (length (as_tasks a)), a\<lparr>as_tasks := as_tasks a @ [new_task args]\<rparr>, told)"
| "call_move timed_out (StartStore i) (a, told) = (StartWait i, a\<lparr>as_task := Some i\<rparr>, told)"
| "call_move timed_out (StartWait i) (a, told) =
     (if at_ready (as_tasks a ! i) \<noteq> NotReady then StartConnected
      else if timed_out then StopAbort True else StartWait i, a, told)"
| "call_move timed_out StartConnected (a, told) = (Returned 0, a\<lparr>as_status := status_code Connected\<rparr>, told)"
| "call_move timed_out (StopAbort cleanup) (a, told) =
     (StopRunning cleanup,
      (case as_task a of None \<Rightarrow> (a, told) | Some handle \<Rightarrow> (a\<lparr>as_task := None\<rparr>, insert handle told)))"
| "call_move timed_out (StopRunning cleanup) (a, told) = (StopStatus cleanup, a\<lparr>as_running := False\<rparr>, told)"
| "call_move timed_out (StopStatus cleanup) (a, told) =
     (if cleanup then StartError else Returned 0, a\<lparr>as_status := status_code Stopped\<rparr>, told)"
| "call_move timed_out StartError (a, told) = (Returned (status_code Error), a\<lparr>as_status := status_code Error\<rparr>, told)"
| "call_move timed_out (Returned r) (a, told) = (Returned r, a, told)"

text \<open>The task is at a point where it waits: its first poll, the bind, or accept.\<close>

definition at_await :: "task_phase \<Rightarrow> bool" where
  "at_await p \<longleftrightarrow> p = Spawned \<or> p = Binding \<or> p = Serving"

subsection \<open>Steps\<close>

datatype bridge_label =
    BeginStart start_args
  | BeginStop
  | CallMoves nat bool
  | TaskMoves nat "(io_error, unit) res"
  | TaskDropped nat

inductive bridge_step :: "bridge_state \<Rightarrow> bridge_label \<Rightarrow> bridge_state \<Rightarrow> bool" where
  begin_start: "bridge_step s (BeginStart args) (s\<lparr>bs_calls := bs_calls s @ [StartCheck args]\<rparr>)"
| begin_stop: "bridge_step s BeginStop (s\<lparr>bs_calls := bs_calls s @ [StopAbort False]\<rparr>)"
| call_moves: "k < length (bs_calls s) \<Longrightarrow> call_move timed_out (bs_calls s ! k) (bs_api s, bs_told s) = (c, a, told) \<Longrightarrow>
    bridge_step s (CallMoves k timed_out) \<lparr>bs_api = a, bs_told = told, bs_calls = (bs_calls s)[k := c]\<rparr>"
| task_moves: "i < length (as_tasks (bs_api s)) \<Longrightarrow> outcome \<noteq> Panic \<Longrightarrow>
    bridge_step s (TaskMoves i outcome) (s\<lparr>bs_api := task_step i outcome (bs_api s)\<rparr>)"
| task_dropped: "i \<in> bs_told s \<Longrightarrow> i < length (as_tasks (bs_api s)) \<Longrightarrow> at_await (at_phase (as_tasks (bs_api s) ! i)) \<Longrightarrow>
    bridge_step s (TaskDropped i)
      (s\<lparr>bs_api := (bs_api s)\<lparr>as_tasks := abort_task i (as_tasks (bs_api s))\<rparr>\<rparr>)"

inductive bridge_run :: "bridge_state \<Rightarrow> bridge_label list \<Rightarrow> bridge_state \<Rightarrow> bool" where
  stay: "bridge_run s [] s"
| go_on: "bridge_step s l t \<Longrightarrow> bridge_run t ls u \<Longrightarrow> bridge_run s (l # ls) u"

inductive_cases bridge_run_Cons: "bridge_run s (l # ls) u"

lemma bridge_run_append: "bridge_run s ls t \<Longrightarrow> bridge_run t ms u \<Longrightarrow> bridge_run s (ls @ ms) u"
  by (induction rule: bridge_run.induct) (auto intro: bridge_run.intros)

text \<open>An invariant of the steps is one of the runs.\<close>

lemma bridge_run_invariant:
  assumes "bridge_run s ls t" and "I s" and "\<And>s l t. l \<in> set ls \<Longrightarrow> bridge_step s l t \<Longrightarrow> I s \<Longrightarrow> I t"
  shows "I t"
  using assms
proof (induction rule: bridge_run.induct)
  case (go_on s l t ls u)
  then show ?case by (metis list.set_intros)
qed


text \<open>The step a label makes, as a function; a label that no rule covers has none.\<close>

fun bridge_next :: "bridge_label \<Rightarrow> bridge_state \<Rightarrow> bridge_state option" where
  "bridge_next (BeginStart args) s = Some (s\<lparr>bs_calls := bs_calls s @ [StartCheck args]\<rparr>)"
| "bridge_next BeginStop s = Some (s\<lparr>bs_calls := bs_calls s @ [StopAbort False]\<rparr>)"
| "bridge_next (CallMoves k timed_out) s =
     (if k < length (bs_calls s)
      then (case call_move timed_out (bs_calls s ! k) (bs_api s, bs_told s) of
              (c, a, told) \<Rightarrow> Some \<lparr>bs_api = a, bs_told = told, bs_calls = (bs_calls s)[k := c]\<rparr>)
      else None)"
| "bridge_next (TaskMoves i outcome) s =
     (if i < length (as_tasks (bs_api s)) \<and> outcome \<noteq> Panic then Some (s\<lparr>bs_api := task_step i outcome (bs_api s)\<rparr>) else None)"
| "bridge_next (TaskDropped i) s =
     (if i \<in> bs_told s \<and> i < length (as_tasks (bs_api s)) \<and> at_await (at_phase (as_tasks (bs_api s) ! i))
      then Some (s\<lparr>bs_api := (bs_api s)\<lparr>as_tasks := abort_task i (as_tasks (bs_api s))\<rparr>\<rparr>) else None)"

lemma bridge_next_step: "bridge_next l s = Some t \<longleftrightarrow> bridge_step s l t"
proof
  show "bridge_step s l t" if "bridge_next l s = Some t"
    using that by (cases l) (auto split: if_splits prod.splits intro: bridge_step.intros)
  show "bridge_next l s = Some t" if "bridge_step s l t"
    using that by cases simp_all
qed

primrec bridge_exec :: "bridge_label list \<Rightarrow> bridge_state \<Rightarrow> bridge_state option" where
  "bridge_exec [] s = Some s"
| "bridge_exec (l # ls) s = Option.bind (bridge_next l s) (bridge_exec ls)"

lemma bridge_exec_run: "bridge_exec ls s = Some t \<longleftrightarrow> bridge_run s ls t"
proof (induction ls arbitrary: s)
  case Nil
  then show ?case by (auto intro: stay elim: bridge_run.cases)
next
  case (Cons l ls)
  then show ?case
    by (auto simp: bridge_next_step bind_eq_Some_conv intro: go_on elim: bridge_run_Cons)
qed

subsection \<open>What a step does to a task and to the handles\<close>

abbreviation bs_tasks :: "bridge_state \<Rightarrow> api_task list" where
  "bs_tasks s \<equiv> as_tasks (bs_api s)"

definition alive :: "bridge_state \<Rightarrow> nat \<Rightarrow> bool" where
  "alive s i \<longleftrightarrow> i < length (bs_tasks s) \<and> task_live (bs_tasks s ! i)"

lemma task_step_frame [simp]:
  "length (as_tasks (task_step i outcome a)) = length (as_tasks a)"
  "as_task (task_step i outcome a) = as_task a"
  "j \<noteq> i \<Longrightarrow> as_tasks (task_step i outcome a) ! j = as_tasks a ! j"
  by (auto simp: task_step_def set_task_def Let_def split: task_phase.split res.split)

lemma abort_task_frame [simp]:
  "length (abort_task i ts) = length ts"
  "j \<noteq> i \<Longrightarrow> abort_task i ts ! j = ts ! j"
  by (simp_all add: abort_task_def)

lemma abort_task_at: "i < length ts \<Longrightarrow> at_phase (abort_task i ts ! i) = (if task_live (ts ! i) then Aborted else at_phase (ts ! i))"
  by (simp add: abort_task_def)

text \<open>A call touches the tasks only by adding one at the end.\<close>

lemma call_move_tasks:
  "call_move b c (a, told) = (c', a', told') \<Longrightarrow>
     (\<exists>args. c = StartSpawn args \<and> as_tasks a' = as_tasks a @ [new_task args]) \<or> as_tasks a' = as_tasks a"
  by (cases c) (auto split: option.splits)

lemma call_move_spawn: "(\<And>args. c \<noteq> StartSpawn args) \<Longrightarrow> call_move b c (a, told) = (c', a', told') \<Longrightarrow> as_tasks a' = as_tasks a"
  using call_move_tasks by metis

lemma bridge_step_tasks:
  assumes "bridge_step s l t" and "i < length (bs_tasks s)"
  shows "length (bs_tasks s) \<le> length (bs_tasks t) \<and>
    (bs_tasks t ! i = bs_tasks s ! i \<or>
     (\<exists>outcome. l = TaskMoves i outcome \<and> outcome \<noteq> Panic \<and> bs_tasks t ! i = as_tasks (task_step i outcome (bs_api s)) ! i) \<or>
     (l = TaskDropped i \<and> i \<in> bs_told s))"
  using assms(1)
proof cases
  case (call_moves k b c a told)
  then show ?thesis using call_move_tasks [OF call_moves(4)] assms(2) by (auto simp: nth_append)
next
  case (task_moves j outcome)
  then show ?thesis by (cases "j = i") auto
next
  case (task_dropped j)
  then show ?thesis by (cases "j = i") auto
qed (use assms(2) in simp_all)

text \<open>The handle of a task is out of reach: not kept, not about to be stored, and the task has not been told.\<close>

definition handle_lost :: "nat \<Rightarrow> bridge_state \<Rightarrow> bool" where
  "handle_lost i s \<longleftrightarrow> i < length (bs_tasks s) \<and> as_task (bs_api s) \<noteq> Some i \<and> i \<notin> bs_told s \<and>
     StartStore i \<notin> set (bs_calls s)"

lemma set_update_neq: "x \<in> set (xs[k := y]) \<Longrightarrow> x \<noteq> y \<Longrightarrow> x \<in> set xs"
  using set_update_subset_insert by fast

lemma call_move_handles:
  assumes "call_move b c (a, told) = (c', a', told')"
  shows "as_task a' = as_task a \<or> as_task a' = None \<or> (\<exists>j. c = StartStore j \<and> as_task a' = Some j)"
    and "told' \<subseteq> told \<union> set_option (as_task a)" and "told \<subseteq> told'"
    and "c' = StartStore j \<Longrightarrow> j = length (as_tasks a) \<and> (\<exists>args. c = StartSpawn args)"
    and "told' \<noteq> told \<Longrightarrow> as_task a' = None"
  using assms by (cases c; auto split: option.splits if_splits)+

lemma handle_lost_step:
  assumes "bridge_step s l t" and "handle_lost i s"
  shows "handle_lost i t"
  using assms(1)
proof cases
  case (call_moves k b c a told)
  have "bs_calls s ! k \<noteq> StartStore i" using assms(2) call_moves(3) by (metis handle_lost_def nth_mem)
  moreover have "StartStore i \<noteq> c" using call_move_handles(4) [OF call_moves(4)] assms(2) by (auto simp: handle_lost_def)
  ultimately show ?thesis
    using assms(2) call_move_handles(1,2) [OF call_moves(4)] call_move_tasks [OF call_moves(4)] set_update_neq call_moves(2)
    by (fastforce simp: handle_lost_def)
qed (use assms(2) in \<open>auto simp: handle_lost_def\<close>)

lemma task_step_not_aborted:
  "i < length (as_tasks a) \<Longrightarrow> at_phase (as_tasks a ! i) \<noteq> Aborted \<Longrightarrow> at_phase (as_tasks (task_step i outcome a) ! i) \<noteq> Aborted"
  by (auto simp: task_step_def set_task_def Let_def split: task_phase.split res.split)

subsection \<open>An overwritten handle\<close>

text \<open>
  The handles in every reachable state: a task that has been told is neither kept nor about to be stored, no task is
  both kept and about to be stored, no two calls are about to store the same one, and only told tasks are dropped.
\<close>

definition handles_ok :: "bridge_state \<Rightarrow> bool" where
  "handles_ok s \<longleftrightarrow>
     (\<forall>i \<in> bs_told s. i < length (bs_tasks s)) \<and>
     (\<forall>i. as_task (bs_api s) = Some i \<longrightarrow> i < length (bs_tasks s) \<and> i \<notin> bs_told s \<and> StartStore i \<notin> set (bs_calls s)) \<and>
     (\<forall>i. StartStore i \<in> set (bs_calls s) \<longrightarrow> i < length (bs_tasks s) \<and> i \<notin> bs_told s) \<and>
     (\<forall>i j k. j < length (bs_calls s) \<longrightarrow> k < length (bs_calls s) \<longrightarrow>
        bs_calls s ! j = StartStore i \<longrightarrow> bs_calls s ! k = StartStore i \<longrightarrow> j = k) \<and>
     (\<forall>i < length (bs_tasks s). i \<notin> bs_told s \<longrightarrow> at_phase (bs_tasks s ! i) \<noteq> Aborted)"

lemma handles_okD:
  assumes "handles_ok s"
  shows "i \<in> bs_told s \<Longrightarrow> i < length (bs_tasks s)"
    and "as_task (bs_api s) = Some i \<Longrightarrow> i < length (bs_tasks s)"
    and "as_task (bs_api s) = Some i \<Longrightarrow> i \<notin> bs_told s"
    and "as_task (bs_api s) = Some i \<Longrightarrow> StartStore i \<notin> set (bs_calls s)"
    and "StartStore i \<in> set (bs_calls s) \<Longrightarrow> i < length (bs_tasks s)"
    and "StartStore i \<in> set (bs_calls s) \<Longrightarrow> i \<notin> bs_told s"
    and "j < length (bs_calls s) \<Longrightarrow> k < length (bs_calls s) \<Longrightarrow> bs_calls s ! j = StartStore i \<Longrightarrow>
      bs_calls s ! k = StartStore i \<Longrightarrow> j = k"
    and "i < length (bs_tasks s) \<Longrightarrow> i \<notin> bs_told s \<Longrightarrow> at_phase (bs_tasks s ! i) \<noteq> Aborted"
  using assms unfolding handles_ok_def by blast+

lemma handles_ok_append:
  "handles_ok s \<Longrightarrow> (\<And>i. c \<noteq> StartStore i) \<Longrightarrow> handles_ok (s\<lparr>bs_calls := bs_calls s @ [c]\<rparr>)"
  unfolding handles_ok_def
  by (auto simp: nth_append less_Suc_eq)

text \<open>The store of a handle: it leaves the list of calls, and no other call has it.\<close>

lemma stored_once:
  assumes "handles_ok s" and "k < length (bs_calls s)" and "bs_calls s ! k = StartStore i" and "c \<noteq> StartStore i"
  shows "StartStore i \<notin> set ((bs_calls s)[k := c])"
proof
  assume "StartStore i \<in> set ((bs_calls s)[k := c])"
  then obtain j where "j < length (bs_calls s)" "(bs_calls s)[k := c] ! j = StartStore i"
    by (auto simp: in_set_conv_nth)
  with assms(2-4) handles_okD(7) [OF assms(1), of j k i] show False by (cases "j = k") auto
qed

lemma handles_ok_move:
  assumes ok: "handles_ok s" and k: "k < length (bs_calls s)"
    and mv: "call_move b (bs_calls s ! k) (bs_api s, bs_told s) = (c, a, told)"
  shows "handles_ok \<lparr>bs_api = a, bs_told = told, bs_calls = (bs_calls s)[k := c]\<rparr>" (is "handles_ok ?t")
proof -
  let ?n = "length (bs_tasks s)"
  have in_calls: "bs_calls s ! k \<in> set (bs_calls s)" using k by simp
  have tasks: "?n \<le> length (as_tasks a)" "i < ?n \<Longrightarrow> as_tasks a ! i = bs_tasks s ! i" for i
    using call_move_tasks [OF mv] by (auto simp: nth_append)
  have store: "StartStore i \<in> set ((bs_calls s)[k := c]) \<Longrightarrow>
      StartStore i \<in> set (bs_calls s) \<and> c \<noteq> StartStore i \<or> c = StartStore i \<and> i = ?n \<and> (\<exists>args. bs_calls s ! k = StartSpawn args)" for i
    using set_update_neq [of "StartStore i" "bs_calls s" k c] call_move_handles(4) [OF mv, of i] by (cases "c = StartStore i") auto
  have told: "i \<in> told \<Longrightarrow> i \<in> bs_told s \<or> as_task (bs_api s) = Some i" for i
    using call_move_handles(2) [OF mv] by auto
  have new: "told = bs_told s \<and> as_task a = as_task (bs_api s) \<and> length (as_tasks a) = Suc ?n \<and>
      as_tasks a ! ?n = new_task args"
    if "bs_calls s ! k = StartSpawn args" for args
    using mv that by auto
  have "i < length (as_tasks a)" if "i \<in> told" for i
    using told [OF that] handles_okD(1,2) [OF ok, of i] tasks(1) by auto
  moreover have "i < length (as_tasks a) \<and> i \<notin> told \<and> StartStore i \<notin> set ((bs_calls s)[k := c])" if "as_task a = Some i" for i
  proof (cases "bs_calls s ! k = StartStore i")
    case True
    then have "told = bs_told s" "c = StartWait i" using mv by auto
    with True handles_okD(5,6) [OF ok, of i] tasks(1) in_calls stored_once [OF ok k True] show ?thesis by auto
  next
    case False
    then have same: "as_task (bs_api s) = Some i" using call_move_handles(1) [OF mv] that by auto
    have "told = bs_told s" using call_move_handles(5) [OF mv] that by force
    with handles_okD(2-4) [OF ok same] store [of i] tasks(1) show ?thesis by auto
  qed
  moreover have "i < length (as_tasks a) \<and> i \<notin> told" if "StartStore i \<in> set ((bs_calls s)[k := c])" for i
    using store [OF that] handles_okD(4-6) [OF ok, of i] told [of i] tasks(1) new handles_okD(1) [OF ok, of ?n] by fastforce
  moreover have "j = j'" if "j < length (bs_calls s)" "j' < length (bs_calls s)"
    "(bs_calls s)[k := c] ! j = StartStore i" "(bs_calls s)[k := c] ! j' = StartStore i" for i j j'
  proof -
    have neq: "bs_calls s ! m \<noteq> StartStore i" if "c = StartStore i" "m < length (bs_calls s)" for m
      using call_move_handles(4) [OF mv that(1)] handles_okD(5) [OF ok, of i] nth_mem [OF that(2)] by force
    show ?thesis
      using that handles_okD(7) [OF ok, of j j' i] neq [of j] neq [of j'] k by (cases "j = k"; cases "j' = k") auto
  qed
  moreover have "at_phase (as_tasks a ! i) \<noteq> Aborted" if "i < length (as_tasks a)" "i \<notin> told" for i
  proof (cases "i < ?n")
    case True
    then show ?thesis using handles_okD(8) [OF ok True] call_move_handles(3) [OF mv] that(2) tasks(2) by auto
  next
    case False
    with call_move_tasks [OF mv] that(1) show ?thesis by (auto simp: nth_append new_task_def)
  qed
  ultimately show ?thesis unfolding handles_ok_def by simp
qed

lemma handles_ok_step:
  assumes "bridge_step s l t" and ok: "handles_ok s"
  shows "handles_ok t"
  using assms(1)
proof cases
  case (begin_start args)
  then show ?thesis using handles_ok_append [OF ok] by simp
next
  case begin_stop
  then show ?thesis using handles_ok_append [OF ok] by simp
next
  case (call_moves k b c a told)
  then show ?thesis using handles_ok_move [OF ok] by simp
next
  case (task_moves i outcome)
  have "at_phase (as_tasks (task_step i outcome (bs_api s)) ! j) \<noteq> Aborted"
    if "j < length (bs_tasks s)" "j \<notin> bs_told s" for j
    using handles_okD(8) [OF ok that] task_step_not_aborted [OF that(1)] by (cases "j = i") auto
  then show ?thesis using ok task_moves by (simp add: handles_ok_def)
next
  case (task_dropped i)
  have "at_phase (abort_task i (bs_tasks s) ! j) \<noteq> Aborted"
    if "j < length (bs_tasks s)" "j \<notin> bs_told s" for j
    using handles_okD(8) [OF ok that] that(2) task_dropped(3) by (cases "j = i") auto
  then show ?thesis using ok task_dropped by (simp add: handles_ok_def)
qed

lemma handles_ok_run: "bridge_run bridge_init ls s \<Longrightarrow> handles_ok s"
  by (erule bridge_run_invariant) (auto simp: handles_ok_def bridge_init_def api_init_def dest: handles_ok_step [unfolded handles_ok_def])

text \<open>A lost task stays lost, is never dropped, and serves on as long as its own accept does not fail.\<close>

lemma handle_lost_phase:
  assumes "bridge_step s l t" and "handle_lost i s"
  shows "at_phase (bs_tasks s ! i) \<noteq> Aborted \<Longrightarrow> at_phase (bs_tasks t ! i) \<noteq> Aborted"
    and "at_phase (bs_tasks s ! i) = Serving \<Longrightarrow> (\<And>e. l \<noteq> TaskMoves i (Err e)) \<Longrightarrow> at_phase (bs_tasks t ! i) = Serving"
proof -
  have i: "i < length (bs_tasks s)" "i \<notin> bs_told s" using assms(2) by (auto simp: handle_lost_def)
  note steps = bridge_step_tasks [OF assms(1) i(1)]
  show "at_phase (bs_tasks s ! i) \<noteq> Aborted \<Longrightarrow> at_phase (bs_tasks t ! i) \<noteq> Aborted"
    using steps task_step_not_aborted [OF i(1)] i(2) by auto
  have "at_phase (as_tasks (task_step i outcome (bs_api s)) ! i) = Serving"
    if "at_phase (bs_tasks s ! i) = Serving" "outcome \<noteq> Panic" "\<And>e. outcome \<noteq> Err e" for outcome
    using that by (cases outcome) (auto simp: task_step_def)
  then show "at_phase (bs_tasks s ! i) = Serving \<Longrightarrow> (\<And>e. l \<noteq> TaskMoves i (Err e)) \<Longrightarrow> at_phase (bs_tasks t ! i) = Serving"
    using steps i(2) by auto
qed

lemma handle_lost_run:
  assumes "bridge_run s ls t" and "handle_lost i s" and "at_phase (bs_tasks s ! i) \<noteq> Aborted"
  shows "handle_lost i t \<and> at_phase (bs_tasks t ! i) \<noteq> Aborted \<and>
    (at_phase (bs_tasks s ! i) = Serving \<and> (\<forall>e. TaskMoves i (Err e) \<notin> set ls) \<longrightarrow> at_phase (bs_tasks t ! i) = Serving)"
  using assms
proof (induction rule: bridge_run.induct)
  case (go_on s l t ls u)
  have "\<And>e. l \<noteq> TaskMoves i (Err e)" if "\<forall>e. TaskMoves i (Err e) \<notin> set (l # ls)" using that by auto
  with go_on handle_lost_step [OF go_on(1)] handle_lost_phase [OF go_on(1)] show ?case by simp
qed simp

subsection \<open>Calls in turn\<close>

fun is_returned :: "call_pc \<Rightarrow> bool" where
  "is_returned (Returned r) = True"
| "is_returned c = False"

definition calls_over :: "bridge_state \<Rightarrow> bool" where
  "calls_over s \<longleftrightarrow> (\<forall>c \<in> set (bs_calls s). is_returned c)"

text \<open>
  The runs in which a call begins only when no other is in progress, and a start call only when the tasks that have
  been told to end have ended.
\<close>

inductive in_turn :: "bridge_state \<Rightarrow> bool" where
  turn_init: "in_turn bridge_init"
| turn_step: "in_turn s \<Longrightarrow> bridge_step s l t \<Longrightarrow>
    ((\<exists>args. l = BeginStart args) \<Longrightarrow> calls_over s \<and> (\<forall>i \<in> bs_told s. \<not> alive s i)) \<Longrightarrow>
    (l = BeginStop \<Longrightarrow> calls_over s) \<Longrightarrow> in_turn t"

text \<open>
  What the place of the one call in progress says of a live task, and what holds of one that has not been told.
\<close>

fun place_ok :: "call_pc \<Rightarrow> nat set \<Rightarrow> nat \<Rightarrow> bool" where
  "place_ok (StartCheck args) told i \<longleftrightarrow> i \<notin> told"
| "place_ok (StartStatus args) told i \<longleftrightarrow> False"
| "place_ok (StartSpawn args) told i \<longleftrightarrow> False"
| "place_ok (StartStore j) told i \<longleftrightarrow> i = j"
| "place_ok (StopRunning cleanup) told i \<longleftrightarrow> i \<in> told"
| "place_ok (StopStatus cleanup) told i \<longleftrightarrow> i \<in> told"
| "place_ok c told i \<longleftrightarrow> True"

definition live_at :: "api_state \<Rightarrow> nat \<Rightarrow> bool" where
  "live_at a i \<longleftrightarrow> i < length (as_tasks a) \<and> task_live (as_tasks a ! i)"

definition turn_fits :: "call_pc \<Rightarrow> api_state \<Rightarrow> nat set \<Rightarrow> nat \<Rightarrow> bool" where
  "turn_fits c a told i \<longleftrightarrow> place_ok c told i \<and>
     (i \<notin> told \<longrightarrow> (as_task a = Some i \<or> c = StartStore i) \<and>
        (if at_phase (as_tasks a ! i) = Spawned then c = StartStore i \<or> c = StartWait i \<or> c = StopAbort True
         else as_running a))"

definition turn_inv :: "call_pc \<Rightarrow> api_state \<Rightarrow> nat set \<Rightarrow> bool" where
  "turn_inv c a told \<longleftrightarrow> (\<forall>i < length (as_tasks a). task_ok (as_tasks a ! i)) \<and>
     (\<forall>i j. live_at a i \<longrightarrow> live_at a j \<longrightarrow> i = j) \<and> (\<forall>i. live_at a i \<longrightarrow> turn_fits c a told i)"

lemma turn_invD:
  assumes "turn_inv c a told"
  shows "i < length (as_tasks a) \<Longrightarrow> task_ok (as_tasks a ! i)"
    and "live_at a i \<Longrightarrow> live_at a j \<Longrightarrow> i = j"
    and "live_at a i \<Longrightarrow> turn_fits c a told i"
  using assms unfolding turn_inv_def by blast+

text \<open>The same tasks: only what holds of the live ones has to be shown again.\<close>

lemma turn_inv_same:
  assumes "turn_inv c a told" and "as_tasks a' = as_tasks a"
    and "\<And>i. live_at a i \<Longrightarrow> turn_fits c a told i \<Longrightarrow> task_ok (as_tasks a ! i) \<Longrightarrow> turn_fits c' a' told' i"
  shows "turn_inv c' a' told'"
  using assms unfolding turn_inv_def live_at_def by auto

lemma live_at_append:
  "live_at (a\<lparr>as_tasks := as_tasks a @ [t]\<rparr>) i \<longleftrightarrow> live_at a i \<or> i = length (as_tasks a) \<and> task_live t"
  by (auto simp: live_at_def nth_append less_Suc_eq)

lemma turn_inv_spawn:
  assumes "turn_inv (StartSpawn args) a told"
  shows "turn_inv (StartStore (length (as_tasks a))) (a\<lparr>as_tasks := as_tasks a @ [new_task args]\<rparr>) told"
proof -
  have none: "\<not> live_at a i" for i using turn_invD(3) [OF assms, of i] by (auto simp: turn_fits_def)
  have "task_ok (new_task args)" by (simp add: task_ok_def new_task_def)
  then show ?thesis
    using none turn_invD(1) [OF assms]
    by (auto simp: turn_inv_def live_at_append turn_fits_def nth_append less_Suc_eq new_task_def)
qed

lemma turn_inv_move:
  assumes inv: "turn_inv c a told" and mv: "call_move b c (a, told) = (c', a', told')"
  shows "turn_inv c' a' told'"
proof (cases c)
  case (StartCheck args)
  show ?thesis
    by (rule turn_inv_same [OF inv]) (use mv StartCheck in \<open>auto simp: turn_fits_def split: if_splits\<close>)
next
  case (StartSpawn args)
  with turn_inv_spawn [of args a told] inv mv show ?thesis by auto
next
  case (StartWait j)
  show ?thesis
    by (rule turn_inv_same [OF inv]) (use mv StartWait in \<open>auto simp: turn_fits_def task_ok_def split: if_splits\<close>)
next
  case (StopAbort cleanup)
  show ?thesis
    by (rule turn_inv_same [OF inv]) (use mv StopAbort in \<open>auto simp: turn_fits_def split: option.splits if_splits\<close>)
qed (rule turn_inv_same [OF inv]; use mv in \<open>auto simp: turn_fits_def split: if_splits\<close>)+

text \<open>A task moves on: what it does when it is live.\<close>

lemma task_step_live:
  assumes "i < length (as_tasks a)" and "task_ok (as_tasks a ! i)" and "outcome \<noteq> Panic"
  defines "a' \<equiv> task_step i outcome a"
  shows "task_ok (as_tasks a' ! i)"
    and "task_live (as_tasks a' ! i) \<Longrightarrow> task_live (as_tasks a ! i) \<and> at_phase (as_tasks a' ! i) \<noteq> Spawned \<and>
      (at_phase (as_tasks a ! i) = Spawned \<or> as_running a \<longrightarrow> as_running a')"
    and "\<not> task_live (as_tasks a ! i) \<Longrightarrow> a' = a"
  using assms
  by (auto simp: a'_def task_step_def set_task_def Let_def task_ok_def task_live_def drop_sender_def split: task_phase.splits res.splits)

lemma turn_inv_task:
  assumes inv: "turn_inv c a told" and i: "i < length (as_tasks a)" and oc: "outcome \<noteq> Panic"
  shows "turn_inv c (task_step i outcome a) told"
proof (cases "live_at a i")
  case False
  then have "task_step i outcome a = a"
    using task_step_live(3) [OF i turn_invD(1) [OF inv i] oc] i by (simp add: live_at_def)
  with inv show ?thesis by simp
next
  case True
  note st = task_step_live [OF i turn_invD(1) [OF inv i] oc]
  have only: "live_at (task_step i outcome a) j \<Longrightarrow> j = i" for j
    using turn_invD(2) [OF inv True, of j] by (cases "j = i") (auto simp: live_at_def)
  moreover have "turn_fits c (task_step i outcome a) told i" if "live_at (task_step i outcome a) i"
    using turn_invD(3) [OF inv True] st(2) that by (auto simp: turn_fits_def live_at_def split: if_splits)
  moreover have "task_ok (as_tasks (task_step i outcome a) ! j)" if "j < length (as_tasks a)" for j
    using st(1) turn_invD(1) [OF inv that] by (cases "j = i") auto
  ultimately show ?thesis unfolding turn_inv_def by (metis task_step_frame(1))
qed

lemma turn_inv_drop:
  assumes inv: "turn_inv c a told" and i: "i < length (as_tasks a)"
  shows "turn_inv c (a\<lparr>as_tasks := abort_task i (as_tasks a)\<rparr>) told"
proof -
  let ?a = "a\<lparr>as_tasks := abort_task i (as_tasks a)\<rparr>"
  have live: "live_at ?a j \<Longrightarrow> live_at a j \<and> j \<noteq> i" for j
    using i by (cases "j = i") (auto simp: live_at_def abort_task_def task_live_def split: if_splits)
  have "task_ok (as_tasks ?a ! j)" if "j < length (as_tasks a)" for j
    using turn_invD(1) [OF inv that] by (cases "j = i") (auto simp: abort_task_def task_ok_def drop_sender_def)
  then show ?thesis
    using live turn_invD(2,3) [OF inv] by (fastforce simp: turn_inv_def turn_fits_def)
qed

text \<open>The call in progress, if there is one.\<close>

definition in_charge :: "call_pc \<Rightarrow> bridge_state \<Rightarrow> bool" where
  "in_charge c s \<longleftrightarrow> (if is_returned c then calls_over s
     else \<exists>k < length (bs_calls s). bs_calls s ! k = c \<and> (\<forall>j < length (bs_calls s). j \<noteq> k \<longrightarrow> is_returned (bs_calls s ! j)))"

lemma calls_over_nth: "calls_over s \<longleftrightarrow> (\<forall>j < length (bs_calls s). is_returned (bs_calls s ! j))"
  by (simp add: calls_over_def all_set_conv_all_nth)

lemma in_charge_begin: "calls_over s \<Longrightarrow> \<not> is_returned c \<Longrightarrow> in_charge c (s\<lparr>bs_calls := bs_calls s @ [c]\<rparr>)"
  unfolding in_charge_def calls_over_nth by (auto simp: nth_append less_Suc_eq intro!: exI [of _ "length (bs_calls s)"])

lemma in_charge_unique: "in_charge c s \<Longrightarrow> k < length (bs_calls s) \<Longrightarrow> \<not> is_returned (bs_calls s ! k) \<Longrightarrow> bs_calls s ! k = c"
  by (auto simp: in_charge_def calls_over_nth split: if_splits)

lemma in_charge_move:
  "in_charge c s \<Longrightarrow> k < length (bs_calls s) \<Longrightarrow> \<not> is_returned (bs_calls s ! k) \<Longrightarrow>
   in_charge c' \<lparr>bs_api = a, bs_told = told, bs_calls = (bs_calls s)[k := c']\<rparr>"
  by (auto simp: in_charge_def calls_over_nth nth_list_update split: if_splits)

definition turn_ok :: "bridge_state \<Rightarrow> bool" where
  "turn_ok s \<longleftrightarrow> (\<exists>c. turn_inv c (bs_api s) (bs_told s) \<and> in_charge c s)"

lemma alive_live_at: "alive s i \<longleftrightarrow> live_at (bs_api s) i"
  by (simp add: alive_def live_at_def)

lemma turn_ok_begin:
  assumes "turn_ok s" and "calls_over s" and "c \<in> {StartCheck args, StopAbort False}"
    and "c = StartCheck args \<Longrightarrow> \<forall>i \<in> bs_told s. \<not> alive s i"
  shows "turn_ok (s\<lparr>bs_calls := bs_calls s @ [c]\<rparr>)"
proof -
  obtain d where d: "turn_inv d (bs_api s) (bs_told s)" "in_charge d s" using assms(1) by (auto simp: turn_ok_def)
  then have ret: "is_returned d" using assms(2) by (auto simp: in_charge_def calls_over_nth split: if_splits)
  have "turn_inv c (bs_api s) (bs_told s)"
    by (rule turn_inv_same [OF d(1)])
       (use assms(3,4) ret in \<open>cases d; auto simp: turn_fits_def alive_live_at split: if_splits\<close>)+
  moreover have "in_charge c (s\<lparr>bs_calls := bs_calls s @ [c]\<rparr>)"
    using in_charge_begin [OF assms(2)] assms(3) by auto
  ultimately show ?thesis by (auto simp: turn_ok_def)
qed

lemma turn_ok_step:
  assumes "bridge_step s l t" and ok: "turn_ok s"
    and "(\<exists>args. l = BeginStart args) \<Longrightarrow> calls_over s \<and> (\<forall>i \<in> bs_told s. \<not> alive s i)"
    and "l = BeginStop \<Longrightarrow> calls_over s"
  shows "turn_ok t"
proof -
  obtain d where d: "turn_inv d (bs_api s) (bs_told s)" "in_charge d s" using ok by (auto simp: turn_ok_def)
  have charge: "in_charge d (s\<lparr>bs_api := a\<rparr>)" for a using d(2) by (auto simp: in_charge_def calls_over_def)
  from assms(1) show ?thesis
  proof cases
    case (begin_start args)
    then have "calls_over s \<and> (\<forall>i \<in> bs_told s. \<not> alive s i)" using assms(3) by blast
    with turn_ok_begin [OF ok, of "StartCheck args" args] begin_start show ?thesis by simp
  next
    case begin_stop
    with turn_ok_begin [OF ok, of "StopAbort False"] assms(4) show ?thesis by auto
  next
    case (call_moves k b c a told)
    show ?thesis
    proof (cases "is_returned (bs_calls s ! k)")
      case True
      with call_moves have "t = s" by (cases "bs_calls s ! k") (auto simp: list_update_same_conv)
      with ok show ?thesis by simp
    next
      case False
      from in_charge_unique [OF d(2) call_moves(3) False] call_moves(4) d(1)
      have "turn_inv c a told" using turn_inv_move by metis
      with in_charge_move [OF d(2) call_moves(3) False] call_moves(2) show ?thesis by (auto simp: turn_ok_def)
    qed
  next
    case (task_moves i outcome)
    with turn_inv_task [OF d(1)] charge show ?thesis by (auto simp: turn_ok_def)
  next
    case (task_dropped i)
    with turn_inv_drop [OF d(1)] charge show ?thesis by (auto simp: turn_ok_def)
  qed
qed

lemma in_turn_ok: "in_turn s \<Longrightarrow> turn_ok s"
proof (induction rule: in_turn.induct)
  case turn_init
  have "turn_inv (Returned 0) (bs_api bridge_init) (bs_told bridge_init)"
    by (simp add: turn_inv_def bridge_init_def api_init_def live_at_def)
  moreover have "in_charge (Returned 0) bridge_init" by (simp add: in_charge_def calls_over_def bridge_init_def)
  ultimately show ?case unfolding turn_ok_def by blast
next
  case (turn_step s l t)
  then show ?case using turn_ok_step by blast
qed

text \<open>C25: One task at a time. As long as the application makes its calls one after the other, and starts only when
  the tasks it has stopped have ended, then whatever the order in which calls and tasks make their accesses: at most
  one task is alive; none is when a start call is about to spawn its own; from the moment a stop call has taken the
  handle, every task that is still alive has been told to end; and between the calls, a live task that has not been
  told is the one whose handle is kept, has started, and the running flag says so.\<close>

theorem calls_in_turn_one_task:
  assumes "in_turn s"
  shows "(\<forall>i j. alive s i \<longrightarrow> alive s j \<longrightarrow> i = j) \<and>
    (\<forall>args i. StartSpawn args \<in> set (bs_calls s) \<longrightarrow> \<not> alive s i) \<and>
    (\<forall>cleanup i. StopRunning cleanup \<in> set (bs_calls s) \<or> StopStatus cleanup \<in> set (bs_calls s) \<longrightarrow> alive s i \<longrightarrow> i \<in> bs_told s) \<and>
    (calls_over s \<longrightarrow> (\<forall>i. alive s i \<and> i \<notin> bs_told s \<longrightarrow>
       as_task (bs_api s) = Some i \<and> busy (at_phase (bs_tasks s ! i)) \<and> is_proxy_running (bs_api s)))"
proof -
  obtain d where inv: "turn_inv d (bs_api s) (bs_told s)" and charge: "in_charge d s"
    using in_turn_ok [OF assms] by (auto simp: turn_ok_def)
  have here: "c \<in> set (bs_calls s) \<Longrightarrow> \<not> is_returned c \<Longrightarrow> d = c" for c
    using in_charge_unique [OF charge] by (auto simp: in_set_conv_nth)
  have over: "is_returned d" if "calls_over s"
    using that charge by (auto simp: in_charge_def calls_over_nth split: if_splits)
  note fits = turn_invD(3) [OF inv, folded alive_live_at]
  have "as_task (bs_api s) = Some i \<and> busy (at_phase (bs_tasks s ! i)) \<and> as_running (bs_api s)"
    if "calls_over s" "alive s i" "i \<notin> bs_told s" for i
    using fits [OF that(2)] over [OF that(1)] that(2,3)
    by (cases d) (auto simp: turn_fits_def alive_def live_cases split: if_splits)
  moreover have "\<not> alive s i" if "StartSpawn args \<in> set (bs_calls s)" for args i
    using here [OF that] fits [of i] by (auto simp: turn_fits_def)
  moreover have "i \<in> bs_told s"
    if "StopRunning cleanup \<in> set (bs_calls s) \<or> StopStatus cleanup \<in> set (bs_calls s)" "alive s i" for cleanup i
    using that(1) here fits [OF that(2)] by (auto simp: turn_fits_def)
  ultimately show ?thesis
    using turn_invD(2) [OF inv, folded alive_live_at] unfolding is_proxy_running_def by blast
qed

text \<open>C38: An overwritten handle is lost for good. When a start call stores its handle while that of another task is
  kept, then no call and no sequence of calls, whatever the interleaving, ever tells that other task to end: it is
  never aborted, its handle is never kept again, and if it serves the port it goes on serving it as long as its own
  accept does not fail.\<close>

theorem overwritten_handle_never_stopped:
  assumes "bridge_run bridge_init before s" and "k < length (bs_calls s)" and "bs_calls s ! k = StartStore j"
    and "as_task (bs_api s) = Some i" and "bridge_step s (CallMoves k b) u" and "bridge_run u after t"
  shows "i \<noteq> j \<and> i \<notin> bs_told t \<and> as_task (bs_api t) \<noteq> Some i \<and> at_phase (bs_tasks t ! i) \<noteq> Aborted \<and>
    (at_phase (bs_tasks s ! i) = Serving \<and> (\<forall>e. TaskMoves i (Err e) \<notin> set after) \<longrightarrow> at_phase (bs_tasks t ! i) = Serving)"
proof -
  note ok = handles_ok_run [OF assms(1)]
  note kept = handles_okD(2-4) [OF ok assms(4)]
  have neq: "i \<noteq> j" using kept(3) assms(2,3) nth_mem by force
  have u: "u = s\<lparr>bs_api := (bs_api s)\<lparr>as_task := Some j\<rparr>, bs_calls := (bs_calls s)[k := StartWait j]\<rparr>"
    using assms(5) by cases (use assms(3) in auto)
  have "handle_lost i u"
    using kept neq set_update_neq [of "StartStore i" "bs_calls s" k "StartWait j"] by (auto simp: u handle_lost_def)
  from handle_lost_run [OF assms(6) this] handles_okD(8) [OF ok kept(1,2)] neq
  show ?thesis by (simp add: u handle_lost_def)
qed

subsection \<open>A running flag with nothing running\<close>

text \<open>The calls made since then: before their check, or over with success.\<close>

fun shut_out :: "call_pc \<Rightarrow> bool" where
  "shut_out (StartCheck args) = True"
| "shut_out (Returned r) = (r = 0)"
| "shut_out c = False"

definition flag_stale :: "nat \<Rightarrow> api_task list \<Rightarrow> bridge_state \<Rightarrow> bool" where
  "flag_stale m ts s \<longleftrightarrow> bs_tasks s = ts \<and> (\<forall>t \<in> set ts. \<not> task_live t) \<and> as_running (bs_api s) \<and>
     (\<forall>k < length (bs_calls s). if k < m then is_returned (bs_calls s ! k) else shut_out (bs_calls s ! k))"

lemma task_step_dead: "\<not> task_live (as_tasks a ! i) \<Longrightarrow> task_step i outcome a = a"
  by (auto simp: task_live_def task_step_def)

lemma flag_stale_step:
  assumes "bridge_step s l t" and "flag_stale m ts s" and "l \<noteq> BeginStop" and "m \<le> length (bs_calls s)"
  shows "flag_stale m ts t \<and> m \<le> length (bs_calls t)"
  using assms(1)
proof cases
  case (begin_start args)
  with assms(2,4) show ?thesis by (auto simp: flag_stale_def nth_append less_Suc_eq)
next
  case (call_moves k b c a told)
  have place: "if k < m then is_returned (bs_calls s ! k) else shut_out (bs_calls s ! k)"
    using assms(2) call_moves(3) unfolding flag_stale_def by blast
  then have "a = bs_api s \<and> (if k < m then is_returned c else shut_out c)"
    using call_moves(4) assms(2) by (cases "bs_calls s ! k") (auto simp: flag_stale_def split: if_splits)
  with assms(2,4) call_moves(2,3) show ?thesis by (auto simp: flag_stale_def nth_list_update)
next
  case (task_moves i outcome)
  have "\<not> task_live (bs_tasks s ! i)" using assms(2) task_moves(3) by (auto simp: flag_stale_def)
  with task_moves(2) task_step_dead assms(2,4) show ?thesis by simp
next
  case (task_dropped i)
  have "\<not> task_live (bs_tasks s ! i)" using assms(2) task_dropped(4) by (auto simp: flag_stale_def)
  with task_dropped(5) show ?thesis by (auto simp: at_await_def task_live_def)
qed (use assms(3) in simp)

lemma flag_stale_run:
  assumes "bridge_run s ls t" and "flag_stale m ts s" and "BeginStop \<notin> set ls" and "m \<le> length (bs_calls s)"
  shows "flag_stale m ts t"
  using assms
proof (induction rule: bridge_run.induct)
  case (go_on s l t ls u)
  have "l \<noteq> BeginStop" "BeginStop \<notin> set ls" using go_on.prems(2) by auto
  with go_on flag_stale_step [OF go_on(1)] show ?case by blast
qed

text \<open>C29: A stale running flag shuts the application out. If no call is in progress and no task is alive, but the
  running flag is set, then until somebody calls stop no start call ever spawns a task, and every one that returns,
  in any order and interleaving, reports success.\<close>

theorem stale_flag_blocks_starts:
  assumes "calls_over s" and "\<forall>i. \<not> alive s i" and "is_proxy_running (bs_api s)"
    and "bridge_run s ls t" and "BeginStop \<notin> set ls"
  shows "bs_tasks t = bs_tasks s \<and> is_proxy_running (bs_api t) \<and>
    (\<forall>k r. length (bs_calls s) \<le> k \<and> k < length (bs_calls t) \<and> bs_calls t ! k = Returned r \<longrightarrow> r = 0)"
proof -
  have "flag_stale (length (bs_calls s)) (bs_tasks s) s"
    using assms(1-3) by (auto simp: flag_stale_def calls_over_nth alive_def is_proxy_running_def in_set_conv_nth)
  from flag_stale_run [OF assms(4) this assms(5)] show ?thesis
    by (auto simp: flag_stale_def is_proxy_running_def)
qed

subsection \<open>Calls without interference\<close>

text \<open>
  A stop call that nothing interrupts, together with the drop of the task it has told, is \<open>stop_proxy\<close>; a start
  call that nothing interrupts until it waits is \<open>start_begin\<close>.
\<close>

lemma stop_proxy_alone:
  assumes "k < length (bs_calls s)" and "bs_calls s ! k = StopAbort False"
    and "bridge_run s [CallMoves k b, CallMoves k b, CallMoves k b] t"
  shows "bs_calls t ! k = Returned (fst (stop_proxy (bs_api s)))"
    and "(case as_task (bs_api s) of None \<Rightarrow> bs_api t
          | Some handle \<Rightarrow> (bs_api t)\<lparr>as_tasks := abort_task handle (bs_tasks t)\<rparr>) = snd (stop_proxy (bs_api s))"
  using assms by (auto simp: bridge_exec_run [symmetric] stop_proxy_def Let_def split: option.splits)

lemma start_begin_alone:
  assumes "k < length (bs_calls s)" and "bs_calls s ! k = StartCheck args" and "\<not> as_running (bs_api s)"
    and "bridge_run s [CallMoves k b, CallMoves k b, CallMoves k b, CallMoves k b] t"
  shows "bs_calls t ! k = StartWait (length (bs_tasks s))"
    and "bs_api t = (snd (start_begin args (bs_api s)))\<lparr>as_waiting := as_waiting (bs_api s)\<rparr>"
  using assms by (auto simp: bridge_exec_run [symmetric] start_begin_def new_task_def)

subsection \<open>Closed runs\<close>

lemmas bridge_eval = bridge_init_def api_init_def new_task_def task_step_def set_task_def abort_task_def task_live_def
  drop_sender_def at_await_def is_proxy_running_def get_proxy_status_def nth_append Let_def

text \<open>A start call that comes through: eight accesses of the call and two of the task.\<close>

definition example_start :: "bridge_label list" where
  "example_start = [BeginStart example_args, CallMoves 0 False, CallMoves 0 False, CallMoves 0 False, TaskMoves 0 (Ok ()),
     CallMoves 0 False, TaskMoves 0 (Ok ()), CallMoves 0 False, CallMoves 0 False]"

text \<open>
  Calls in turn that lose a task: the accept of the first task fails, and while the task is about to clear the flag a
  stop call runs; the next start call has its task running when the first task clears the flag, so that a third
  start call does not see that anything runs.
\<close>

definition losing_calls :: "bridge_label list" where
  "losing_calls = example_start @
     [TaskMoves 0 (Err (IoFault 1)), TaskMoves 0 (Ok ()),
      BeginStop, CallMoves 1 False, CallMoves 1 False, CallMoves 1 False,
      BeginStart example_args, CallMoves 2 False, CallMoves 2 False, CallMoves 2 False, CallMoves 2 False,
      TaskMoves 1 (Ok ()), TaskMoves 0 (Ok ()), TaskMoves 1 (Ok ()), CallMoves 2 False, CallMoves 2 False,
      BeginStart example_args, CallMoves 3 False, CallMoves 3 False, CallMoves 3 False]"

text \<open>A time-out that leaves the flag set: the first poll of the task is under way when it is told to end.\<close>

definition stale_calls :: "bridge_label list" where
  "stale_calls = [BeginStart example_args, CallMoves 0 False, CallMoves 0 False, CallMoves 0 False, CallMoves 0 False,
     CallMoves 0 True, CallMoves 0 False, CallMoves 0 False, TaskMoves 0 (Ok ()), CallMoves 0 False, CallMoves 0 False,
     TaskDropped 0]"

lemma example_start_run:
  obtains s where "bridge_run bridge_init example_start s" and "bs_calls s = [Returned 0]" and "bs_told s = {}"
    and "as_task (bs_api s) = Some 0" and "map at_phase (bs_tasks s) = [Serving]"
  unfolding bridge_exec_run [symmetric] example_start_def by (simp add: bridge_eval)

lemma in_turn_run:
  "bridge_run s ls t \<Longrightarrow> in_turn s \<Longrightarrow> BeginStop \<notin> set ls \<Longrightarrow> (\<And>args. BeginStart args \<notin> set ls) \<Longrightarrow> in_turn t"
proof (induction rule: bridge_run.induct)
  case (go_on s l t ls u)
  have l: "l \<noteq> BeginStop" "BeginStop \<notin> set ls" using go_on.prems(2) by auto
  have b: "l \<noteq> BeginStart args" "BeginStart args \<notin> set ls" for args
    using go_on.prems(3) by (metis list.set_intros(1), metis list.set_intros(2))
  have "in_turn t" using turn_step [OF go_on.prems(1) go_on.hyps(1)] l(1) b(1) by blast
  from go_on.IH [OF this l(2) b(2)] show ?case .
qed

theorem calls_in_turn_one_task_witness:
  "\<exists>s. in_turn s \<and> calls_over s \<and> alive s 0 \<and> as_task (bs_api s) = Some 0 \<and> is_proxy_running (bs_api s)"
proof -
  obtain s where s: "bridge_run bridge_init example_start s" "bs_calls s = [Returned 0]" "bs_told s = {}"
    "map at_phase (bs_tasks s) = [Serving]" by (rule example_start_run)
  obtain ls where ls: "example_start = BeginStart example_args # ls" "BeginStop \<notin> set ls" "\<And>args. BeginStart args \<notin> set ls"
    by (simp add: example_start_def)
  from s(1) obtain u where u: "bridge_step bridge_init (BeginStart example_args) u" "bridge_run u ls s"
    unfolding ls(1) by (rule bridge_run_Cons)
  have "in_turn u"
    by (rule turn_step [OF turn_init u(1)]) (simp_all add: calls_over_def bridge_init_def)
  from in_turn_run [OF u(2) this ls(2,3)] have t: "in_turn s" .
  have "calls_over s" and "alive s 0" and "0 \<notin> bs_told s"
    using s(2-4) by (auto simp: calls_over_def alive_def task_live_def)
  with calls_in_turn_one_task [OF t] t show ?thesis by blast
qed

lemma losing_calls_run:
  obtains s where "bridge_run bridge_init losing_calls s" and "bs_calls s ! 3 = StartStore 2" and "length (bs_calls s) = 4"
    and "as_task (bs_api s) = Some 1" and "at_phase (bs_tasks s ! 1) = Serving"
  unfolding bridge_exec_run [symmetric] losing_calls_def example_start_def by (simp add: bridge_eval)

text \<open>After the calls above, a stop call: it reports that the proxy is stopped, and the second task serves on.\<close>

definition stop_after :: "bridge_label list" where
  "stop_after = [BeginStop, CallMoves 4 False, CallMoves 4 False, CallMoves 4 False]"

theorem overwritten_handle_never_stopped_witness:
  "\<exists>s u t. bridge_run bridge_init losing_calls s \<and> bridge_step s (CallMoves 3 False) u \<and> bridge_run u stop_after t \<and>
     1 \<notin> bs_told t \<and> at_phase (bs_tasks t ! 1) = Serving \<and> get_proxy_status (bs_api t) = status_code Stopped \<and>
     \<not> is_proxy_running (bs_api t)"
proof -
  obtain s where s: "bridge_run bridge_init losing_calls s" "bs_calls s ! 3 = StartStore 2" "length (bs_calls s) = 4"
    "as_task (bs_api s) = Some 1" "at_phase (bs_tasks s ! 1) = Serving" by (rule losing_calls_run)
  obtain u where u: "bridge_step s (CallMoves 3 False) u" "length (bs_calls u) = 4" "as_task (bs_api u) = Some 2"
    unfolding bridge_next_step [symmetric] using s(2,3) by simp
  obtain t where t: "bridge_run u stop_after t" "get_proxy_status (bs_api t) = status_code Stopped" "\<not> is_proxy_running (bs_api t)"
    unfolding bridge_exec_run [symmetric] stop_after_def using u(2,3)
    by (simp add: bridge_eval nth_append)
  have k: "3 < length (bs_calls s)" using s(3) by simp
  have "TaskMoves 1 (Err e) \<notin> set stop_after" for e by (simp add: stop_after_def)
  with overwritten_handle_never_stopped [OF s(1) k s(2,4) u(1) t(1)] s(5) s u t show ?thesis by blast
qed

lemma stale_calls_run:
  obtains s where "bridge_run bridge_init stale_calls s" and "bs_calls s = [Returned 3]" and "is_proxy_running (bs_api s)"
    and "map at_phase (bs_tasks s) = [Aborted]"
  unfolding bridge_exec_run [symmetric] stale_calls_def by (simp add: bridge_eval)

theorem stale_flag_blocks_starts_witness:
  "\<exists>s t. bridge_run bridge_init stale_calls s \<and> bridge_run s [BeginStart example_args, CallMoves 1 False] t \<and>
     bs_calls t = [Returned 3, Returned 0] \<and> bs_tasks t = bs_tasks s \<and> map at_phase (bs_tasks t) = [Aborted]"
proof -
  obtain s where s: "bridge_run bridge_init stale_calls s" "bs_calls s = [Returned 3]" "is_proxy_running (bs_api s)"
    "map at_phase (bs_tasks s) = [Aborted]" by (rule stale_calls_run)
  obtain t where t: "bridge_run s [BeginStart example_args, CallMoves 1 False] t" "bs_calls t = [Returned 3, Returned 0]"
    unfolding bridge_exec_run [symmetric] using s(2,3) by (simp add: is_proxy_running_def)
  have "calls_over s" "\<forall>i. \<not> alive s i" using s(2,4) by (auto simp: calls_over_def alive_def task_live_def)
  from stale_flag_blocks_starts [OF this s(3) t(1)] have "bs_tasks t = bs_tasks s" by simp
  with s t show ?thesis by (intro exI [of _ s] exI [of _ t]) simp
qed

end
