(* ===== verification/Bridge.thy ===== *)
theory Bridge
  imports Mobile_Api
begin

section \<open>The bridge between Dart and Rust\<close>

text \<open>
  ghost\_flutter/rust/src/frb\_generated.rs and its counterpart lib/src/rust/frb\_generated.dart: how a call of the application
  becomes bytes, how these are dispatched and decoded, and how the answer goes back. The runtime of
  flutter\_rust\_bridge is not in the repository; what is used of it is the record \<open>bridge_lib\<close>: the byte order of the machine and the check
  \<^verbatim>\<open>SseDeserializer::end\<close>, given how much has been read and how much was sent.
\<close>

type_synonym i32 = "32 word"

record bridge_lib =
  bl_little :: bool
  bl_end :: "nat \<Rightarrow> nat \<Rightarrow> bool"

definition bridge_lib_ok :: "bridge_lib \<Rightarrow> bool" where
  "bridge_lib_ok B \<longleftrightarrow> (\<forall>position data_len. bl_end B position data_len \<longleftrightarrow> position = data_len)"

text \<open>A message as it comes over the foreign interface: a vector of which the first \<open>bm_data_len\<close> bytes are the data.\<close>

record bridge_message =
  bm_vec :: bytes
  bm_data_len :: nat

subsection \<open>Serialization\<close>

definition ne_bytes :: "bridge_lib \<Rightarrow> bytes \<Rightarrow> bytes" where
  "ne_bytes B bs = (if bl_little B then rev bs else bs)"

definition sse_encode_u8 :: "u8 \<Rightarrow> bytes \<Rightarrow> bytes" where
  "sse_encode_u8 x serializer = serializer @ [x]"

definition sse_encode_bool :: "bool \<Rightarrow> bytes \<Rightarrow> bytes" where
  "sse_encode_bool x serializer = serializer @ [if x then 1 else 0]"

definition sse_encode_i32 :: "bridge_lib \<Rightarrow> i32 \<Rightarrow> bytes \<Rightarrow> bytes" where
  "sse_encode_i32 B x serializer = serializer @ ne_bytes B (be32 x)"

definition sse_encode_Vec_u8 :: "bridge_lib \<Rightarrow> bytes \<Rightarrow> bytes \<Rightarrow> bytes" where
  "sse_encode_Vec_u8 B items serializer =
     fold sse_encode_u8 items (sse_encode_i32 B (of_nat (length items)) serializer)"

definition sse_encode_String :: "bridge_lib \<Rightarrow> bytes \<Rightarrow> bytes \<Rightarrow> bytes" where
  "sse_encode_String B s serializer = sse_encode_Vec_u8 B s serializer"

definition sse_encode_unit :: "unit \<Rightarrow> bytes \<Rightarrow> bytes" where
  "sse_encode_unit x serializer = serializer"

text \<open>Decoding works on what is left of the vector; every \<^verbatim>\<open>unwrap\<close> is a panic at its end.\<close>

definition sse_decode_u8 :: "(bytes, unit, u8) stm" where
  "sse_decode_u8 = get_u8"

definition sse_decode_bool :: "(bytes, unit, bool) stm" where
  "sse_decode_bool = bind get_u8 (\<lambda>x. ret (x \<noteq> 0))"

definition sse_decode_i32 :: "bridge_lib \<Rightarrow> (bytes, unit, i32) stm" where
  "sse_decode_i32 B = bind (copy_to_bytes 4) (\<lambda>bs. ret (of_be32 (ne_bytes B bs)))"

text \<open>A negative length is no capacity: \<^verbatim>\<open>with_capacity\<close> panics.\<close>

definition sse_decode_Vec_u8 :: "bridge_lib \<Rightarrow> (bytes, unit, bytes) stm" where
  "sse_decode_Vec_u8 B =
     bind (sse_decode_i32 B) (\<lambda>len.
     if sint len < 0 then panic else decode_many sse_decode_u8 (nat (sint len)))"

definition sse_decode_String :: "bridge_lib \<Rightarrow> (bytes, unit, bytes) stm" where
  "sse_decode_String B =
     bind (sse_decode_Vec_u8 B) (\<lambda>inner.
     case from_utf8 inner of None \<Rightarrow> panic | Some s \<Rightarrow> ret s)"

definition sse_decode_unit :: "(bytes, unit, unit) stm" where
  "sse_decode_unit = ret ()"

definition sse_end :: "bridge_lib \<Rightarrow> bridge_message \<Rightarrow> (bytes, unit, unit) stm" where
  "sse_end B m rest =
     (if bl_end B (length (bm_vec m) - length rest) (bm_data_len m) then (Ok (), rest) else (Panic, rest))"

subsection \<open>The calls\<close>

text \<open>
  What a wire function leaves for the thread pool when it has decoded its arguments: a call that reads or changes the
  statics and answers at once, or the start call, which waits (\<open>start_begin\<close> and \<open>start_end\<close> of \<open>Mobile_Api\<close>) before its
  result is encoded.
\<close>

datatype wire_task =
    Immediate "api_state \<Rightarrow> bytes \<times> api_state"
  | StartTask start_args "int \<Rightarrow> bytes"

definition wire_get_protocol_version :: "bridge_lib \<Rightarrow> bridge_message \<Rightarrow> (unit, wire_task) res" where
  "wire_get_protocol_version B m = fst (
     bind (sse_end B m) (\<lambda>_.
     ret (Immediate (\<lambda>s. (sse_encode_u8 get_protocol_version [], s)))) (bm_vec m))"

definition wire_get_proxy_status :: "bridge_lib \<Rightarrow> bridge_message \<Rightarrow> (unit, wire_task) res" where
  "wire_get_proxy_status B m = fst (
     bind (sse_end B m) (\<lambda>_.
     ret (Immediate (\<lambda>s. (sse_encode_i32 B (word_of_int (get_proxy_status s)) [], s)))) (bm_vec m))"

definition wire_is_proxy_running :: "bridge_lib \<Rightarrow> bridge_message \<Rightarrow> (unit, wire_task) res" where
  "wire_is_proxy_running B m = fst (
     bind (sse_end B m) (\<lambda>_.
     ret (Immediate (\<lambda>s. (sse_encode_bool (is_proxy_running s) [], s)))) (bm_vec m))"

definition wire_start_reliz_proxy :: "bridge_lib \<Rightarrow> bridge_message \<Rightarrow> (unit, wire_task) res" where
  "wire_start_reliz_proxy B m = fst (
     bind (sse_decode_String B) (\<lambda>server_addr.
     bind (sse_decode_String B) (\<lambda>user_id.
     bind sse_decode_bool (\<lambda>enable_padding.
     bind sse_decode_bool (\<lambda>enable_fragmentation.
     bind (sse_decode_String B) (\<lambda>mask_domain.
     bind (sse_end B m) (\<lambda>_.
     ret (StartTask (server_addr, user_id, enable_padding, enable_fragmentation, mask_domain)
            (\<lambda>code. sse_encode_i32 B (word_of_int code) [])))))))) (bm_vec m))"

definition wire_stop_proxy :: "bridge_lib \<Rightarrow> bridge_message \<Rightarrow> (unit, wire_task) res" where
  "wire_stop_proxy B m = fst (
     bind (sse_end B m) (\<lambda>_.
     ret (Immediate (\<lambda>s. case stop_proxy s of (code, t) \<Rightarrow> (sse_encode_i32 B (word_of_int code) [], t)))) (bm_vec m))"

definition wire_test_connection :: "bridge_lib \<Rightarrow> bridge_message \<Rightarrow> (unit, wire_task) res" where
  "wire_test_connection B m = fst (
     bind (sse_decode_String B) (\<lambda>server_addr.
     bind (sse_end B m) (\<lambda>_.
     ret (Immediate (\<lambda>s. (sse_encode_i32 B (word_of_int (test_connection server_addr)) [], s))))) (bm_vec m))"

definition pde_ffi_dispatcher_primary :: "bridge_lib \<Rightarrow> int \<Rightarrow> bridge_message \<Rightarrow> (unit, wire_task) res" where
  "pde_ffi_dispatcher_primary B func_id m =
     (if func_id = 1 then wire_get_protocol_version B m
      else if func_id = 2 then wire_get_proxy_status B m
      else if func_id = 3 then wire_is_proxy_running B m
      else if func_id = 4 then wire_start_reliz_proxy B m
      else if func_id = 5 then wire_stop_proxy B m
      else if func_id = 6 then wire_test_connection B m
      else Panic)"

definition pde_ffi_dispatcher_sync :: "int \<Rightarrow> bridge_message \<Rightarrow> (unit, bytes) res" where
  "pde_ffi_dispatcher_sync func_id m = Panic"

subsection \<open>The Dart side\<close>

text \<open>The calls of the application, with its strings as the UTF-8 text they are sent as.\<close>

datatype dart_call =
    GetProtocolVersion
  | GetProxyStatus
  | IsProxyRunning
  | StartRelizProxy bytes bytes bool bool bytes
  | StopProxy
  | TestConnection bytes

definition dart_encode_String :: "bridge_lib \<Rightarrow> bytes \<Rightarrow> bytes" where
  "dart_encode_String B self = ne_bytes B (be32 (of_nat (length self))) @ self"

definition dart_encode_bool :: "bool \<Rightarrow> bytes" where
  "dart_encode_bool self = [if self then 1 else 0]"

fun dart_func_id :: "dart_call \<Rightarrow> int" where
  "dart_func_id GetProtocolVersion = 1"
| "dart_func_id GetProxyStatus = 2"
| "dart_func_id IsProxyRunning = 3"
| "dart_func_id (StartRelizProxy _ _ _ _ _) = 4"
| "dart_func_id StopProxy = 5"
| "dart_func_id (TestConnection _) = 6"

fun dart_request :: "bridge_lib \<Rightarrow> dart_call \<Rightarrow> bytes" where
  "dart_request B (StartRelizProxy serverAddr userId enablePadding enableFragmentation maskDomain) =
     dart_encode_String B serverAddr @ dart_encode_String B userId @ dart_encode_bool enablePadding @
     dart_encode_bool enableFragmentation @ dart_encode_String B maskDomain"
| "dart_request B (TestConnection serverAddr) = dart_encode_String B serverAddr"
| "dart_request B _ = []"

datatype dart_value = DartInt int | DartBool bool

fun dart_decode :: "bridge_lib \<Rightarrow> dart_call \<Rightarrow> bytes \<Rightarrow> dart_value" where
  "dart_decode B GetProtocolVersion reply = DartInt (int (unat (reply ! 0)))"
| "dart_decode B IsProxyRunning reply = DartBool (reply ! 0 \<noteq> 0)"
| "dart_decode B _ reply = DartInt (sint (of_be32 (ne_bytes B (take 4 reply))))"

subsection \<open>The codes\<close>

text \<open>Both sides write the same bytes, and what is decoded is exactly what was written.\<close>

lemma ne_bytes_simps [simp]:
  "length (ne_bytes B bs) = length bs" "ne_bytes B (ne_bytes B bs) = bs"
  by (simp_all add: ne_bytes_def)

lemma ne_bytes_eq_iff: "ne_bytes B xs = ys \<longleftrightarrow> xs = ne_bytes B ys"
  by auto

lemma sse_decode_i32_OkD: "sse_decode_i32 B b = (Ok n, c) \<longleftrightarrow> b = ne_bytes B (be32 n) @ c"
proof -
  have "sse_decode_i32 B b = (Ok n, c) \<longleftrightarrow> (\<exists>bs. b = bs @ c \<and> length bs = 4 \<and> of_be32 (ne_bytes B bs) = n)"
    by (auto simp: sse_decode_i32_def bind_eq_Ok copy_OkD ret_def)
  also have "\<dots> \<longleftrightarrow> b = ne_bytes B (be32 n) @ c"
    by (auto intro: exI [of _ "ne_bytes B (be32 n)"])
  finally show ?thesis .
qed

lemma decode_bytes_OkD: "decode_many sse_decode_u8 n b = (Ok xs, c) \<longleftrightarrow> b = xs @ c \<and> length xs = n"
  by (induction n arbitrary: b xs) (auto simp: bind_eq_Ok sse_decode_u8_def get_u8_OkD ret_def length_Suc_conv)

definition text_ok :: "bytes \<Rightarrow> bool" where
  "text_ok s \<longleftrightarrow> utf8_valid s \<and> length s < 2 ^ 31"

lemma sint_word_of_int_31: "- (2 ^ 31) \<le> x \<Longrightarrow> x < 2 ^ 31 \<Longrightarrow> sint (word_of_int x :: i32) = x"
  by (simp add: signed_of_int signed_take_bit_int_eq_self)

lemma sint_of_nat_31: "n < 2 ^ 31 \<Longrightarrow> sint (of_nat n :: i32) = int n"
  using sint_word_of_int_31 [of "int n"] by simp

lemma length_prefix_iff: "sint n = int k \<longleftrightarrow> n = of_nat k \<and> k < 2 ^ 31" for n :: i32
proof
  assume n: "sint n = int k"
  have "int k < 2 ^ 31" using sint_lt [of n] n by simp
  then have "sint n = sint (of_nat k :: i32)" "k < 2 ^ 31" using n by (simp_all add: sint_of_nat_31)
  then show "n = of_nat k \<and> k < 2 ^ 31" by (auto intro: signed_word_eqI)
qed (simp add: sint_of_nat_31)

lemma sse_decode_Vec_OkD:
  "sse_decode_Vec_u8 B b = (Ok xs, c) \<longleftrightarrow> b = dart_encode_String B xs @ c \<and> length xs < 2 ^ 31"
proof -
  have "sse_decode_Vec_u8 B b = (Ok xs, c) \<longleftrightarrow>
      (\<exists>n. b = ne_bytes B (be32 n) @ xs @ c \<and> 0 \<le> sint n \<and> length xs = nat (sint n))"
    by (auto simp: sse_decode_Vec_u8_def bind_eq_Ok sse_decode_i32_OkD decode_bytes_OkD panic_def) (metis not_less)
  also have "\<dots> \<longleftrightarrow> (\<exists>n. b = ne_bytes B (be32 n) @ xs @ c \<and> sint n = int (length xs))"
    by (intro ex_cong1) auto
  finally show ?thesis by (auto simp: length_prefix_iff dart_encode_String_def)
qed

lemma sse_decode_String_OkD:
  "sse_decode_String B b = (Ok s, c) \<longleftrightarrow> b = dart_encode_String B s @ c \<and> text_ok s"
  by (auto simp: sse_decode_String_def bind_eq_Ok sse_decode_Vec_OkD from_utf8_def ret_def panic_def text_ok_def
      split: if_splits)

lemma sse_decode_bool_OkD: "sse_decode_bool b = (Ok v, c) \<longleftrightarrow> (\<exists>x. b = x # c \<and> v = (x \<noteq> 0))"
  by (auto simp: sse_decode_bool_def bind_eq_Ok get_u8_OkD ret_def)

lemma fold_sse_encode_u8: "fold sse_encode_u8 xs ser = ser @ xs"
  by (induction xs arbitrary: ser) (simp_all add: sse_encode_u8_def)

lemma sse_encode_String_bytes: "sse_encode_String B s ser = ser @ dart_encode_String B s"
  by (simp add: sse_encode_String_def sse_encode_Vec_u8_def fold_sse_encode_u8 sse_encode_i32_def dart_encode_String_def)

interpretation string_code: stream_code "dart_encode_String B" "sse_decode_String B" text_ok for B
  by unfold_locales (simp add: sse_decode_String_OkD)

interpretation i32_code: stream_code "\<lambda>x. sse_encode_i32 B x []" "sse_decode_i32 B" "\<lambda>_. True" for B
  by unfold_locales (simp add: sse_decode_i32_OkD sse_encode_i32_def)

interpretation bool_code: stream_code dart_encode_bool sse_decode_bool "\<lambda>_. True"
  by unfold_locales (simp add: sse_decode_bool_OkD dart_encode_bool_def)

subsection \<open>What a call becomes\<close>

text \<open>The specification of the dispatcher: the task that a call stands for.\<close>

fun call_task :: "bridge_lib \<Rightarrow> dart_call \<Rightarrow> wire_task" where
  "call_task B GetProtocolVersion = Immediate (\<lambda>s. ([get_protocol_version], s))"
| "call_task B GetProxyStatus = Immediate (\<lambda>s. (sse_encode_i32 B (word_of_int (get_proxy_status s)) [], s))"
| "call_task B IsProxyRunning = Immediate (\<lambda>s. (dart_encode_bool (is_proxy_running s), s))"
| "call_task B (StartRelizProxy a u p f d) =
     StartTask (a, u, p, f, d) (\<lambda>code. sse_encode_i32 B (word_of_int code) [])"
| "call_task B StopProxy = Immediate (\<lambda>s. (sse_encode_i32 B (word_of_int (fst (stop_proxy s))) [], snd (stop_proxy s)))"
| "call_task B (TestConnection a) = Immediate (\<lambda>s. (sse_encode_i32 B (word_of_int (test_connection a)) [], s))"

text \<open>The data that stand for a call: the request that the Dart side writes, or one with another non-zero byte for a flag.\<close>

fun call_texts_ok :: "dart_call \<Rightarrow> bool" where
  "call_texts_ok (StartRelizProxy a u p f d) \<longleftrightarrow> text_ok a \<and> text_ok u \<and> text_ok d"
| "call_texts_ok (TestConnection a) \<longleftrightarrow> text_ok a"
| "call_texts_ok _ \<longleftrightarrow> True"

fun call_data :: "bridge_lib \<Rightarrow> dart_call \<Rightarrow> bytes \<Rightarrow> bool" where
  "call_data B (StartRelizProxy a u p f d) data \<longleftrightarrow>
     (\<exists>x y. data = dart_encode_String B a @ dart_encode_String B u @ [x, y] @ dart_encode_String B d \<and>
        p = (x \<noteq> 0) \<and> f = (y \<noteq> 0))"
| "call_data B c data \<longleftrightarrow> data = dart_request B c"

lemma call_data_request: "call_data B c (dart_request B c)"
  by (cases c) (simp_all add: dart_encode_bool_def)

definition message_of :: "bytes \<Rightarrow> bytes \<Rightarrow> bridge_message" where
  "message_of data spare = \<lparr>bm_vec = data @ spare, bm_data_len = length data\<rparr>"

text \<open>A wire function accepts a message when its arguments are read from the front and end where the data ends.\<close>

lemma sse_end_OkD:
  assumes "bridge_lib_ok B" and "bm_vec m = data @ rest"
  shows "sse_end B m rest = (Ok v, c) \<longleftrightarrow> c = rest \<and> m = message_of data rest"
  using assms by (auto simp: sse_end_def bridge_lib_ok_def message_of_def)

lemma ex_dart_call: "(\<exists>c. P c) \<longleftrightarrow> P GetProtocolVersion \<or> P GetProxyStatus \<or> P IsProxyRunning \<or>
    (\<exists>a u p f d. P (StartRelizProxy a u p f d)) \<or> P StopProxy \<or> (\<exists>a. P (TestConnection a))"
  by (metis dart_call.exhaust)

lemma wire_reads:
  assumes "bridge_lib_ok B" and "\<And>b v c. dec b = (Ok v, c) \<longleftrightarrow> (\<exists>data. b = data @ c \<and> D v data)"
  shows "fst (bind dec (\<lambda>v. bind (sse_end B m) (\<lambda>_. ret (t v))) (bm_vec m)) = Ok task \<longleftrightarrow>
    (\<exists>v data spare. m = message_of data spare \<and> D v data \<and> task = t v)"
proof -
  have "fst (bind dec (\<lambda>v. bind (sse_end B m) (\<lambda>_. ret (t v))) (bm_vec m)) = Ok task \<longleftrightarrow>
      (\<exists>c. bind dec (\<lambda>v. bind (sse_end B m) (\<lambda>_. ret (t v))) (bm_vec m) = (Ok task, c))"
    by (cases "bind dec (\<lambda>v. bind (sse_end B m) (\<lambda>_. ret (t v))) (bm_vec m)") auto
  also have "\<dots> \<longleftrightarrow> (\<exists>v data c c'. bm_vec m = data @ c \<and> D v data \<and> sse_end B m c = (Ok (), c') \<and> task = t v)"
    by (auto simp: bind_eq_Ok assms(2) ret_def)
  also have "\<dots> \<longleftrightarrow> (\<exists>v data c. m = message_of data c \<and> D v data \<and> task = t v)" (is "?a \<longleftrightarrow> ?b")
  proof
    assume ?a
    then show ?b using sse_end_OkD [OF assms(1)] by blast
  next
    assume ?b
    then obtain v data c where m: "m = message_of data c" "D v data" "task = t v" by blast
    then have "bm_vec m = data @ c" by (simp add: message_of_def)
    with m sse_end_OkD [OF assms(1) this] show ?a by blast
  qed
  finally show ?thesis .
qed

lemma wire_no_arguments:
  assumes "bridge_lib_ok B"
  shows "fst (bind (sse_end B m) (\<lambda>_. ret t) (bm_vec m)) = Ok task \<longleftrightarrow> (\<exists>spare. m = message_of [] spare \<and> task = t)"
  using wire_reads [OF assms, of "ret ()" "\<lambda>_ data. data = []" m "\<lambda>_. t" task] by (simp add: ret_def)

text \<open>The five arguments of the start call, read in a row.\<close>

definition start_arguments :: "bridge_lib \<Rightarrow> (bytes, unit, start_args) stm" where
  "start_arguments B =
     bind (sse_decode_String B) (\<lambda>a. bind (sse_decode_String B) (\<lambda>u. bind sse_decode_bool (\<lambda>p.
     bind sse_decode_bool (\<lambda>f. bind (sse_decode_String B) (\<lambda>d. ret (a, u, p, f, d))))))"

fun start_data :: "bridge_lib \<Rightarrow> start_args \<Rightarrow> bytes \<Rightarrow> bool" where
  "start_data B (a, u, p, f, d) data \<longleftrightarrow>
     text_ok a \<and> text_ok u \<and> text_ok d \<and> call_data B (StartRelizProxy a u p f d) data"

lemma start_arguments_OkD:
  "start_arguments B b = (Ok v, c) \<longleftrightarrow> (\<exists>data. b = data @ c \<and> start_data B v data)"
proof -
  obtain a u p f d where v: "v = (a, u, p, f, d)" by (cases v)
  have "start_arguments B b = (Ok v, c) \<longleftrightarrow> (\<exists>b1 b2 b3 b4. sse_decode_String B b = (Ok a, b1) \<and>
      sse_decode_String B b1 = (Ok u, b2) \<and> sse_decode_bool b2 = (Ok p, b3) \<and> sse_decode_bool b3 = (Ok f, b4) \<and>
      sse_decode_String B b4 = (Ok d, c))"
    by (auto simp: start_arguments_def bind_eq_Ok ret_def v)
  also have "\<dots> \<longleftrightarrow> (\<exists>data. b = data @ c \<and> start_data B v data)"
    by (simp add: sse_decode_String_OkD sse_decode_bool_OkD v) (auto; metis append.assoc append_Cons)
  finally show ?thesis .
qed

lemma wire_start_reads: "wire_start_reliz_proxy B m = fst (bind (start_arguments B) (\<lambda>v.
    bind (sse_end B m) (\<lambda>_. ret (StartTask v (\<lambda>code. sse_encode_i32 B (word_of_int code) [])))) (bm_vec m))"
  by (simp add: wire_start_reliz_proxy_def start_arguments_def bind_assoc)

lemmas wire_calls = wire_get_protocol_version_def wire_get_proxy_status_def wire_is_proxy_running_def
  wire_stop_proxy_def sse_encode_u8_def sse_encode_bool_def dart_encode_bool_def case_prod_beta

text \<open>The dispatcher returns a task for the data of a call and only for these.\<close>

lemma dispatch_Ok:
  assumes "bridge_lib_ok B"
  shows "pde_ffi_dispatcher_primary B func_id m = Ok task \<longleftrightarrow>
    (\<exists>c data spare. func_id = dart_func_id c \<and> call_texts_ok c \<and> call_data B c data \<and> m = message_of data spare \<and>
       task = call_task B c)" (is "?l \<longleftrightarrow> (\<exists>c data spare. ?r c data spare)")
proof -
  note none = wire_no_arguments [OF assms]
  have start: "wire_start_reliz_proxy B m = Ok task \<longleftrightarrow> (\<exists>v data spare. m = message_of data spare \<and> start_data B v data \<and>
      task = StartTask v (\<lambda>code. sse_encode_i32 B (word_of_int code) []))"
    unfolding wire_start_reads by (rule wire_reads [OF assms start_arguments_OkD])
  have test: "wire_test_connection B m = Ok task \<longleftrightarrow> (\<exists>a data spare. m = message_of data spare \<and>
      (data = dart_encode_String B a \<and> text_ok a) \<and> task = call_task B (TestConnection a))"
    unfolding wire_test_connection_def call_task.simps
    by (rule wire_reads [OF assms]) (auto simp: sse_decode_String_OkD)
  consider "func_id = 1" | "func_id = 2" | "func_id = 3" | "func_id = 4" | "func_id = 5" | "func_id = 6"
    | "func_id \<notin> {1, 2, 3, 4, 5, 6}" by blast
  then show ?thesis
  proof cases
    case 7
    have "dart_func_id c \<in> {1, 2, 3, 4, 5, 6}" for c by (cases c) simp_all
    with 7 have "func_id \<noteq> dart_func_id c" for c by metis
    with 7 show ?thesis by (simp add: pde_ffi_dispatcher_primary_def)
  next
    case 4
    then show ?thesis by (simp add: pde_ffi_dispatcher_primary_def ex_dart_call start) blast
  next
    case 6
    then show ?thesis by (simp add: pde_ffi_dispatcher_primary_def ex_dart_call test) blast
  qed (simp_all add: pde_ffi_dispatcher_primary_def ex_dart_call none start test wire_calls)
qed

text \<open>No part of the bridge returns an error: what it does not accept is a panic.\<close>

definition never_err :: "('s, 'e, 'a) stm \<Rightarrow> bool" where
  "never_err m \<longleftrightarrow> (\<forall>s e. fst (m s) \<noteq> Err e)"

lemma never_err_intros:
  "never_err (ret x)" "never_err panic" "never_err get_u8" "never_err (copy_to_bytes n)" "never_err (sse_end B m)"
  by (auto simp: never_err_def ret_def panic_def get_u8_def copy_to_bytes_def sse_end_def split: list.splits)

lemma never_err_bind: "never_err m \<Longrightarrow> (\<And>x. never_err (f x)) \<Longrightarrow> never_err (bind m f)"
  unfolding never_err_def bind_def by (auto split: prod.splits res.splits) (metis fst_conv)+

lemma never_err_decode:
  "never_err sse_decode_u8" "never_err sse_decode_bool" "never_err (decode_many sse_decode_u8 n)"
  "never_err (sse_decode_String B)"
proof -
  show u: "never_err sse_decode_u8" by (simp add: sse_decode_u8_def never_err_intros)
  show m: "never_err (decode_many sse_decode_u8 n)" for n
    by (induction n) (auto simp only: decode_many.simps intro!: never_err_intros never_err_bind u)
  show "never_err sse_decode_bool" by (simp add: sse_decode_bool_def never_err_intros never_err_bind)
  show "never_err (sse_decode_String B)"
    by (auto simp: sse_decode_String_def sse_decode_Vec_u8_def sse_decode_i32_def intro!: never_err_bind never_err_intros m
        split: option.split)
qed

lemma never_err_run: "never_err f \<Longrightarrow> fst (f s) = r \<Longrightarrow> r \<noteq> Err e"
  by (auto simp: never_err_def)

lemma dispatch_no_err: "pde_ffi_dispatcher_primary B func_id m \<noteq> Err e"
proof -
  note nv = never_err_bind never_err_intros never_err_decode
  have "wire_get_protocol_version B m \<noteq> Err e" "wire_get_proxy_status B m \<noteq> Err e" "wire_is_proxy_running B m \<noteq> Err e"
    "wire_stop_proxy B m \<noteq> Err e" "wire_test_connection B m \<noteq> Err e" "wire_start_reliz_proxy B m \<noteq> Err e"
    unfolding wire_get_protocol_version_def wire_get_proxy_status_def wire_is_proxy_running_def
      wire_start_reliz_proxy_def wire_stop_proxy_def wire_test_connection_def
    by (rule never_err_run [OF _ refl]; (intro nv)?; simp add: nv)+
  then show ?thesis by (simp add: pde_ffi_dispatcher_primary_def)
qed

subsection \<open>The bridge is faithful\<close>

text \<open>The status is one of the four codes in every run, overlapping calls included.\<close>

definition codes_ok :: "api_state \<Rightarrow> bool" where
  "codes_ok s \<longleftrightarrow> as_status s \<in> {0, 1, 2, 3}"

lemma codes_ok_step:
  assumes "api_step s l t" and "codes_ok s"
  shows "codes_ok t"
  using assms
proof cases
  case (task_runs i outcome)
  with assms(2) show ?thesis
    by (cases "at_phase (as_tasks s ! i)") (auto simp: codes_ok_def task_step_def set_task_def Let_def split: res.splits)
qed (auto simp: codes_ok_def start_begin_def start_end_def stop_proxy_def Let_def split: if_splits option.splits)

lemma codes_ok_run: "api_run s ls t \<Longrightarrow> codes_ok s \<Longrightarrow> codes_ok t"
  by (induction rule: api_run.induct) (auto intro: codes_ok_step)

text \<open>What a call does and answers, as \<open>Mobile_Api\<close> has it.\<close>

fun api_answer :: "dart_call \<Rightarrow> api_state \<Rightarrow> (dart_value \<times> api_state) option" where
  "api_answer GetProtocolVersion s = Some (DartInt (int (unat get_protocol_version)), s)"
| "api_answer GetProxyStatus s = Some (DartInt (get_proxy_status s), s)"
| "api_answer IsProxyRunning s = Some (DartBool (is_proxy_running s), s)"
| "api_answer StopProxy s = Some (DartInt (fst (stop_proxy s)), snd (stop_proxy s))"
| "api_answer (TestConnection a) s = Some (DartInt (test_connection a), s)"
| "api_answer (StartRelizProxy _ _ _ _ _) s = None"

lemma decode_i32_reply:
  "- (2 ^ 31) \<le> x \<Longrightarrow> x < 2 ^ 31 \<Longrightarrow> sint (of_be32 (ne_bytes B (take 4 (sse_encode_i32 B (word_of_int x) [])))) = x"
  by (simp add: sse_encode_i32_def sint_word_of_int_31)

text \<open>C22: A call of the application arrives as that call. For every call with texts in the bounds of the code, in every reachable
  state of the statics, the request that the Dart side writes makes the dispatcher run the function of that name with
  the same arguments in the same order, and what Dart reads from the answer is the value the function returned; the start call
  becomes a start task with exactly these five arguments, and its result code is read back unchanged.\<close>

theorem bridge_serves_calls:
  assumes "bridge_lib_ok B" and "call_texts_ok c" and "api_run api_init ls s"
  shows "\<exists>task. pde_ffi_dispatcher_primary B (dart_func_id c) (message_of (dart_request B c) spare) = Ok task \<and>
    (case api_answer c s of
       Some (v, t) \<Rightarrow> \<exists>f. task = Immediate f \<and> dart_decode B c (fst (f s)) = v \<and> snd (f s) = t
     | None \<Rightarrow> \<exists>a u p f d reply. c = StartRelizProxy a u p f d \<and> task = StartTask (a, u, p, f, d) reply \<and>
         (\<forall>code. - (2 ^ 31) \<le> code \<and> code < 2 ^ 31 \<longrightarrow> dart_decode B c (reply code) = DartInt code))"
proof -
  have "codes_ok api_init" by (simp add: codes_ok_def api_init_def)
  with assms(3) have "codes_ok s" by (rule codes_ok_run)
  then have st: "- (2 ^ 31) \<le> get_proxy_status s \<and> get_proxy_status s < 2 ^ 31"
    by (auto simp: codes_ok_def get_proxy_status_def)
  have z: "fst (stop_proxy s) = 0" by (simp add: stop_proxy_def Let_def)
  have "pde_ffi_dispatcher_primary B (dart_func_id c) (message_of (dart_request B c) spare) = Ok (call_task B c)"
    using dispatch_Ok [OF assms(1)] assms(2) call_data_request by blast
  then show ?thesis
    using st z decode_i32_reply [of 0 B] by (cases c) (simp_all add: decode_i32_reply dart_encode_bool_def test_connection_def)
qed

definition example_bridge :: bridge_lib where
  "example_bridge = \<lparr>bl_little = True, bl_end = (\<lambda>position data_len. position = data_len)\<rparr>"

lemma example_bridge_ok: "bridge_lib_ok example_bridge"
  by (simp add: bridge_lib_ok_def example_bridge_def)

theorem bridge_serves_calls_witness:
  "\<exists>reply. pde_ffi_dispatcher_primary example_bridge 4
      (message_of (dart_request example_bridge (StartRelizProxy [97] [98, 99] True False [])) [0, 0]) =
        Ok (StartTask ([97], [98, 99], True, False, []) reply) \<and>
    dart_decode example_bridge (StartRelizProxy [97] [98, 99] True False []) (reply 3) = DartInt 3"
proof -
  have "call_texts_ok (StartRelizProxy [97] [98, 99] True False [])" by (simp add: text_ok_def)
  from bridge_serves_calls [OF example_bridge_ok this run_here, of "[0, 0]"] show ?thesis by auto
qed

text \<open>C23: Nothing else is accepted. The dispatcher runs a function exactly if the number is one of the six, the data are from the first to
  the last byte the encoding of its arguments (the texts in UTF-8 and below 2 GiB, for a flag any byte, non-zero for true), and
  the task is the one of that call; for any other number or data, with a byte missing, left over, or a length that is negative or
  too large, it panics, and it never returns an error.\<close>

theorem bridge_accepts_iff:
  assumes "bridge_lib_ok B"
  shows "(pde_ffi_dispatcher_primary B func_id m = Ok task \<longleftrightarrow>
      (\<exists>c data spare. func_id = dart_func_id c \<and> call_texts_ok c \<and> call_data B c data \<and> m = message_of data spare \<and>
         task = call_task B c)) \<and>
    (pde_ffi_dispatcher_primary B func_id m = Panic \<longleftrightarrow>
      \<not> (\<exists>c data spare. func_id = dart_func_id c \<and> call_texts_ok c \<and> call_data B c data \<and> m = message_of data spare))"
proof -
  have "pde_ffi_dispatcher_primary B func_id m = Panic \<longleftrightarrow> (\<forall>task. pde_ffi_dispatcher_primary B func_id m \<noteq> Ok task)"
    using dispatch_no_err [of B func_id m] by (cases "pde_ffi_dispatcher_primary B func_id m") auto
  then show ?thesis unfolding dispatch_Ok [OF assms] by blast
qed

theorem bridge_accepts_iff_witness:
  "pde_ffi_dispatcher_primary example_bridge 6 (message_of [1, 0, 0, 0, 97] [5]) =
     Ok (call_task example_bridge (TestConnection [97])) \<and>
   pde_ffi_dispatcher_primary example_bridge 2 (message_of [1] []) = Panic"
proof
  have l: "dart_encode_String example_bridge [97] = [1, 0, 0, 0, 97]"
    by (simp add: dart_encode_String_def ne_bytes_def example_bridge_def) code_simp
  have "call_texts_ok (TestConnection [97])" by (simp add: text_ok_def)
  then show "pde_ffi_dispatcher_primary example_bridge 6 (message_of [1, 0, 0, 0, 97] [5]) =
      Ok (call_task example_bridge (TestConnection [97]))"
    unfolding bridge_accepts_iff [OF example_bridge_ok, THEN conjunct1]
    by (intro exI [of _ "TestConnection [97]"] exI [of _ "[1, 0, 0, 0, 97]"] exI [of _ "[5]"]) (simp add: l)
  have "\<not> (2 = dart_func_id c \<and> call_data example_bridge c data \<and> message_of [1] [] = message_of data spare)" for c data spare
    by (cases c) (auto simp: message_of_def)
  then show "pde_ffi_dispatcher_primary example_bridge 2 (message_of [1] []) = Panic"
    unfolding bridge_accepts_iff [OF example_bridge_ok, THEN conjunct2] by blast
qed

end
