(* ===== verification/Mobile_Whole.thy ===== *)
theory Mobile_Whole
  imports Bridge Tls_Pins Mobile_Steps
begin

section \<open>The mobile application and its tunnels\<close>

text \<open>
  From a start call to the tunnels its task opens: the arguments of the call become the configuration of the task
  (\<open>api_client_config\<close>), which \<open>run_with_ready\<close> hands to every connection, and with which \<open>handle_socks5_client\<close> opens the
  tunnel. A call has no argument for the key; the configuration always has the same one, 64 zeros.
\<close>

lemma zero_key: "lit ''0000000000000000000000000000000000000000000000000000000000000000'' = hex_encode (replicate 32 0)"
  by code_simp

text \<open>Every task has the configuration of a start call, and so will the ones that calls in progress are about to spawn.\<close>

fun pc_args :: "call_pc \<Rightarrow> start_args set" where
  "pc_args (StartCheck args) = {args}"
| "pc_args (StartStatus args) = {args}"
| "pc_args (StartSpawn args) = {args}"
| "pc_args c = {}"

definition configs_from :: "start_args set \<Rightarrow> bridge_state \<Rightarrow> bool" where
  "configs_from A s \<longleftrightarrow> set (map at_config (bs_tasks s)) \<subseteq> api_client_config ` A \<and> (\<forall>c \<in> set (bs_calls s). pc_args c \<subseteq> A)"

lemma map_config_update [simp]: "at_config t = at_config (ts ! i) \<Longrightarrow> map at_config (ts[i := t]) = map at_config ts"
  by (metis list_update_id map_update)

lemma map_config_abort: "map at_config (abort_task i ts) = map at_config ts"
  by (simp add: abort_task_def)

lemma map_config_task_step: "map at_config (as_tasks (task_step i outcome a)) = map at_config (as_tasks a)"
  by (cases "at_phase (as_tasks a ! i)") (simp_all add: task_step_def Let_def set_task_def split: res.split)

lemma new_task_config: "at_config (new_task args) = api_client_config args"
  by (simp add: new_task_def)

lemma call_move_args: "call_move b c (a, told) = (c', a', told') \<Longrightarrow> pc_args c' \<subseteq> pc_args c"
  by (cases c) (auto split: if_splits)

lemma configs_step:
  assumes "bridge_step s l t" and ok: "configs_from A s" and "\<And>args. l = BeginStart args \<Longrightarrow> args \<in> A"
  shows "configs_from A t"
  using assms(1)
proof cases
  case (begin_start args)
  with ok assms(3) [of args] show ?thesis by (simp add: configs_from_def)
next
  case begin_stop
  with ok show ?thesis by (simp add: configs_from_def)
next
  case (call_moves k b c a told)
  have mine: "pc_args (bs_calls s ! k) \<subseteq> A" using ok call_moves(3) by (simp add: configs_from_def)
  then have "pc_args d \<subseteq> A" if "d \<in> set ((bs_calls s)[k := c])" for d
    using call_move_args [OF call_moves(4)] ok set_update_neq [OF that] by (cases "d = c") (auto simp: configs_from_def)
  moreover have "set (map at_config (as_tasks a)) \<subseteq> api_client_config ` A"
    using call_move_tasks [OF call_moves(4)]
  proof (elim disjE exE conjE)
    fix args assume "bs_calls s ! k = StartSpawn args" "as_tasks a = bs_tasks s @ [new_task args]"
    with ok mine show ?thesis by (simp add: configs_from_def new_task_config del: api_client_config.simps)
  qed (use ok in \<open>simp add: configs_from_def\<close>)
  ultimately show ?thesis using call_moves(2) by (simp add: configs_from_def)
next
  case (task_moves i outcome)
  with ok show ?thesis by (simp add: configs_from_def map_config_task_step del: set_map)
next
  case (task_dropped i)
  with ok show ?thesis by (simp add: configs_from_def map_config_abort del: set_map)
qed

lemma configs_run:
  assumes "bridge_run bridge_init ls s"
  shows "configs_from {args. BeginStart args \<in> set ls} s"
  by (rule bridge_run_invariant [OF assms])
    (simp add: configs_from_def bridge_init_def api_init_def, rule configs_step, auto)

text \<open>
  A TLS handshake succeeds only if the client's verifier accepts the certificate that the other end of the connection
  shows (\<open>shown\<close>); this is what rustls documents.
\<close>

definition tls_connect_ok :: "'r client_env \<Rightarrow> (conn \<Rightarrow> bytes) \<Rightarrow> bool" where
  "tls_connect_ok env shown \<longleftrightarrow> (\<forall>tls domain stream t. ce_tls_connect env tls domain stream = Ok t \<longrightarrow>
     tc_verify_server_cert tls (shown stream) = Ok ())"

lemma zero_key_tunnel:
  assumes "tls_connect_ok env shown" and "cc_reality_auth_key config = hex_encode (replicate 32 0)"
    and "cc_mask_domain config \<notin> {[], lit ''none''}" and "open_tunnel env config = Ok (uid, tunnel)"
  shows "\<exists>stream. ce_connect env (cc_server_addr config) = Ok stream \<and> ce_sha256 env (shown stream) = replicate 32 0"
proof -
  obtain tls where tls: "build_client_tls_config (ce_sha256 env) (hex_encode (replicate 32 0)) = Ok tls"
    "\<And>cert. tc_verify_server_cert tls cert = Ok () \<longleftrightarrow> ce_sha256 env cert = replicate 32 0"
    using build_client_tls_config_hex [of "replicate 32 0" "ce_sha256 env"] by auto
  obtain stream where stream: "ce_connect env (cc_server_addr config) = Ok stream"
    "connect_reality env (cc_mask_domain config) (cc_server_addr config) (hex_encode (replicate 32 0)) stream = Ok tunnel"
    using assms(2-4) by (auto simp: open_tunnel_def bind_res_eq_Ok split: if_splits)
  from stream(2) obtain t where "ce_tls_connect env tls (cc_mask_domain config) stream = Ok t"
    by (auto simp: connect_reality_def tls(1) bind_res_eq_Ok split: if_splits)
  with assms(1) tls(2) stream(1) show ?thesis unfolding tls_connect_ok_def by blast
qed

lemma accept_loop_task: "o' \<in> set (fst (accept_loop task cs)) \<Longrightarrow> \<exists>c. o' = task c"
  by (induction task cs rule: accept_loop.induct) (auto split: prod.splits)

lemma run_with_ready_config:
  "run_with_ready bind_to config ready accepts = (sent, cs, stop) \<Longrightarrow> (cfg, stream) \<in> set cs \<Longrightarrow> cfg = config"
  using accept_loop_task [of "(cfg, stream)" "\<lambda>stream. (config, stream)" accepts]
  by (auto simp: run_with_ready_def split: res.splits prod.splits)

text \<open>C24: The mobile application carries no traffic to a server whose certificate does not hash to zero. The calls may be
  made in whatever number, order and interleaving with each other and with the background tasks; the hypotheses are that
  every start call names a mask domain (the application's is always \<^verbatim>\<open>www.apple.com\<close>; an empty one or \<^verbatim>\<open>none\<close> would
  turn the Reality layer off), and that the SHA-256 of the certificate shown on the connection to the configured server is
  not 32 zero bytes. Then no connection that any task accepts becomes a session, and its handler ends with an error. For the
  key of the configuration, which no call can set, is 64 zeros, and the client takes it for the fingerprint it requires.\<close>

theorem mobile_app_carries_nothing:
  assumes "bridge_run bridge_init ls s" and "t \<in> set (bs_tasks s)"
    and "\<And>a u p f d. BeginStart (a, u, p, f, d) \<in> set ls \<Longrightarrow> d \<notin> {[], lit ''none''}"
    and "tls_connect_ok env shown"
    and "\<And>server. ce_connect env (cc_server_addr (at_config t)) = Ok server \<Longrightarrow>
      ce_sha256 env (shown server) \<noteq> replicate 32 0"
    and "run_with_ready bind_to (at_config t) ready accepts = (sent, cs, stop)" and "(config, stream) \<in> set cs"
    and "handle_socks5_client env g config stream r session"
  shows "session = None \<and> r \<noteq> Ok ()"
proof -
  have "at_config t \<in> api_client_config ` {args. BeginStart args \<in> set ls}"
    using configs_run [OF assms(1)] assms(2) by (auto simp: configs_from_def)
  then obtain args where "BeginStart args \<in> set ls" "at_config t = api_client_config args" by blast
  moreover obtain a u p f d where "args = (a, u, p, f, d)" by (cases args)
  ultimately have args: "BeginStart (a, u, p, f, d) \<in> set ls" "at_config t = api_client_config (a, u, p, f, d)" by blast+
  have cfg: "config = at_config t" using run_with_ready_config [OF assms(6,7)] .
  have key: "cc_reality_auth_key config = hex_encode (replicate 32 0)" by (simp add: cfg args(2) zero_key del: lit_Cons)
  have mask: "cc_mask_domain config \<notin> {[], lit ''none''}" using assms(3) [OF args(1)] cfg args(2) by (simp del: lit_Cons)
  have none: "open_tunnel env config \<noteq> Ok (uid, tunnel)" for uid tunnel
    using zero_key_tunnel [OF assms(4) key mask] assms(5) cfg by blast
  from assms(8) show ?thesis
  proof cases
    case (socks_tunnel target_addr stream' r')
    from socks_tunnel(3) show ?thesis
      by cases (use none socks_tunnel(1) in auto)
  qed simp_all
qed

text \<open>A TLS library that sees the same certificate on every connection and asks the verifier; its hash is not zero.\<close>

definition pinned_env :: "nat client_env" where
  "pinned_env = example_client_env\<lparr>
     ce_sha256 := (\<lambda>_. replicate 32 1),
     ce_tls_connect := (\<lambda>tls domain stream. case tc_verify_server_cert tls [7] of Ok _ \<Rightarrow> Ok stream | _ \<Rightarrow> Err (IoFault 1))\<rparr>"

lemma pinned_env_ok: "tls_connect_ok pinned_env (\<lambda>_. [7])"
proof -
  have "tc_verify_server_cert tls [7] = Ok ()"
    if "(case tc_verify_server_cert tls [7] of Ok _ \<Rightarrow> Ok stream | _ \<Rightarrow> Err (IoFault 1)) = Ok t" for tls and stream t :: conn
    using that by (cases "tc_verify_server_cert tls [7]") simp_all
  then show ?thesis unfolding tls_connect_ok_def pinned_env_def by fastforce
qed

text \<open>What its handler does with a request: the application is told that the CONNECT succeeded, and then the tunnel fails.\<close>

lemma pinned_env_fails:
  "\<exists>e. handle_socks5_client pinned_env 0 (api_client_config example_args) (fresh_conn [example_request]) (Err e) None"
proof -
  let ?cfg = "api_client_config example_args"
  have ne: "(replicate 32 1 :: bytes) \<noteq> replicate 32 0" by (simp add: replicate_eq_replicate)
  have key: "cc_reality_auth_key ?cfg = hex_encode (replicate 32 0)"
    by (simp add: example_args_def zero_key del: lit_Cons)
  obtain tls where tls: "build_client_tls_config (ce_sha256 pinned_env) (hex_encode (replicate 32 0)) = Ok tls"
    "tc_verify_server_cert tls [7] \<noteq> Ok ()"
    using build_client_tls_config_hex [of "replicate 32 0" "ce_sha256 pinned_env"] ne by (auto simp: pinned_env_def)
  then have "ce_tls_connect pinned_env tls domain c = Err (IoFault 1)" for domain c
    by (cases "tc_verify_server_cert tls [7]") (simp_all add: pinned_env_def)
  then have refused: "\<exists>e. connect_reality pinned_env domain addr (hex_encode (replicate 32 0)) c = Err e" for domain addr c
    by (simp add: connect_reality_def tls(1))
  have "parse_user_id (cc_user_id ?cfg) = Ok example_uid"
    using parse_user_id_hex_encode [OF length_example_uid]
    by (simp add: example_args_def default_user_text example_uid_def del: lit_Cons)
  moreover have "cc_mask_domain ?cfg \<noteq> [] \<and> cc_mask_domain ?cfg \<noteq> lit ''none''" by (simp add: example_args_def)
  moreover obtain c where "ce_connect pinned_env (cc_server_addr ?cfg) = Ok c"
    by (simp add: pinned_env_def example_client_env_def)
  moreover obtain e where "connect_reality pinned_env (cc_mask_domain ?cfg) (cc_server_addr ?cfg) (cc_reality_auth_key ?cfg) c = Err e"
    using refused unfolding key by metis
  ultimately have e: "open_tunnel pinned_env ?cfg = Err e"
    by (simp add: open_tunnel_def del: lit_Cons api_client_config.simps)
  let ?t = "Domain (lit ''example.com'') 443"
  have w: "wf_addr ?t" "?t \<noteq> TargetNone" "length (addr_wire ?t) \<le> 258" by (simp_all add: is_ascii_utf8_valid)
  have "src_data (c_in (fresh_conn [example_request])) = socks5_request [2, 0] ?t @ []" by (simp add: example_request_def)
  from socks5_connect_understood [OF w _ _ this] obtain stream' where
    "socks5_handshake (fresh_conn [example_request]) = (Ok ?t, stream')" by auto
  from socks_tunnel [OF this open_fails [OF e]] show ?thesis by auto
qed

text \<open>The accesses of a start call up to its wait.\<close>

definition one_call :: "bridge_label list" where
  "one_call = [BeginStart example_args, CallMoves 0 False, CallMoves 0 False, CallMoves 0 False, CallMoves 0 False]"

theorem mobile_app_carries_nothing_witness:
  "\<exists>s t. bridge_run bridge_init one_call s \<and> bs_tasks s = [t] \<and>
     (\<exists>r. handle_socks5_client pinned_env 0 (at_config t) (fresh_conn [example_request]) r None) \<and>
     (\<forall>r session. handle_socks5_client pinned_env 0 (at_config t) (fresh_conn [example_request]) r session \<longrightarrow>
        session = None \<and> r \<noteq> Ok ())"
proof -
  obtain s where run: "bridge_run bridge_init one_call s" and s: "bs_tasks s = [new_task example_args]"
    unfolding bridge_exec_run [symmetric] one_call_def by (simp add: bridge_init_def api_init_def)
  have mask: "d \<notin> {[], lit ''none''}" if "BeginStart (a, u, p, f, d) \<in> set one_call" for a u p f d
    using that by (auto simp: example_args_def one_call_def)
  have ne: "(replicate 32 1 :: bytes) \<noteq> replicate 32 0" by (simp add: replicate_eq_replicate)
  have shown: "ce_sha256 pinned_env ((\<lambda>_. [7]) c) \<noteq> replicate 32 0" for c :: conn
    using ne by (simp add: pinned_env_def)
  have rr: "run_with_ready (\<lambda>_. Ok ()) cfg True [Ok c] = (True, [(cfg, c)], None)" for cfg c
    by (simp add: run_with_ready_def)
  have "session = None \<and> r \<noteq> Ok ()" if
    "handle_socks5_client pinned_env 0 (at_config (new_task example_args)) (fresh_conn [example_request]) r session" for r session
    by (rule mobile_app_carries_nothing [OF run _ mask pinned_env_ok shown rr list.set_intros(1) that]) (simp_all add: s)
  moreover have "\<exists>r. handle_socks5_client pinned_env 0 (at_config (new_task example_args)) (fresh_conn [example_request]) r None"
    using pinned_env_fails by (auto simp: new_task_def)
  ultimately show ?thesis using run s by blast
qed

end
