(* ===== verification/Unit_Tests.thy ===== *)
theory Unit_Tests
  imports Stealth Crypto Ja4 Reality Protocol
begin

section \<open>The unit tests of the repository\<close>

text \<open>
  The tests of ghost-common, ghost-crypto and ghost-reality, over the model: a test that draws random numbers is a
  function of the generator and its state, one that encrypts also of the cipher library. A test passes if its value is
  true; a panic, a failed \<^verbatim>\<open>unwrap\<close> or a failed assertion makes it false. That all of them
  pass for every state of every generator is more than a run of the tests tells, and it checks the definitions against
  what their authors expect of the code.
\<close>

subsection \<open>ghost-common\<close>

definition encode_decode_again :: "TargetAddr \<Rightarrow> bool" where
  "encode_decode_again addr =
     (let buf = snd (TargetAddr_encode addr []) in fst (TargetAddr_decode buf) = Ok addr)"

definition test_target_addr_domain_encode_decode :: bool where
  "test_target_addr_domain_encode_decode = encode_decode_again (Domain (lit ''youtube.com'') 443)"

definition test_target_addr_ipv4_encode_decode :: bool where
  "test_target_addr_ipv4_encode_decode = encode_decode_again (IpV4 (socket_v4 (of_be32 [1, 1, 1, 1]) 443))"

definition test_ghost_frame_encode_decode :: "'r rng \<Rightarrow> 'r \<Rightarrow> bool" where
  "test_ghost_frame_encode_decode R s =
     (let user_id = replicate 16 0x01;
          target = Domain (lit ''example.com'') 443;
          payload = lit ''hello world'';
          frame = fst (with_random_padding R 32 (GhostFrame_new user_id target payload) s)
      in case (GhostFrame_encode frame :: (ProtocolError, bytes) res) of
           Ok encoded \<Rightarrow>
             (case GhostFrame_decode encoded of
                Ok decoded \<Rightarrow> gf_version decoded = PROTOCOL_VERSION \<and> gf_user_id decoded = user_id \<and>
                  gf_payload decoded = lit ''hello world''
              | _ \<Rightarrow> False)
         | _ \<Rightarrow> False)"

text \<open>A hundred draws of the length of the padding.\<close>

fun lengths_within :: "'r rng \<Rightarrow> PaddingStrategy \<Rightarrow> nat \<Rightarrow> nat \<Rightarrow> nat \<Rightarrow> 'r \<Rightarrow> bool" where
  "lengths_within R strategy lo hi 0 s = True"
| "lengths_within R strategy lo hi (Suc k) s =
     (case calculate_padding_len R 100 strategy s of
        (Ok len, t) \<Rightarrow> lo \<le> len \<and> len \<le> hi \<and> lengths_within R strategy lo hi k t
      | _ \<Rightarrow> False)"

definition test_padding_strategy_random :: "'r rng \<Rightarrow> 'r \<Rightarrow> bool" where
  "test_padding_strategy_random R s = lengths_within R (Random 10 50) 10 50 100 s"

definition test_padding_strategy_fixed :: "'r rng \<Rightarrow> 'r \<Rightarrow> bool" where
  "test_padding_strategy_fixed R s = (fst (calculate_padding_len R 100 (Fixed 32) s) = Ok 32)"

definition test_padding_strategy_normalize :: "'r rng \<Rightarrow> 'r \<Rightarrow> bool" where
  "test_padding_strategy_normalize R s =
     (case fst (calculate_padding_len R 100 (NormalizeToMultiple 16 64) s) of
        Ok len \<Rightarrow> (100 + len) mod 16 = 0 \<or> len = 64
      | _ \<Rightarrow> False)"

definition test_config :: "bool \<Rightarrow> FragmentationConfig" where
  "test_config on = FragmentationConfig_default\<lparr>fc_enabled := on, fc_first_fragment_size := 2,
     fc_inter_fragment_delay_ms := 0, fc_first_packet_only := True\<rparr>"

definition test_fragment_data_basic :: bool where
  "test_fragment_data_basic =
     (case fragment_data (lit ''hello world'') (test_config True) of
        Ok result \<Rightarrow> length (fd_fragments result) = 2 \<and> fd_fragments result ! 0 = lit ''he'' \<and>
          fd_fragments result ! 1 = lit ''llo world''
      | _ \<Rightarrow> False)"

definition test_fragment_tls_client_hello :: bool where
  "test_fragment_tls_client_hello =
     (case fragment_tls_client_hello ([0x16, 0x03, 0x01, 0x00, 0x80] @ replicate 128 0) (test_config True) of
        Ok result \<Rightarrow> length (fd_fragments result) = 2 \<and> length (fd_fragments result ! 0) = 2 \<and>
          fd_fragments result ! 0 ! 0 = 0x16
      | _ \<Rightarrow> False)"

definition test_fragment_disabled :: bool where
  "test_fragment_disabled =
     (case fragment_data (lit ''hello'') (FragmentationConfig_default\<lparr>fc_enabled := False\<rparr>) of
        Ok result \<Rightarrow> length (fd_fragments result) = 1
      | _ \<Rightarrow> False)"

subsection \<open>ghost-crypto\<close>

text \<open>A fresh key and its cipher.\<close>

definition with_fresh_cipher :: "aead \<Rightarrow> 'r rng \<Rightarrow> (GhostCipher \<Rightarrow> 'r \<Rightarrow> bool) \<Rightarrow> 'r \<Rightarrow> bool" where
  "with_fresh_cipher A R test s =
     (case GhostCipher_generate_key R s of
        (key, t) \<Rightarrow> (case GhostCipher_new A key of Ok cipher \<Rightarrow> test cipher t | _ \<Rightarrow> False))"

definition test_encrypt_decrypt_roundtrip :: "aead \<Rightarrow> 'r rng \<Rightarrow> 'r \<Rightarrow> bool" where
  "test_encrypt_decrypt_roundtrip A R = with_fresh_cipher A R (\<lambda>cipher s.
     let plaintext = lit ''Hello, Ghost Protocol!'' in
     case GhostCipher_encrypt R cipher plaintext s of
       (Ok encrypted, _) \<Rightarrow> GhostCipher_decrypt cipher encrypted = Ok plaintext
     | _ \<Rightarrow> False)"

definition test_different_nonces_per_encryption :: "aead \<Rightarrow> 'r rng \<Rightarrow> 'r \<Rightarrow> bool" where
  "test_different_nonces_per_encryption A R = with_fresh_cipher A R (\<lambda>cipher s.
     let plaintext = lit ''same data'' in
     case GhostCipher_encrypt R cipher plaintext s of
       (Ok enc1, t) \<Rightarrow>
         (case GhostCipher_encrypt R cipher plaintext t of
            (Ok enc2, _) \<Rightarrow> take 12 enc1 \<noteq> take 12 enc2 \<and> enc1 \<noteq> enc2 \<and>
              GhostCipher_decrypt cipher enc1 = Ok plaintext \<and> GhostCipher_decrypt cipher enc2 = Ok plaintext
          | _ \<Rightarrow> False)
     | _ \<Rightarrow> False)"

definition test_tampered_ciphertext_fails :: "aead \<Rightarrow> 'r rng \<Rightarrow> 'r \<Rightarrow> bool" where
  "test_tampered_ciphertext_fails A R = with_fresh_cipher A R (\<lambda>cipher s.
     let plaintext = lit ''important data'' in
     case GhostCipher_encrypt R cipher plaintext s of
       (Ok encrypted, _) \<Rightarrow>
         let tamper_idx = NONCE_SIZE + 1;
             encrypted = encrypted[tamper_idx := encrypted ! tamper_idx XOR 0xFF]
         in (case GhostCipher_decrypt cipher encrypted of Err e \<Rightarrow> True | _ \<Rightarrow> False)
     | _ \<Rightarrow> False)"

definition test_derive_key_deterministic :: "hkdf \<Rightarrow> bool" where
  "test_derive_key_deterministic H =
     (let user_id = replicate 16 0x01; secret = lit ''super_secret_key_12345'';
          key1 = (derive_key H user_id secret :: (CryptoError, bytes) res);
          key2 = derive_key H user_id secret;
          user_id2 = replicate 16 0x02;
          key3 = derive_key H user_id2 secret
      in key1 \<noteq> Panic \<and> key1 = key2 \<and> key1 \<noteq> key3)"

subsection \<open>ghost-reality\<close>

definition test_chrome_profile_ja4 :: bool where
  "test_chrome_profile_ja4 =
     (let ja4 = calculate_ja4 chrome_131_profile in take 3 ja4 = lit ''t13'' \<and> 10 < length ja4)"

definition test_firefox_profile_ja4 :: bool where
  "test_firefox_profile_ja4 = (let ja4 = calculate_ja4 firefox_133_profile in take 3 ja4 = lit ''t13'')"

definition test_ja4_verification :: bool where
  "test_ja4_verification =
     (let chrome_ja4 = chrome_ja4_fingerprint; allowed = [chrome_ja4]
      in verify_ja4 chrome_ja4 allowed \<and> \<not> verify_ja4 (lit ''t13deadbeef'') allowed)"

definition test_known_database :: bool where
  "test_known_database = (known_ja4_database \<noteq> Map.empty)"

definition test_reality_server_creation :: "('k, 'g) cert_lib \<Rightarrow> 'g \<Rightarrow> bool" where
  "test_reality_server_creation L s =
     (case fst (RealityServer_new L (RealityConfig_default\<lparr>rc_mask_domain := lit ''www.apple.com''\<rparr>) s) of
        Ok server \<Rightarrow> True | _ \<Rightarrow> False)"

definition auth_test_request :: "bytes \<Rightarrow> bytes" where
  "auth_test_request token =
     lit ''GET / HTTP/1.1'' @ crlf @ lit ''Host: example.com'' @ crlf @ lit ''X-Ghost-Auth: '' @ token @ crlf @ crlf"

definition test_ghost_auth_detection :: bool where
  "test_ghost_auth_detection =
     (let auth_key = replicate 32 0xAB; token = create_auth_token auth_key; request = auth_test_request token
      in RealityServer_detect_ghost_auth request auth_key = (Ok True :: (RealityError, bool) res))"

definition test_non_ghost_client_rejected :: bool where
  "test_non_ghost_client_rejected =
     (let auth_key = replicate 32 0xAB;
          request = lit ''GET / HTTP/1.1'' @ crlf @ lit ''Host: example.com'' @ crlf @ crlf
      in RealityServer_detect_ghost_auth request auth_key = (Ok False :: (RealityError, bool) res))"

definition test_wrong_auth_key_rejected :: bool where
  "test_wrong_auth_key_rejected =
     (let auth_key = replicate 32 0xAB; wrong_key = replicate 32 0xCD;
          token = create_auth_token auth_key; request = auth_test_request token
      in RealityServer_detect_ghost_auth request wrong_key = (Ok False :: (RealityError, bool) res))"

definition test_reality_client_creation :: bool where
  "test_reality_client_creation = (rcl_config (RealityClient_new RealityConfig_default) = RealityConfig_default)"

subsection \<open>They pass\<close>

lemma encode_decode_again_wf: "wf_addr t \<Longrightarrow> encode_decode_again t"
  using addr_code.dec_enc [of t "[]"] by (simp add: encode_decode_again_def TargetAddr_encode_fits wf_addr_fits)

lemma address_tests: "test_target_addr_domain_encode_decode" "test_target_addr_ipv4_encode_decode"
  by (simp_all add: test_target_addr_domain_encode_decode_def test_target_addr_ipv4_encode_decode_def
      encode_decode_again_wf is_ascii_utf8_valid)

lemma frame_test:
  assumes "rng_ok R"
  shows "test_ghost_frame_encode_decode R s"
proof -
  let ?f = "GhostFrame_new (replicate 16 0x01) (Domain (lit ''example.com'') 443) (lit ''hello world'')"
  obtain f t where f: "with_random_padding R 32 ?f s = (f, t)" by fastforce
  have "wf_frame ?f" by (simp add: wf_frame_def GhostFrame_new_def USER_ID_LEN_def is_ascii_utf8_valid)
  from with_random_padding_safe [OF assms this f] have w: "wf_frame f" and u: "?f\<lparr>gf_padding := gf_padding f\<rparr> = f" by simp_all
  have e: "GhostFrame_encode f = (Ok (frame_wire f) :: (ProtocolError, bytes) res)" "GhostFrame_decode (frame_wire f) = Ok f"
    using w frame_code.decode_enc_exact [OF w]
    by (simp_all add: GhostFrame_encode_fits wf_addr_fits wf_frame_def GhostFrame_decode_def)
  have "gf_version f = PROTOCOL_VERSION" "gf_user_id f = replicate 16 0x01" "gf_payload f = lit ''hello world''"
    by (subst u [symmetric], simp add: GhostFrame_new_def)+
  then show ?thesis by (simp add: test_ghost_frame_encode_decode_def Let_def f e del: lit_Cons)
qed

lemma random_lengths:
  assumes "rng_ok R"
  shows "lengths_within R (Random 10 50) 10 50 k s"
proof (induction k arbitrary: s)
  case (Suc k)
  obtain n t where "calculate_padding_len R 100 (Random 10 50) s = (Ok n, t)" "10 \<le> n" "n \<le> 50"
    by (rule calculate_random_bounds [OF assms, of 100 10 50 s]) simp
  with Suc show ?case by (simp del: calculate_padding_len.simps)
qed simp

lemma padding_tests:
  assumes "rng_ok R"
  shows "test_padding_strategy_random R s" and "test_padding_strategy_fixed R s" and "test_padding_strategy_normalize R s"
  using random_lengths [OF assms]
  by (simp_all add: test_padding_strategy_random_def test_padding_strategy_fixed_def test_padding_strategy_normalize_def)

lemma fragment_tests: "test_fragment_data_basic" "test_fragment_tls_client_hello" "test_fragment_disabled"
  by (simp_all add: test_fragment_data_basic_def test_fragment_tls_client_hello_def test_fragment_disabled_def
      fragment_data_def fragment_tls_client_hello_def test_config_def FragmentationConfig_default_def slice_to_def slice_from_def)

lemma detects_test_request:
  assumes "length key = 32"
  shows "RealityServer_detect_ghost_auth (auth_test_request (create_auth_token key)) key' = (Ok (key = key') :: ('e, bool) res)"
proof -
  let ?p = "lit ''GET / HTTP/1.1'' @ crlf @ lit ''Host: example.com'' @ crlf"
  have tok: "token_text (create_auth_token key)"
    using assms unfolding create_auth_token_def by (intro token_text_hex_encode) auto
  have "utf8_valid ?p" "is_ascii crlf" "88 \<notin> set ?p"
    by (simp_all add: crlf_def is_ascii_utf8_valid)
  then have "extract_auth_token (?p @ auth_marker @ 32 # create_auth_token key @ crlf @ crlf) =
      (Ok (Some (create_auth_token key)) :: ('e, bytes option) res)"
    by (intro extract_auth_found tok auth_marker_after)
  then have "extract_auth_token (auth_test_request (create_auth_token key)) =
      (Ok (Some (create_auth_token key)) :: ('e, bytes option) res)"
    by (simp add: auth_test_request_def auth_marker_def)
  then show ?thesis using assms by (simp add: RealityServer_detect_ghost_auth_def create_auth_token_def)
qed

lemma detection_tests: "test_non_ghost_client_rejected" "test_ghost_auth_detection" "test_wrong_auth_key_rejected"
proof -
  show test_non_ghost_client_rejected
    unfolding test_non_ghost_client_rejected_def by code_simp
  have "(replicate 32 0xAB :: bytes) \<noteq> replicate 32 0xCD" by (simp add: replicate_eq_replicate)
  then show test_ghost_auth_detection and test_wrong_auth_key_rejected
    by (simp_all add: test_ghost_auth_detection_def test_wrong_auth_key_rejected_def detects_test_request)
qed

lemma ja4_tests: "test_chrome_profile_ja4" "test_firefox_profile_ja4" "test_ja4_verification" "test_known_database"
proof -
  have len: "10 < length (calculate_ja4 p)" for p by (simp add: calculate_ja4_def Let_def)
  have t13: "take 3 (calculate_ja4 p) = lit ''t13''" if "ja_tls_version p = 0x0304" for p
    using that by (simp add: calculate_ja4_def Let_def tls_ver_text_def)
  show test_chrome_profile_ja4 and test_firefox_profile_ja4
    using len t13 by (simp_all add: test_chrome_profile_ja4_def test_firefox_profile_ja4_def profile_ends)
  have "length (lit ''t13deadbeef'') \<noteq> length chrome_ja4_fingerprint"
    by (simp add: chrome_ja4_fingerprint_def calculate_ja4_def Let_def)
  then have "chrome_ja4_fingerprint \<noteq> lit ''t13deadbeef''" by metis
  then show test_ja4_verification by (simp add: test_ja4_verification_def verify_ja4_def Let_def del: lit_Cons)
  show test_known_database
    unfolding test_known_database_def known_ja4_database_def by (metis fun_upd_same option.distinct(1))
qed

lemma creation_tests:
  "test_reality_client_creation" "test_reality_server_creation counting_lib s"
  by (simp_all add: test_reality_client_creation_def RealityClient_new_def test_reality_server_creation_def
      RealityServer_new_def RealityServer_build_tls_config_def counting_lib_def bind_def with_err_def
      single_cert_config_def Let_def)

subsection \<open>The tests of the cipher\<close>

lemma fresh_cipher:
  assumes "rng_ok R" and "aead_ok A" and "\<And>c t. cipher_ok c \<Longrightarrow> gc_aead c = A \<Longrightarrow> test c t"
  shows "with_fresh_cipher A R test s"
proof -
  obtain key t where k: "GhostCipher_generate_key R s = (key, t)" by fastforce
  have "length key = KEY_SIZE"
    using rng_ok_fill [OF assms(1)] k by (simp add: GhostCipher_generate_key_def)
  then show ?thesis
    using k assms(2,3) by (simp add: with_fresh_cipher_def GhostCipher_new_def cipher_ok_def)
qed

lemma roundtrip_test:
  assumes "rng_ok R" and "aead_ok A"
  shows "test_encrypt_decrypt_roundtrip A R s"
  unfolding test_encrypt_decrypt_roundtrip_def
proof (rule fresh_cipher [OF assms])
  fix c t assume "cipher_ok c"
  with assms(1) have g: "rng_ok R \<and> cipher_ok c" by simp
  have "length (lit ''Hello, Ghost Protocol!'') < 2 ^ 32" by simp
  from ghost_cipher.seal_open [OF g this, of t] obtain d u where
    "GhostCipher_encrypt R c (lit ''Hello, Ghost Protocol!'') t = (Ok d, u)"
    "GhostCipher_decrypt c d = Ok (lit ''Hello, Ghost Protocol!'')" by metis
  then show "let plaintext = lit ''Hello, Ghost Protocol!'' in
      case GhostCipher_encrypt R c plaintext t of
        (Ok encrypted, _) \<Rightarrow> GhostCipher_decrypt c encrypted = Ok plaintext | _ \<Rightarrow> False"
    by (simp del: lit_Cons)
qed

text \<open>Two tests say of the random generator and of the key derivation what no program can promise: that two nonces differ, and
  that two inputs give different keys. They pass exactly when that is so.\<close>

lemma nonce_test_iff:
  assumes "rng_ok R" and "aead_ok A" and "rng_fill R KEY_SIZE s = (key, t)"
    and "rng_fill R NONCE_SIZE t = (n1, u)" and "rng_fill R NONCE_SIZE u = (n2, v)"
  shows "test_different_nonces_per_encryption A R s \<longleftrightarrow> n1 \<noteq> n2"
proof -
  have l: "length key = KEY_SIZE" "length n1 = NONCE_SIZE" "length n2 = NONCE_SIZE"
    using rng_ok_fill [OF assms(1)] assms(3-5) by simp_all
  let ?c = "\<lparr>gc_aead = A, gc_key = key\<rparr>"
  have g: "rng_ok R \<and> cipher_ok ?c" using assms(1,2) l(1) by (simp add: cipher_ok_def)
  have p: "length (lit ''same data'') < 2 ^ 32" by simp
  have seals: "\<exists>d. GhostCipher_encrypt R ?c (lit ''same data'') t = (Ok d, u) \<and>
      GhostCipher_decrypt ?c d = Ok (lit ''same data'') \<and> take 12 d = n" if n: "rng_fill R NONCE_SIZE t = (n, u)" for t n u
  proof -
    obtain d u' where d: "GhostCipher_encrypt R ?c (lit ''same data'') t = (Ok d, u')"
      "GhostCipher_decrypt ?c d = Ok (lit ''same data'')"
      by (rule ghost_cipher.seal_open [OF g p])
    obtain m ct where "d = m @ ct" "length m = NONCE_SIZE" "rng_fill R NONCE_SIZE t = (m, u')"
      by (rule GhostCipher_encrypt_Ok [OF assms(1) d(1)])
    with d n show ?thesis by (simp add: NONCE_SIZE_def)
  qed
  from seals [OF assms(4)] seals [OF assms(5)] obtain d1 d2 where
    d1: "GhostCipher_encrypt R ?c (lit ''same data'') t = (Ok d1, u)"
      "GhostCipher_decrypt ?c d1 = Ok (lit ''same data'')" "take 12 d1 = n1" and
    d2: "GhostCipher_encrypt R ?c (lit ''same data'') u = (Ok d2, v)"
      "GhostCipher_decrypt ?c d2 = Ok (lit ''same data'')" "take 12 d2 = n2" by blast
  have "with_fresh_cipher A R test s = test ?c t" for test
    using assms(3) l(1) by (simp add: with_fresh_cipher_def GhostCipher_generate_key_def GhostCipher_new_def)
  then show ?thesis
    unfolding test_different_nonces_per_encryption_def using d1 d2 by (auto simp del: lit_Cons)
qed

lemma derive_test_iff:
  assumes "hkdf_ok H"
  shows "test_derive_key_deterministic H \<longleftrightarrow>
     H (lit ''super_secret_key_12345'') (replicate 16 1) (lit ''ghost-v1'') KEY_SIZE \<noteq>
     H (lit ''super_secret_key_12345'') (replicate 16 2) (lit ''ghost-v1'') KEY_SIZE"
proof -
  have "KEY_SIZE \<le> 255 * 32" by (simp add: KEY_SIZE_def)
  with assms have "\<exists>k. H salt ikm info KEY_SIZE = Some k" for salt ikm info
    unfolding hkdf_ok_def by blast
  then obtain a b where "H (lit ''super_secret_key_12345'') (replicate 16 1) (lit ''ghost-v1'') KEY_SIZE = Some a"
    and "H (lit ''super_secret_key_12345'') (replicate 16 2) (lit ''ghost-v1'') KEY_SIZE = Some b" by blast
  then show ?thesis
    unfolding test_derive_key_deterministic_def derive_key_def Let_def by (simp del: lit_Cons)
qed

lemma flipped_byte: "b XOR 0xFF \<noteq> b" for b :: u8
proof
  assume "b XOR 0xFF = b"
  then have "(b XOR b) XOR 0xFF = b XOR b" by (simp only: xor.assoc)
  then show False by simp
qed

text \<open>A tampered packet is refused unless the library can be made to produce it (a forgery).\<close>

lemma tampered_test:
  assumes "rng_ok R" and "aead_ok A"
    and unforgeable: "\<And>k n p q c i b. aead_seal A k n p = Some c \<Longrightarrow> aead_seal A k n q = Some (c[i := b]) \<Longrightarrow> c[i := b] = c"
  shows "test_tampered_ciphertext_fails A R s"
  unfolding test_tampered_ciphertext_fails_def
proof (rule fresh_cipher [OF assms(1,2)])
  fix c t assume c: "cipher_ok c" "gc_aead c = A"
  with assms(1) have g: "rng_ok R \<and> cipher_ok c" by simp
  have "length (lit ''important data'') < 2 ^ 32" by simp
  from ghost_cipher.seal_open [OF g this, of t] obtain d u where
    d: "GhostCipher_encrypt R c (lit ''important data'') t = (Ok d, u)"
      "length d = length (lit ''important data'') + (NONCE_SIZE + TAG_SIZE)" by metis
  obtain n ct where n: "d = n @ ct" "length n = NONCE_SIZE" "aead_seal A (gc_key c) n (lit ''important data'') = Some ct"
    using GhostCipher_encrypt_Ok [OF assms(1) d(1)] c(2) by metis
  let ?i = "NONCE_SIZE + 1"
  let ?b = "d ! ?i XOR 0xFF"
  have i: "?i < length d" using d(2) by simp
  have split: "d[?i := ?b] = n @ ct[1 := ?b]" using n(1,2) by (simp add: list_update_append)
  have differ: "ct[1 := ?b] \<noteq> ct"
  proof
    assume "ct[1 := ?b] = ct"
    then have "ct[1 := ?b] ! 1 = ct ! 1" by simp
    moreover have "1 < length ct" using i n(1,2) by simp
    ultimately have "?b = d ! ?i" using n(1,2) by (simp add: nth_append)
    then show False by (simp add: flipped_byte)
  qed
  have "GhostCipher_decrypt c (d[?i := ?b]) \<noteq> Ok q" for q
  proof
    assume "GhostCipher_decrypt c (d[?i := ?b]) = Ok q"
    then have "aead_open A (gc_key c) n (ct[1 := ?b]) = Some q"
      unfolding split using n(2) c(2) by (auto simp: GhostCipher_decrypt_def Let_def split: if_splits option.splits)
    then have "aead_seal A (gc_key c) n q = Some (ct[1 := ?b])"
      using aead_open_iff c n(2) by (auto simp: cipher_ok_def)
    from unforgeable [OF n(3) this] differ show False by simp
  qed
  moreover have "GhostCipher_decrypt c x \<noteq> Panic" for x
    by (simp add: GhostCipher_decrypt_def Let_def split: option.split)
  ultimately show "let plaintext = lit ''important data'' in
      case GhostCipher_encrypt R c plaintext t of
        (Ok encrypted, _) \<Rightarrow>
          let tamper_idx = NONCE_SIZE + 1;
              encrypted = encrypted[tamper_idx := encrypted ! tamper_idx XOR 0xFF]
          in (case GhostCipher_decrypt c encrypted of Err e \<Rightarrow> True | _ \<Rightarrow> False)
      | _ \<Rightarrow> False"
    using d(1) by (simp del: lit_Cons split: res.split)
qed

text \<open>The tests of the repository pass, whatever is drawn: all that do not depend on a collision of
  random values or on the strength of a library hold for every generator, every state of it, and every sound cipher.\<close>

theorem unit_tests_pass:
  assumes "rng_ok R" and "aead_ok A"
  shows "test_target_addr_domain_encode_decode \<and> test_target_addr_ipv4_encode_decode \<and>
    test_ghost_frame_encode_decode R s \<and>
    test_padding_strategy_random R s \<and> test_padding_strategy_fixed R s \<and> test_padding_strategy_normalize R s \<and>
    test_fragment_data_basic \<and> test_fragment_tls_client_hello \<and> test_fragment_disabled \<and>
    test_encrypt_decrypt_roundtrip A R s \<and>
    test_chrome_profile_ja4 \<and> test_firefox_profile_ja4 \<and> test_ja4_verification \<and> test_known_database \<and>
    test_ghost_auth_detection \<and> test_non_ghost_client_rejected \<and> test_wrong_auth_key_rejected \<and>
    test_reality_client_creation"
  using address_tests frame_test [OF assms(1)] padding_tests [OF assms(1)] fragment_tests roundtrip_test [OF assms]
    ja4_tests detection_tests creation_tests by simp

theorem unit_tests_pass_witness:
  "test_ghost_frame_encode_decode counter_rng 3 \<and> test_encrypt_decrypt_roundtrip plain_aead counter_rng 5"
  using unit_tests_pass [OF rng_ok_counter aead_ok_plain] by blast

end
