(* ===== verification/E2e_Test.thy ===== *)
theory E2e_Test
  imports Server
begin

section \<open>The end-to-end test and the real server\<close>

text \<open>
  ghost-client/tests/e2e\_test.rs brings its own client and its own server. Its client starts with the length of the init
  frame; the clear user id, with which every connection to the real server starts, is missing. Here: what the test's
  client sends, given to the server of the repository.
\<close>

definition e2e_client_init :: "aead \<Rightarrow> hkdf \<Rightarrow> 'r rng \<Rightarrow> u16 \<Rightarrow> 'r \<Rightarrow> bytes option" where
  "e2e_client_init A H R port s =
     (let user_id = replicate 15 0 @ [1]; secret = lit ''ghost_default_key!'' in
      case (derive_key H user_id secret :: (CryptoError, bytes) res) of
        Ok key \<Rightarrow>
          (case GhostCipher_new A key of
             Ok cipher \<Rightarrow>
               let init_frame = GhostFrame_new user_id (Domain (lit ''127.0.0.1'') port) (lit ''Hello Ghost!'') in
               (case (GhostFrame_encode init_frame :: (CryptoError, bytes) res) of
                  Ok init_data \<Rightarrow>
                    (case fst (GhostCipher_encrypt R cipher init_data s) of
                       Ok encrypted \<Rightarrow> let len = of_nat (length encrypted) :: u16 in Some (be16 len @ encrypted)
                     | _ \<Rightarrow> None)
                | _ \<Rightarrow> None)
           | _ \<Rightarrow> None)
      | _ \<Rightarrow> None)"

definition e2e_frame :: "u16 \<Rightarrow> GhostFrame" where
  "e2e_frame port = GhostFrame_new (replicate 15 0 @ [1]) (Domain (lit ''127.0.0.1'') port) (lit ''Hello Ghost!'')"

lemma e2e_frame_wire:
  "GhostFrame_encode (e2e_frame port) = Ok (frame_wire (e2e_frame port))" "length (frame_wire (e2e_frame port)) = 45"
  "GhostFrame_decode (frame_wire (e2e_frame port)) = Ok (e2e_frame port)" "gf_payload (e2e_frame port) = lit ''Hello Ghost!''"
proof -
  have "wf_addr (gf_target (e2e_frame port))" by (simp add: e2e_frame_def GhostFrame_new_def is_ascii_utf8_valid)
  then have w: "wf_frame (e2e_frame port)" by (simp add: wf_frame_def e2e_frame_def GhostFrame_new_def USER_ID_LEN_def)
  then show "GhostFrame_encode (e2e_frame port) = Ok (frame_wire (e2e_frame port))"
    by (intro GhostFrame_encode_fits wf_addr_fits) (simp add: wf_frame_def)
  show "length (frame_wire (e2e_frame port)) = 45"
    by (simp add: frame_wire_def e2e_frame_def GhostFrame_new_def length_addr_wire)
  show "GhostFrame_decode (frame_wire (e2e_frame port)) = Ok (e2e_frame port)"
    using frame_code.decode_enc_exact [OF w] by (simp add: GhostFrame_decode_def)
  show "gf_payload (e2e_frame port) = lit ''Hello Ghost!''" by (simp add: e2e_frame_def GhostFrame_new_def)
qed

lemma e2e_client_init_packet:
  assumes "rng_ok R" and "aead_ok A" and "hkdf_ok H"
  obtains key d where "(derive_key H (replicate 15 0 @ [1]) (lit ''ghost_default_key!'') :: (CryptoError, bytes) res) = Ok key"
    and "length key = KEY_SIZE" and "e2e_client_init A H R port s = Some (be16 (of_nat (length d)) @ d)" and "length d = 73"
    and "GhostCipher_decrypt \<lparr>gc_aead = A, gc_key = key\<rparr> d = Ok (frame_wire (e2e_frame port))"
proof -
  let ?uid = "replicate 15 0 @ [1 :: u8]"
  obtain key where k: "derive_key H ?uid (lit ''ghost_default_key!'') = (Ok key :: (CryptoError, bytes) res)"
    and l: "length key = KEY_SIZE"
    by (rule derive_key_length [OF assms(3)])
  let ?c = "\<lparr>gc_aead = A, gc_key = key\<rparr>"
  have g: "rng_ok R \<and> cipher_ok ?c" using assms l by (simp add: cipher_ok_def)
  have "length (frame_wire (e2e_frame port)) < 2 ^ 32" using e2e_frame_wire(2) [of port] by simp
  from ghost_cipher.seal_open [OF g this, of s] obtain d t where
    d: "GhostCipher_encrypt R ?c (frame_wire (e2e_frame port)) s = (Ok d, t)" "length d = 45 + (NONCE_SIZE + TAG_SIZE)"
      "GhostCipher_decrypt ?c d = Ok (frame_wire (e2e_frame port))"
    unfolding e2e_frame_wire(2) by metis
  have "e2e_client_init A H R port s = Some (be16 (of_nat (length d)) @ d)"
    unfolding e2e_client_init_def Let_def k res.case e2e_frame_def [symmetric]
    by (simp add: GhostCipher_new_def l e2e_frame_wire(1) d(1) del: lit_Cons)
  then show thesis using k l d(2,3) by (intro that) (simp_all add: crypto_sizes)
qed

lemma e2e_client_init_bytes:
  assumes "rng_ok R" and "aead_ok A" and "hkdf_ok H"
  obtains d where "e2e_client_init A H R port s = Some ([0, 73] @ d)" and "length d = 73"
proof -
  obtain d where d: "e2e_client_init A H R port s = Some (be16 (of_nat (length d)) @ d)" "length d = 73"
    by (rule e2e_client_init_packet [OF assms])
  have "be16 (of_nat (length d)) = [0, 73]" unfolding d(2) by code_simp
  with d show thesis by (intro that) simp_all
qed

text \<open>The end-to-end test does not test the server of the repository: what its client sends, for every port, generator and
  cipher, the server in its default configuration refuses as unauthorised, since it takes the length and the nonce
  for the user id; the packet is never decrypted.\<close>

theorem e2e_client_refused:
  assumes "rng_ok R" and "aead_ok A" and "hkdf_ok H"
    and "e2e_client_init A H R port s = Some w" and "src_data (c_in client) = w @ rest"
  shows "\<exists>id client'. handle_connection_init env (server_state ServerConfig_default) client = (Err (Unauthorized id), client') \<and>
     c_out client' = c_out client"
proof -
  obtain d where w: "w = [0, 73] @ d" "length d = 73"
    using e2e_client_init_bytes [OF assms(1-3), of port s] assms(4) by auto
  let ?uid = "[0, 73] @ take 14 d"
  have "src_data (c_in client) = ?uid @ drop 14 d @ rest"
    unfolding assms(5) w(1) by simp
  moreover have l: "length ?uid = USER_ID_LEN" using w(2) by (simp add: USER_ID_LEN_def)
  ultimately obtain t where r: "read_exact USER_ID_LEN (c_in client) = (Ok ?uid, t)"
    by (rule read_exact_enough)
  have "?uid ! 1 \<noteq> (replicate 15 0 @ [1]) ! 1" by (simp add: nth_append)
  then have "?uid \<noteq> replicate 15 0 @ [1]" by metis
  then have "hex_encode ?uid \<noteq> lit ''00000000000000000000000000000001''"
    unfolding default_user_text hex_encode_inject .
  then have "hex_encode ?uid \<notin> ss_allowed_users (server_state ServerConfig_default)"
    by (simp add: server_state_def ServerConfig_default_def del: lit_Cons)
  from init_unauthorized [OF r this, of env] show ?thesis by auto
qed

theorem e2e_client_refused_witness:
  "\<exists>w id. e2e_client_init plain_aead plain_hkdf counter_rng 8080 7 = Some w \<and>
     fst (handle_connection_init example_env (server_state ServerConfig_default) (fresh_conn [w])) = Err (Unauthorized id)"
proof -
  obtain d where d: "e2e_client_init plain_aead plain_hkdf counter_rng 8080 7 = Some ([0, 73] @ d)"
    by (rule e2e_client_init_bytes [OF rng_ok_counter aead_ok_plain hkdf_ok_plain])
  have "src_data (c_in (fresh_conn [[0, 73] @ d])) = ([0, 73] @ d) @ []" by simp
  from e2e_client_refused [OF rng_ok_counter aead_ok_plain hkdf_ok_plain d this, of example_env] d
  show ?thesis by auto
qed

end
