(* ===== verification/E2e_Run.thy ===== *)
theory E2e_Run
  imports E2e_Test
begin

section \<open>A run of the end-to-end test\<close>

text \<open>
  ghost-client/tests/e2e\_test.rs as a whole: its echo server, its own small Ghost server with the two loops, and the check of
  its client. An \<^verbatim>\<open>unwrap\<close> of an error and the final assertion are panics; where the test server returns or leaves a
  loop, the error is the unit. What TCP makes of the echoed bytes, how it cuts them into the pieces that
  the server's reads get, is the argument \<open>pieces\<close>.
\<close>

definition quietly :: "('s, 'e, 'a) stm \<Rightarrow> ('s, unit, 'a) stm" where
  "quietly m = with_err (\<lambda>_. ()) m"

definition unwrap_m :: "('s, 'e, 'a) stm \<Rightarrow> ('s, unit, 'a) stm" where
  "unwrap_m m s = (case m s of (Ok x, t) \<Rightarrow> (Ok x, t) | (_, t) \<Rightarrow> (Panic, t))"

definition unwrap_res :: "('e, 'a) res \<Rightarrow> ('s, unit, 'a) stm" where
  "unwrap_res r = (case r of Ok x \<Rightarrow> ret x | _ \<Rightarrow> panic)"

text \<open>\<^verbatim>\<open>if let Ok(x) = ..\<close>, without an else.\<close>

definition attempt_m :: "('s, 'e, 'a) stm \<Rightarrow> ('a \<Rightarrow> ('s, unit, unit) stm) \<Rightarrow> ('s, unit, unit) stm" where
  "attempt_m m f s = (case m s of (Ok x, t) \<Rightarrow> f x t | (Err e, t) \<Rightarrow> (Ok (), t) | (Panic, t) \<Rightarrow> (Panic, t))"

lemma attempt_OkD:
  "attempt_m m f s = (Ok u, t) \<longleftrightarrow> (\<exists>x t'. m s = (Ok x, t') \<and> f x t' = (Ok u, t)) \<or> (\<exists>e. m s = (Err e, t))"
  by (auto simp: attempt_m_def split: prod.splits res.splits)

lemma quietly_OkD: "quietly m s = (Ok x, t) \<longleftrightarrow> m s = (Ok x, t)"
  by (auto simp: quietly_def)

lemma unwrap_res_OkD: "unwrap_res r s = (Ok x, t) \<longleftrightarrow> r = Ok x \<and> t = s"
  by (auto simp: unwrap_res_def ret_def panic_def split: res.splits)

lemma on_rng_ErrD: "on_rng m p = (Err e, q) \<longleftrightarrow> (\<exists>t. m (p_rng p) = (Err e, t) \<and> q = p\<lparr>p_rng := t\<rparr>)"
  by (cases "m (p_rng p)") (auto simp: on_rng_def)

lemmas e2e_OkD = on_rng_ErrD attempt_OkD quietly_OkD unwrap_res_OkD bind_eq_Ok pipe_OkD

subsection \<open>The echo server\<close>

function e2e_echo :: "source \<Rightarrow> writer \<Rightarrow> writer" where
  "e2e_echo stream_rd stream_wr =
     (case read_some 4096 stream_rd of
        (Ok buf, rd) \<Rightarrow>
          if buf = [] then stream_wr
          else (case write_all buf stream_wr of
              (Ok _, wr) \<Rightarrow> e2e_echo rd wr
            | (_, wr) \<Rightarrow> wr)
      | (_, rd) \<Rightarrow> stream_wr)"
  by pat_completeness auto
termination
  by (relation "measure (\<lambda>(rd, wr). src_size rd)") (auto dest!: sym [of "(Ok _, _)" "read_some _ _"] intro: read_some_decreases)

declare e2e_echo.simps [simp del]

subsection \<open>The server of the test\<close>

definition e2e_server_init :: "GhostCipher \<Rightarrow> (conn, unit, GhostFrame) stm" where
  "e2e_server_init cipher =
     bind (quietly (on_in (read_exact 2))) (\<lambda>len_buf.
     bind (quietly (on_in (read_exact (unat (of_be16 len_buf))))) (\<lambda>enc_buf.
     bind (unwrap_res (GhostCipher_decrypt cipher enc_buf)) (\<lambda>plaintext.
     unwrap_res (GhostFrame_decode plaintext))))"

definition e2e_forward :: "GhostFrame \<Rightarrow> writer \<Rightarrow> writer" where
  "e2e_forward frame remote = (if gf_payload frame = [] then remote else snd (write_all (gf_payload frame) remote))"

text \<open>From the remote to the client; a chunk that cannot be encrypted is dropped.\<close>

definition e2e_dl_step :: "'r rng \<Rightarrow> bytes \<Rightarrow> GhostCipher \<Rightarrow> ('r pipe, unit, unit) stm" where
  "e2e_dl_step R user_id cipher_s2c =
     bind (quietly (on_src (read_some 4096))) (\<lambda>buf.
     if buf = [] then throw ()
     else
       bind (unwrap_res (GhostFrame_encode (GhostFrame_new user_id TargetNone buf) :: (ProtocolError, bytes) res)) (\<lambda>frame_data.
       attempt_m (on_rng (GhostCipher_encrypt R cipher_s2c frame_data)) (\<lambda>encrypted.
       bind (quietly (on_dst (write_all (be16 (of_nat (length encrypted)))))) (\<lambda>_.
       quietly (on_dst (write_all encrypted))))))"

lemma e2e_dl_step_decreases:
  assumes "e2e_dl_step R uid c p = (Ok u, q)"
  shows "src_size (p_src q) < src_size (p_src p)"
proof -
  obtain x s where x: "read_some 4096 (p_src p) = (Ok x, s)" "x \<noteq> []" and q: "p_src q = s"
    using assms
    by (auto simp: e2e_dl_step_def e2e_OkD split: if_splits)
  from read_some_decreases [OF x] q show ?thesis by simp
qed

function e2e_dl :: "'r rng \<Rightarrow> bytes \<Rightarrow> GhostCipher \<Rightarrow> 'r pipe \<Rightarrow> (unit, unit) res \<times> 'r pipe" where
  "e2e_dl R user_id c p =
     (case e2e_dl_step R user_id c p of
        (Ok _, q) \<Rightarrow> e2e_dl R user_id c q
      | (Err e, q) \<Rightarrow> (Err e, q)
      | (Panic, q) \<Rightarrow> (Panic, q))"
  by pat_completeness auto
termination
  by (relation "measure (\<lambda>(R, uid, c, p). src_size (p_src p))") (auto dest: sym intro: e2e_dl_step_decreases)

declare e2e_dl.simps [simp del]

text \<open>From the client to the remote; a packet that does not open is dropped.\<close>

definition e2e_ul_step :: "GhostCipher \<Rightarrow> ('r pipe, unit, unit) stm" where
  "e2e_ul_step cipher_c2s =
     bind (quietly (on_src (read_exact 2))) (\<lambda>len_buf.
     let flen = unat (of_be16 len_buf) in
     if flen > 65536 then throw ()
     else
       bind (quietly (on_src (read_exact flen))) (\<lambda>enc_buf.
       attempt_m (lift_res (GhostCipher_decrypt cipher_c2s enc_buf)) (\<lambda>pt.
       attempt_m (lift_res (GhostFrame_decode pt)) (\<lambda>f.
       if gf_payload f = [] then ret () else quietly (on_dst (write_all (gf_payload f)))))))"

subsection \<open>The client's check and the test\<close>

definition e2e_client_check :: "GhostCipher \<Rightarrow> (conn, unit, unit) stm" where
  "e2e_client_check cipher =
     bind (unwrap_m (on_in (read_exact 2))) (\<lambda>len_buf.
     bind (unwrap_m (on_in (read_exact (unat (of_be16 len_buf))))) (\<lambda>resp_buf.
     bind (unwrap_res (GhostCipher_decrypt cipher resp_buf)) (\<lambda>resp_plaintext.
     bind (unwrap_res (GhostFrame_decode resp_plaintext)) (\<lambda>resp_frame.
     if gf_payload resp_frame = lit ''Hello Ghost!'' then ret () else panic))))"

text \<open>The test, from both keys on: the client's packet, the server's forwarding, the echo, the answer, the check.\<close>

definition test_full_tunnel_e2e ::
  "'r rng \<Rightarrow> aead \<Rightarrow> hkdf \<Rightarrow> u16 \<Rightarrow> (bytes \<Rightarrow> bytes list) \<Rightarrow> 'r \<Rightarrow> 'r \<Rightarrow> (unit, unit) res" where
  "test_full_tunnel_e2e R A H port pieces client_rng server_rng =
     (let user_id = replicate 15 0 @ [1] in
      case (derive_key H user_id (lit ''ghost_default_key!'') :: (CryptoError, bytes) res) of
        Ok key \<Rightarrow>
          (case GhostCipher_new A key of
             Ok cipher \<Rightarrow>
               (case e2e_client_init A H R port client_rng of
                  Some sent \<Rightarrow>
                    (case e2e_server_init cipher (fresh_conn [sent]) of
                       (Ok frame, stream) \<Rightarrow>
                         let forwarded = wr_data (e2e_forward frame fresh_writer);
                             echoed = wr_data (e2e_echo (src_of [forwarded]) fresh_writer);
                             answer = wr_data (p_dst (snd (e2e_dl R user_id cipher
                               \<lparr>p_rng = server_rng, p_src = src_of (pieces echoed), p_dst = fresh_writer\<rparr>)))
                         in fst (e2e_client_check cipher (fresh_conn [answer]))
                     | _ \<Rightarrow> Panic)
                | None \<Rightarrow> Panic)
           | _ \<Rightarrow> Panic)
      | _ \<Rightarrow> Panic)"

subsection \<open>When the test passes\<close>

text \<open>The echo server returns what it gets.\<close>

lemma e2e_echo_all:
  assumes "src_ok rd" and "wr_limit wr = None" and "src_fault rd = None"
  shows "wr_data (e2e_echo rd wr) = wr_data wr @ src_data rd"
  using assms
proof (induction "src_size rd" arbitrary: rd wr rule: less_induct)
  case less
  obtain r rd' where r: "read_some 4096 rd = (r, rd')" by fastforce
  with less.prems(3) obtain buf where buf: "r = Ok buf"
    by (auto simp: read_some_def split: list.splits if_splits)
  show ?case
  proof (cases "buf = []")
    case True
    with r buf read_some_eof [of 4096 rd rd'] less.prems(1) have "src_data rd = []" by simp
    with True r buf show ?thesis by (subst e2e_echo.simps) simp
  next
    case False
    from r buf have ok: "read_some 4096 rd = (Ok buf, rd')" by simp
    note s = read_some_Ok [OF ok]
    have "wr_data (e2e_echo rd' (wr\<lparr>wr_data := wr_data wr @ buf\<rparr>)) = wr_data wr @ buf @ src_data rd'"
      using less.hyps [OF read_some_decreases [OF ok False] s(3)] less.prems s(2) by simp
    with ok False less.prems(2) s(1) show ?thesis by (subst e2e_echo.simps) simp
  qed
qed

text \<open>The loop of the server only adds to what has been written, and its first step sends a packet with what it read.\<close>

lemma e2e_dl_step_appends:
  assumes "e2e_dl_step R uid c p = (r, q)" and "wr_limit (p_dst p) = None"
  shows "wr_limit (p_dst q) = None \<and> (\<exists>u. wr_data (p_dst q) = wr_data (p_dst p) @ u)"
proof -
  obtain b s where s: "read_some 4096 (p_src p) = (b, s)" by fastforce
  show ?thesis
  proof (cases b)
    case (Ok buf)
    show ?thesis
    proof (cases "buf = []")
      case False
      then show ?thesis
      proof (cases "GhostFrame_encode (GhostFrame_new uid TargetNone buf) :: (ProtocolError, bytes) res")
        case (Ok fd)
        obtain e t where "GhostCipher_encrypt R c fd (p_rng p) = (e, t)" by fastforce
        with s \<open>b = Ok buf\<close> False Ok assms show ?thesis
          by (cases e) (auto simp: e2e_dl_step_def bind_def quietly_def with_err_def on_src_def unwrap_res_def ret_def
              attempt_m_def on_rng_def on_dst_def)
      qed (use s \<open>b = Ok buf\<close> assms in \<open>auto simp: e2e_dl_step_def bind_def quietly_def with_err_def on_src_def
          unwrap_res_def panic_def throw_def split: if_splits\<close>)
    qed (use s Ok assms in \<open>auto simp: e2e_dl_step_def bind_def quietly_def with_err_def on_src_def throw_def\<close>)
  qed (use s assms in \<open>auto simp: e2e_dl_step_def bind_def quietly_def with_err_def on_src_def\<close>)
qed

lemma e2e_dl_appends:
  "wr_limit (p_dst p) = None \<Longrightarrow> \<exists>u. wr_data (p_dst (snd (e2e_dl R uid c p))) = wr_data (p_dst p) @ u"
proof (induction "src_size (p_src p)" arbitrary: p rule: less_induct)
  case less
  obtain r q where s: "e2e_dl_step R uid c p = (r, q)" by fastforce
  note a = e2e_dl_step_appends [OF s less.prems]
  show ?case
  proof (cases r)
    case (Ok u)
    with s have "e2e_dl_step R uid c p = (Ok u, q)" by simp
    from less.hyps [OF e2e_dl_step_decreases [OF this]] a s Ok show ?thesis
      by (subst e2e_dl.simps) auto
  qed (use s a in \<open>subst e2e_dl.simps, simp\<close>)+
qed

lemma e2e_dl_first:
  assumes "rng_ok R" and "cipher_ok c" and "length uid = USER_ID_LEN" and "g \<noteq> []" and "length g \<le> 4096"
  shows "\<exists>w u. wr_data (p_dst (snd (e2e_dl R uid c \<lparr>p_rng = t, p_src = src_of (g # gs), p_dst = fresh_writer\<rparr>))) = w @ u \<and>
    packet c w g"
proof -
  let ?p = "\<lparr>p_rng = t, p_src = src_of (g # gs), p_dst = fresh_writer\<rparr>" and ?f = "GhostFrame_new uid TargetNone g"
  have l: "length g \<le> CHUNK_LEN" using assms(5) by (simp add: CHUNK_LEN_def)
  note wire = data_frame_wire [OF data_frame_new assms(3) l]
  have enc: "(GhostFrame_encode ?f :: (ProtocolError, bytes) res) = Ok (frame_wire ?f)"
    by (rule data_frame_wire(1) [OF data_frame_new assms(3) l])
  have good: "rng_ok R \<and> cipher_ok c" using assms(1,2) by simp
  have "length (frame_wire ?f) < 2 ^ 32" using wire(4) by simp
  from ghost_cipher.seal_open [OF good this, of t] obtain d t' where d: "GhostCipher_encrypt R c (frame_wire ?f) t = (Ok d, t')"
    "GhostCipher_decrypt c d = Ok (frame_wire ?f)" "length d = length (frame_wire ?f) + (NONCE_SIZE + TAG_SIZE)"
    by metis
  have rd: "read_some 4096 (src_of (g # gs)) = (Ok g, src_of gs)"
    using assms(5) by (simp add: read_some_def src_of_def)
  let ?w = "be16 (of_nat (length d)) @ d"
  let ?q = "\<lparr>p_rng = t', p_src = src_of gs, p_dst = fresh_writer\<lparr>wr_data := ?w\<rparr>\<rparr>"
  have "e2e_dl_step R uid c ?p = (Ok (), ?q)"
    using rd assms(4) d(1) enc
    by (simp add: e2e_dl_step_def bind_def quietly_def with_err_def on_src_def unwrap_res_def ret_def attempt_m_def on_rng_def
        on_dst_def)
  then have "e2e_dl R uid c ?p = e2e_dl R uid c ?q" by (subst e2e_dl.simps) simp
  moreover have "wr_limit (p_dst ?q) = None" by simp
  then obtain u where "wr_data (p_dst (snd (e2e_dl R uid c ?q))) = ?w @ u"
    using e2e_dl_appends [of ?q R uid c] by auto
  moreover have "packet c ?w g"
    using d(2,3) wire by (auto simp: packet_def crypto_sizes)
  ultimately show ?thesis by metis
qed

text \<open>Reading a packet back, on the client's side and on the server's.\<close>

lemma e2e_read_packet:
  assumes "src_data (c_in s) = be16 (of_nat (length d)) @ d @ u" and "length d < 65536"
  obtains s1 s2 where "on_in (read_exact 2) s = (Ok (be16 (of_nat (length d))), s1)"
    and "on_in (read_exact (unat (of_be16 (be16 (of_nat (length d)))))) s1 = (Ok d, s2)"
proof -
  obtain t1 where t1: "read_exact 2 (c_in s) = (Ok (be16 (of_nat (length d))), t1)" "src_data t1 = d @ u"
    by (rule read_exact_enough [OF assms(1) length_be16])
  have "unat (of_be16 (be16 (of_nat (length d)))) = length d" using assms(2) by simp
  moreover obtain t2 where "read_exact (length d) t1 = (Ok d, t2)"
    by (rule read_exact_enough [OF t1(2) refl])
  ultimately show thesis using t1(1) that by (simp add: on_in_def)
qed

lemma e2e_client_check_packet:
  assumes "packet c w g" and "src_data (c_in s) = w @ u"
  shows "fst (e2e_client_check c s) = (if g = lit ''Hello Ghost!'' then Ok () else Panic)"
proof -
  obtain d pt f where p: "w = be16 (of_nat (length d)) @ d" "length d < 65536" "GhostCipher_decrypt c d = Ok pt"
    "GhostFrame_decode pt = Ok f" "gf_payload f = g"
    using assms(1) by (auto simp: packet_def)
  have "src_data (c_in s) = be16 (of_nat (length d)) @ d @ u" using assms(2) p(1) by simp
  then obtain s1 s2 where "on_in (read_exact 2) s = (Ok (be16 (of_nat (length d))), s1)"
    "on_in (read_exact (unat (of_be16 (be16 (of_nat (length d)))))) s1 = (Ok d, s2)"
    by (rule e2e_read_packet [OF _ p(2)])
  with p(3-5) show ?thesis
    by (simp add: e2e_client_check_def bind_def unwrap_m_def unwrap_res_def ret_def panic_def del: of_be16_be16 lit_Cons)
qed

lemma e2e_server_init_packet:
  assumes "src_data (c_in s) = be16 (of_nat (length d)) @ d" and "length d < 65536"
    and "GhostCipher_decrypt c d = Ok pt" and "GhostFrame_decode pt = Ok f"
  shows "fst (e2e_server_init c s) = Ok f"
proof -
  have "src_data (c_in s) = be16 (of_nat (length d)) @ d @ []" using assms(1) by simp
  then obtain s1 s2 where "on_in (read_exact 2) s = (Ok (be16 (of_nat (length d))), s1)"
    "on_in (read_exact (unat (of_be16 (be16 (of_nat (length d)))))) s1 = (Ok d, s2)"
    by (rule e2e_read_packet [OF _ assms(2)])
  with assms(3,4) show ?thesis
    by (simp add: e2e_server_init_def bind_def quietly_def with_err_def unwrap_res_def ret_def del: of_be16_be16)
qed

lemma lit_Hello: "lit ''Hello Ghost!'' \<noteq> []" "length (lit ''Hello Ghost!'') \<le> 4096"
  by simp_all

text \<open>The end-to-end test depends on how TCP cuts twelve bytes. For every cipher, key derivation and generator it passes exactly when the
  echo's bytes come to the test's server in one piece; when they come in more pieces, which TCP may do, the client's
  first packet holds only the first of them and the assertion fails, though nothing was lost.\<close>

theorem e2e_test_passes_iff:
  assumes "rng_ok R" and "aead_ok A" and "hkdf_ok H"
    and "\<And>bs. concat (pieces bs) = bs" and "\<And>bs. [] \<notin> set (pieces bs)"
  shows "test_full_tunnel_e2e R A H port pieces g h =
    (if pieces (lit ''Hello Ghost!'') = [lit ''Hello Ghost!''] then Ok () else Panic)"
proof -
  let ?uid = "replicate 15 0 @ [1 :: u8]" and ?hello = "lit ''Hello Ghost!''"
  obtain key d where k: "(derive_key H ?uid (lit ''ghost_default_key!'') :: (CryptoError, bytes) res) = Ok key"
    "length key = KEY_SIZE" and d: "e2e_client_init A H R port g = Some (be16 (of_nat (length d)) @ d)" "length d = 73"
      "GhostCipher_decrypt \<lparr>gc_aead = A, gc_key = key\<rparr> d = Ok (frame_wire (e2e_frame port))"
    by (rule e2e_client_init_packet [OF assms(1-3)])
  let ?c = "\<lparr>gc_aead = A, gc_key = key\<rparr>"
  have c: "GhostCipher_new A key = Ok ?c" "cipher_ok ?c" using k(2) assms(2) by (simp_all add: GhostCipher_new_def cipher_ok_def)
  have "fst (e2e_server_init ?c (fresh_conn [be16 (of_nat (length d)) @ d])) = Ok (e2e_frame port)"
    by (rule e2e_server_init_packet [OF _ _ d(3) e2e_frame_wire(3)]) (use d(2) in simp_all)
  then obtain stream where init: "e2e_server_init ?c (fresh_conn [be16 (of_nat (length d)) @ d]) = (Ok (e2e_frame port), stream)"
    by (cases "e2e_server_init ?c (fresh_conn [be16 (of_nat (length d)) @ d])") simp
  have fwd: "wr_data (e2e_forward (e2e_frame port) fresh_writer) = ?hello"
    using lit_Hello(1) by (simp add: e2e_forward_def e2e_frame_wire(4) fresh_writer_def del: lit_Cons)
  have echo: "wr_data (e2e_echo (src_of [?hello]) fresh_writer) = ?hello"
    using e2e_echo_all [of "src_of [?hello]" fresh_writer] lit_Hello(1) by (simp add: src_ok_def del: lit_Cons)
  obtain p ps where ps: "pieces ?hello = p # ps" using assms(4) [of ?hello] lit_Hello(1) by (cases "pieces ?hello") auto
  have p: "p \<noteq> []" "?hello = p @ concat ps" using assms(4,5) [of ?hello] ps by auto
  then have "length p \<le> 4096" using lit_Hello(2) by (metis append_is_Nil_conv le_add1 length_append le_trans)
  from e2e_dl_first [OF assms(1) c(2) _ p(1) this, of ?uid h ps] obtain w u where
    w: "wr_data (p_dst (snd (e2e_dl R ?uid ?c \<lparr>p_rng = h, p_src = src_of (pieces ?hello), p_dst = fresh_writer\<rparr>))) = w @ u"
      "packet ?c w p"
    unfolding ps by (auto simp: USER_ID_LEN_def)
  have "test_full_tunnel_e2e R A H port pieces g h = fst (e2e_client_check ?c (fresh_conn [w @ u]))"
    unfolding test_full_tunnel_e2e_def Let_def k(1) res.case c(1) d(1) option.case init prod.case fwd echo w(1) by simp
  also have "\<dots> = (if p = ?hello then Ok () else Panic)"
    by (rule e2e_client_check_packet [OF w(2)]) simp
  also have "p = ?hello \<longleftrightarrow> pieces ?hello = [?hello]"
    using p ps assms(5) [of ?hello] by (cases ps) auto
  finally show ?thesis .
qed

theorem e2e_test_passes_iff_witness:
  "test_full_tunnel_e2e counter_rng plain_aead plain_hkdf 8080 (\<lambda>bs. if bs = [] then [] else [bs]) 0 0 = Ok () \<and>
   test_full_tunnel_e2e counter_rng plain_aead plain_hkdf 8080 (map (\<lambda>b. [b])) 0 0 = Panic"
proof
  note ok = rng_ok_counter aead_ok_plain hkdf_ok_plain
  show "test_full_tunnel_e2e counter_rng plain_aead plain_hkdf 8080 (\<lambda>bs. if bs = [] then [] else [bs]) 0 0 = Ok ()"
    by (subst e2e_test_passes_iff [OF ok]) (simp_all split: if_splits)
  show "test_full_tunnel_e2e counter_rng plain_aead plain_hkdf 8080 (map (\<lambda>b. [b])) 0 0 = Panic"
    by (subst e2e_test_passes_iff [OF ok]) (auto simp: concat_map_singleton)
qed

end
