(* ===== verification/Whole_Proxy.thy ===== *)
theory Whole_Proxy
  imports Client_Types Server Tunnel_Live
begin

section \<open>From the SOCKS5 request to the target\<close>

text \<open>
  The handshakes of the three programs, one after the other: an application asks the client for a target, the client greets the
  server, the server connects to the target. Then both programs run their sessions. The state in which these start is
  \<open>proxy_net\<close>: the greeting has been read, and nothing else is on the way (what the client sends before the server is ready only
  arrives later).
\<close>

definition proxy_net :: "'a pipe \<Rightarrow> conn \<Rightarrow> 'b \<Rightarrow> conn \<Rightarrow> conn \<Rightarrow> ('a, 'b) tunnel_net" where
  "proxy_net p app h client remote =
     \<lparr>tn_client = client_session_start p app, tn_server = server_session_start h client remote,
      tn_up = length (wr_data (p_dst p)), tn_down = length (wr_data (c_out client)),
      tn_up_end = False, tn_down_end = False\<rparr>"

lemma proxy_net_start:
  assumes "src_data (p_src p) = []" and "wr_limit (p_dst p) = None" and "wr_limit (c_out app) = None"
    and "src_data (c_in client) = []" and "wr_limit (c_out client) = None" and "wr_limit (c_out remote) = None"
  shows "net_start (proxy_net p app h client remote)"
  using assms
  by (simp add: net_start_def end_start_def proxy_net_def client_session_start_def server_session_start_def)

lemma proxy_net_plain:
  "plain_in (tn_client (proxy_net p app h client remote)) = src_data (c_in app)"
  "plain_out (tn_client (proxy_net p app h client remote)) = wr_data (c_out app)"
  "plain_in (tn_server (proxy_net p app h client remote)) = src_data (c_in remote)"
  "plain_out (tn_server (proxy_net p app h client remote)) = wr_data (c_out remote)"
  by (simp_all add: proxy_net_def client_session_start_def server_session_start_def)

lemma open_tunnel_uid: "open_tunnel env config = Ok (uid, tunnel) \<Longrightarrow> length uid = USER_ID_LEN"
  by (auto simp: open_tunnel_def bind_res_eq_Ok parse_user_id_def Let_def parse_hex_pairs_length split: if_splits)

text \<open>Reading whole pieces leaves no empty segment behind.\<close>

lemma read_buf_src_ok: "read_buf n c = (Ok bs, c') \<Longrightarrow> src_ok (c_in c) \<Longrightarrow> src_ok (c_in c')"
  using read_exact_Ok(4) [of n "c_in c" bs "c_in c'"]
  by (auto simp: read_buf_def on_in_def split: if_splits prod.splits)

lemma socks_write_in: "socks_write bs c = (Ok u, c') \<Longrightarrow> c_in c' = c_in c"
  by (auto simp: socks_write_def on_out_OkD)

lemma read_target_src_ok: "read_target atyp c = (Ok t, c') \<Longrightarrow> src_ok (c_in c) \<Longrightarrow> src_ok (c_in c')"
  by (auto simp: read_target_def bind_eq_Ok Let_def split: if_splits option.splits dest!: read_buf_src_ok)

lemma socks5_handshake_src_ok: "socks5_handshake c = (Ok t, c') \<Longrightarrow> src_ok (c_in c) \<Longrightarrow> src_ok (c_in c')"
  by (auto simp: socks5_handshake_def bind_eq_Ok Let_def split: if_splits
      dest!: read_target_src_ok read_buf_src_ok socks_write_in)

text \<open>C1: The whole program is a SOCKS5 proxy. When an application sends a CONNECT request for a target and then its data, and the server
  allows the client's user and reaches the target, then all three handshakes succeed: the client understands the request, the server
  accepts the greeting and connects to exactly that target, with the client's key. From there on, whatever the scheduling of the
  two programs and the network, the target has received a prefix of the data (and nothing of the handshakes), and the application the two SOCKS5
  replies and then a prefix of what the target sends; and as long as both programs run and the connection has not ended, they can
  go on until all of it is delivered.\<close>

theorem proxy_serves_request:
  assumes "rng_ok (ce_rng env)" and "rng_ok (env_rng senv)" and "aead_ok (ce_aead env)" and "hkdf_ok (ce_hkdf env)"
    and "env_aead senv = ce_aead env" and "env_hkdf senv = ce_hkdf env"
    and "wf_addr target" and "target \<noteq> TargetNone" and "length (addr_wire target) \<le> 258"
    and "0 \<in> set methods" and "length methods \<le> 255"
    and "src_data (c_in app) = socks5_request methods target @ data" and "c_out app = fresh_writer"
    and "open_tunnel env config = Ok (uid, tunnel)" and "src_data (c_in tunnel) = []" and "c_out tunnel = fresh_writer"
    and "client_handshake env config uid target \<lparr>p_rng = g, p_src = c_in tunnel, p_dst = c_out tunnel\<rparr> = (r, p)"
    and "src_data (c_in accepted) = wr_data (p_dst p)" and "wr_limit (c_out accepted) = None"
    and "hex_encode uid \<in> ss_allowed_users state"
    and "resolve_target senv target = Ok addr" and "env_connect senv addr = Ok remote" and "c_out remote = fresh_writer"
    and "src_ok (c_in app)" and "src_ok (c_in remote)"
  shows "\<exists>app' c key client'. socks5_handshake app = (Ok target, app') \<and> r = Ok (c, c) \<and>
     handle_connection_init senv state accepted = (Ok (uid, key, remote), client') \<and>
     GhostCipher_new (env_aead senv) key = Ok c \<and> net_start (proxy_net p app' h client' remote) \<and>
     (\<forall>k. tunnel_reach c uid (ce_rng env) config (env_rng senv) (ss_config state) (proxy_net p app' h client' remote) k \<longrightarrow>
        (\<exists>i. plain_out (tn_server k) = take i data) \<and>
        (\<exists>i. plain_out (tn_client k) = [5, 0] @ [5, 0, 0, 1, 0, 0, 0, 0, 0, 0] @ take i (src_data (c_in remote))) \<and>
        (ep_phase (tn_client k) = Running \<and> ep_phase (tn_server k) = Running \<and> \<not> tn_up_end k \<and> \<not> tn_down_end k \<longrightarrow>
           (\<exists>l. tunnel_reach c uid (ce_rng env) config (env_rng senv) (ss_config state) k l \<and> plain_out (tn_server l) = data \<and>
              plain_out (tn_client l) = [5, 0] @ [5, 0, 0, 1, 0, 0, 0, 0, 0, 0] @ src_data (c_in remote))))"
proof -
  let ?p = "\<lparr>p_rng = g, p_src = c_in tunnel, p_dst = c_out tunnel\<rparr>"
  have uid: "length uid = USER_ID_LEN" by (rule open_tunnel_uid [OF assms(14)])
  have lim: "wr_limit (p_dst ?p) = None" "wr_data (p_dst ?p) = []" "wr_limit (c_out remote) = None"
    using assms(16,23) by simp_all
  obtain app' where app: "socks5_handshake app = (Ok target, app')" "src_data (c_in app') = data"
    "c_out app' = fresh_writer\<lparr>wr_data := [5, 0] @ [5, 0, 0, 1, 0, 0, 0, 0, 0, 0]\<rparr>"
    using socks5_connect_understood [OF assms(7-12)] assms(13) by auto
  obtain c where c: "r = Ok (c, c)" "cipher_ok c" "p_src p = c_in tunnel" "wr_limit (p_dst p) = None"
    by (rule client_handshake_sends [OF assms(1,3,4) uid assms(7) lim(1), of config]) (use assms(16,17) in auto)
  have "src_data (c_in accepted) = wr_data (p_dst p) @ []" using assms(18) by simp
  from handshake_reaches_target [OF assms(1,3,4) uid assms(7) lim(1,2) assms(17,5,6,20-22) lim(3) this] c(1)
  obtain key client' where s: "handle_connection_init senv state accepted = (Ok (uid, key, remote), client')"
    "src_data (c_in client') = []" "c_out client' = c_out accepted" "GhostCipher_new (env_aead senv) key = Ok c"
    by auto
  let ?net = "proxy_net p app' h client' remote"
  have start: "net_start ?net"
    using app(3) c(3,4) s(2,3) assms(15,19) lim(3) by (intro proxy_net_start) simp_all
  have par: "loop_params (ce_rng env) c uid" "loop_params (env_rng senv) c uid"
    using assms(1,2) c(2) uid by (simp_all add: loop_params_def)
  have plain: "src_ok (c_in (ep_plain (tn_client ?net)))" "src_ok (c_in (ep_plain (tn_server ?net)))"
    using socks5_handshake_src_ok [OF app(1) assms(24)] assms(25)
    by (simp_all add: proxy_net_def client_session_start_def server_session_start_def)
  have "(\<exists>i. plain_out (tn_server k) = take i data) \<and>
      (\<exists>i. plain_out (tn_client k) = [5, 0] @ [5, 0, 0, 1, 0, 0, 0, 0, 0, 0] @ take i (src_data (c_in remote)))"
    if "tunnel_reach c uid (ce_rng env) config (env_rng senv) (ss_config state) ?net k" for k
    using net_reach_ok [OF that [unfolded tunnel_reach_send] par net_start_ok [OF start]] app(2,3) assms(23)
    by (auto simp: pair_ok_def half_ok_def proxy_net_plain)
  moreover have "\<exists>l. tunnel_reach c uid (ce_rng env) config (env_rng senv) (ss_config state) k l \<and> plain_out (tn_server l) = data \<and>
      plain_out (tn_client l) = [5, 0] @ [5, 0, 0, 1, 0, 0, 0, 0, 0, 0] @ src_data (c_in remote)"
    if "tunnel_reach c uid (ce_rng env) config (env_rng senv) (ss_config state) ?net k"
      and "ep_phase (tn_client k) = Running \<and> ep_phase (tn_server k) = Running \<and> \<not> tn_up_end k \<and> \<not> tn_down_end k" for k
    using all_can_be_delivered [OF par start _ _ that(1)] that(2) plain app(2,3) assms(23)
    by (fastforce simp: proxy_net_plain)
  ultimately show ?thesis using app(1) c(1) s(1,4) start by blast
qed

definition plain_config :: ClientConfig where
  "plain_config = ClientConfig_default\<lparr>cc_mask_domain := lit ''none''\<rparr>"

lemma plain_config_opens: "open_tunnel example_client_env plain_config = Ok (example_uid, fresh_conn [])"
proof -
  have "parse_user_id (cc_user_id plain_config) = Ok example_uid"
    using parse_user_id_hex_encode [OF length_example_uid]
    by (simp add: plain_config_def ClientConfig_default_def default_user_text example_uid_def del: lit_Cons)
  then show ?thesis
    by (simp add: open_tunnel_def example_client_env_def plain_config_def del: lit_Cons)
qed

theorem proxy_serves_request_witness:
  "\<exists>app' c p client' l.
     socks5_handshake (fresh_conn [socks5_request [0] (IpV4 (socket_v4 1 80)) @ [1, 2], [3]]) = (Ok (IpV4 (socket_v4 1 80)), app') \<and>
     tunnel_reach c example_uid counter_rng plain_config counter_rng ServerConfig_default
       (proxy_net p app' (7 :: nat) client' (fresh_conn [[4], [5]])) l \<and>
     plain_out (tn_server l) = [1, 2, 3] \<and>
     plain_out (tn_client l) = [5, 0] @ [5, 0, 0, 1, 0, 0, 0, 0, 0, 0] @ [4, 5]"
proof -
  let ?t = "IpV4 (socket_v4 1 80)" and ?p0 = "\<lparr>p_rng = 0, p_src = c_in (fresh_conn []), p_dst = c_out (fresh_conn [])\<rparr>"
  let ?app = "fresh_conn [socks5_request [0] ?t @ [1, 2], [3]]"
  obtain r p where h: "client_handshake example_client_env plain_config example_uid ?t ?p0 = (r, p)" by fastforce
  let ?acc = "fresh_conn [wr_data (p_dst p)]"
  have env: "rng_ok (ce_rng example_client_env)" "rng_ok (env_rng example_env)" "aead_ok (ce_aead example_client_env)"
    "hkdf_ok (ce_hkdf example_client_env)" "env_aead example_env = ce_aead example_client_env"
    "env_hkdf example_env = ce_hkdf example_client_env"
    "resolve_target example_env ?t = Ok (V4 (socket_v4 1 80))"
    "env_connect example_env (V4 (socket_v4 1 80)) = Ok (fresh_conn [[4], [5]])"
    by (simp_all add: example_client_env_def rng_ok_counter aead_ok_plain hkdf_ok_plain example_env_def)
  have req: "wf_addr ?t" "?t \<noteq> TargetNone" "length (addr_wire ?t) \<le> 258" "0 \<in> set [0 :: u8]" "length [0 :: u8] \<le> 255"
    "src_data (c_in ?app) = socks5_request [0] ?t @ [1, 2, 3]" "c_out ?app = fresh_writer"
    by simp_all
  have ok: "src_data (c_in (fresh_conn [])) = []" "c_out (fresh_conn []) = fresh_writer" "src_data (c_in ?acc) = wr_data (p_dst p)"
    "wr_limit (c_out ?acc) = None" "c_out (fresh_conn [[4], [5]]) = fresh_writer" "src_ok (c_in ?app)"
    "src_ok (c_in (fresh_conn [[4], [5]]))"
    by (simp_all add: src_ok_def socks5_request_def)
  from proxy_serves_request [OF env(1-6) req plain_config_opens ok(1,2) h ok(3,4) example_uid_allowed env(7,8) ok(5-7), of "7 :: nat"]
  obtain app' c client' where w: "socks5_handshake ?app = (Ok ?t, app')"
    and start: "net_start (proxy_net p app' (7 :: nat) client' (fresh_conn [[4], [5]]))"
    and all: "\<And>k. tunnel_reach c example_uid (ce_rng example_client_env) plain_config (env_rng example_env)
        (ss_config (server_state ServerConfig_default)) (proxy_net p app' 7 client' (fresh_conn [[4], [5]])) k \<Longrightarrow>
      ep_phase (tn_client k) = Running \<and> ep_phase (tn_server k) = Running \<and> \<not> tn_up_end k \<and> \<not> tn_down_end k \<longrightarrow>
      (\<exists>l. tunnel_reach c example_uid (ce_rng example_client_env) plain_config (env_rng example_env)
         (ss_config (server_state ServerConfig_default)) k l \<and> plain_out (tn_server l) = [1, 2, 3] \<and>
         plain_out (tn_client l) = [5, 0] @ [5, 0, 0, 1, 0, 0, 0, 0, 0, 0] @ src_data (c_in (fresh_conn [[4], [5]])))"
    by blast
  have "tunnel_reach c example_uid (ce_rng example_client_env) plain_config (env_rng example_env)
      (ss_config (server_state ServerConfig_default)) (proxy_net p app' 7 client' (fresh_conn [[4], [5]]))
      (proxy_net p app' 7 client' (fresh_conn [[4], [5]]))"
    by (simp add: tunnel_reach_def net_here)
  from all [OF this] start w show ?thesis
    by (auto simp: net_start_def end_start_def example_client_env_def example_env_def server_state_def)
qed

end
