(* ===== verification/Spec2Isabelle.thy ===== *)
theory Spec2Isabelle
  imports Protocol Stealth Crypto Ja4 Tls_Library Reality Display_Texts Relay Packet_Bounds Session Session_Ends
    Tunnel_Net Tunnel_Live Server Tunnel Tls_Pins Fragment Client_Socks Client_Types
    Tun_Device Tun_Socks Tun_Session Tun_Processor Tun_Whole Fragment_Writer
    Mobile_Api Mobile_Steps Bridge Mobile_Whole Unit_Tests E2e_Test E2e_Run Whole_Proxy
begin

text \<open>
  A verification development for the Reliz (Ghost) proxy: a client with a SOCKS5 front
  (src/ghost-client), a server (src/ghost-server), the wire protocol and the stealth helpers they
  share (src/ghost-common), the cipher (src/ghost-crypto), the Reality camouflage library
  (src/ghost-reality), a TUN front that turns packets into SOCKS5 connections (src/ghost-tun), and
  the bridge to the mobile application (src/ghost_flutter/rust).

  How the parts work together: an application speaks SOCKS5 to the client (or sends packets that
  the TUN front turns into SOCKS5). The client opens a connection to the server, possibly inside a
  TLS layer that looks like another site, sends the user id in clear and one encrypted frame that names
  the target; the server checks the user id, derives the same key, connects to the target, and then
  both sides relay data in encrypted frames, one loop per direction, until one of the loops ends.

  The theories, in the order of their dependencies:

  \<^item> Prelude: machine types, results (\<open>Ok\<close>, \<open>Err\<close>, \<open>Panic\<close>), computations on a mutable state
    (\<open>stm\<close>, with \<open>bind\<close> for the question mark operator), the rules for panic freedom, big-endian integers.
  \<^item> Codecs: the contract of an encoder and decoder pair, as a locale; Protocol interprets it.
  \<^item> Environment: buffers of the bytes crate, streams (what arrives, in which segments, how it ends; what
    was written, and where writing fails), accept loops, randomness.
  \<^item> Rust\_Text, Hex\_Ids: the string operations of the standard library that the code uses (UTF-8,
    find, trimming, splitting) and the text form of user ids and keys (\<open>parse_user_id\<close>, \<open>hex_encode\<close>).
  \<^item> Protocol (ghost-common/src/lib.rs): target addresses, frames, their encoders and decoders, the
    two configurations. Shown: round trips, totality, soundness of the decoders, the limits of the 16-bit length.
  \<^item> Stealth (ghost-common/src/stealth.rs): padding and fragmentation helpers.
  \<^item> Crypto (ghost-crypto/src/lib.rs): \<open>GhostCipher\<close> and \<open>derive_key\<close> over an AEAD and an HKDF that are
    parameters; the locale \<open>frame_cipher\<close> is what the loops need of a cipher.
  \<^item> Ja4 (ghost-reality/src/ja4.rs): browser profiles and fingerprints.
  \<^item> Tls\_Library: what the code uses of rcgen and rustls, as arguments: key pairs and certificates (\<open>cert_lib\<close>), the
    configurations of both sides, and what a client checks in a handshake (\<open>server_accepted\<close>).
  \<^item> Reality (ghost-reality/src): token detection, the answers of the library's server, its certificate, its client.
  \<^item> Display\_Texts: the texts of addresses and errors.
  \<^item> Relay: the four relay loops of handler.rs and tunnel.rs over a \<open>pipe\<close>; the locales \<open>relay_loop\<close> and
    \<open>sending_loop\<close> hold what they share. \<open>open_stream\<close> is the abstract specification of a receiving
    loop: a function of the bytes, whatever their segmentation. Packet\_Bounds: the sizes of the packets, and that the
    16-bit length never wraps.
  \<^item> Session: both directions of an end at once, as an inductive step relation (one iteration of either
    loop, or the cancellation that select! makes of the other when one ends), with reachability and invariants.
    Session\_Ends: a session cannot run for ever, and stops only when it is closed (locale \<open>consuming_loops\<close>).
  \<^item> Tunnel\_Net: the client's and the server's session at once, over a network that delivers in order, in any pieces, late
    or not at all; the invariant of a direction is \<open>half_ok\<close>. Tunnel\_Live: from every reachable state in which both run, all
    data can still be delivered; the second direction is the first in a swapped network.
  \<^item> Server (ghost-server/src): the handshake \<open>handle_connection_init\<close>, the connection handler, the Reality
    front with its certificate, the listeners, the choice of the configuration. A listener says which tasks it has
    started and how it ended; when it ends the process does, and unfinished tasks are cancelled. The server's copy of the
    token scan and that of the Reality library are two definitions, both shown to decide \<open>token_presented\<close>, a
    description of the request that mentions no scan.
  \<^item> Tunnel (ghost-client/src/tunnel.rs): the client's side of the handshake, the Reality connection and its
    certificate check. Tls\_Pins: the two certificate builders and what the pinned fingerprint means.
    Fragment (fragment.rs): the stream that cuts the first bytes into small writes, over a socket that is ready or not;
    Fragment\_Writer: it refines the plain writer that the other theories use for a connection.
    Client\_Socks (lib.rs): the SOCKS5 front; Client\_Types: what it hands over is within the wire format.
  \<^item> Whole\_Proxy: the SOCKS5 front, the client, the network and the server at once, from the request of an application on.
  \<^item> Tun\_Device (ghost-tun/src/device.rs): the loops over the non-blocking descriptor. Tun\_Socks, Tun\_Session,
    Tun\_Processor (ghost-tun/src): the SOCKS5 client, the userspace TCP sessions with the NAT table (locale
    \<open>flow_table\<close>), and the packet processor, which is shown to refine one automaton per flow. Tun\_Whole: the front
    with the client as its proxy, each reading what the other writes.
  \<^item> Mobile\_Api (ghost\_flutter/rust/src/api.rs): the calls, the statics and the background task, each call run without
    interference up to its wait and after it. Mobile\_Steps: the same calls cut at every access to what they share
    (\<open>call_move\<close>), in every interleaving, with tasks that are only told to end; what holds when the calls are made in
    turn, and what goes wrong otherwise. Bridge (frb\_generated.rs): the codes, the six wire
    functions and the dispatcher, with the Dart functions that write the requests and read the answers. Mobile\_Whole: from the
    calls over the tasks they start to the tunnels these open.
  \<^item> Unit\_Tests: the unit tests of the repository over the model. E2e\_Test, E2e\_Run: the end-to-end test,
    its client against the real server, and as a whole with its own server.
  \<^item> this theory: client and server together, from the handshake to the data, and what an observer
    of the connection can compute.

  Libraries whose code is not in the repository are arguments: the AEAD, HKDF, SHA-256, TLS, the TLS and
  packet header parsers, DNS, TCP connections, the TOML parser, the random generator, the runtime of the Dart bridge. What the code relies
  on is stated as a named predicate (\<open>aead_ok\<close>, \<open>hkdf_ok\<close>, \<open>rng_ok\<close>, \<open>etherparse_ok\<close>, \<open>src_ok\<close>,
  \<open>fresh_certs\<close>, \<open>tls_connect_ok\<close>, \<open>bridge_lib_ok\<close>), each satisfied by a concrete instance that the witnesses use.

  The relay loops are total: reading loops end because a source holds finitely many bytes and segments (the
  measure \<open>src_size\<close>), so no fuel is used. What waits for a socket that may never be ready (the operations of the fragmented
  stream) is a partial function whose value is \<open>None\<close> when it does not end; that it ends on a socket that is not pending
  for ever is proved.

  Not modelled: log output, time (delays and time-outs appear as choices and events), TLS itself and the making of keys and
  certificates inside rcgen, the creation of the tokio runtime, the runtime of the Dart bridge (its threads and ports, and the byte
  that marks an answer as a success), and the user interface.
\<close>

section \<open>Client and server together\<close>

text \<open>
  A run of the client's side of a tunnel on a connection that is not cut: the handshake, then the
  upload loop on what the application sends. \<open>wire\<close> is all that an observer of the connection sees
  in this direction.
\<close>

definition client_run ::
  "'r client_env \<Rightarrow> ClientConfig \<Rightarrow> bytes \<Rightarrow> TargetAddr \<Rightarrow> source \<Rightarrow> 'r \<Rightarrow> (ClientError, loop_end \<times> bytes) res" where
  "client_run env config uid target app g =
     (case client_handshake env config uid target \<lparr>p_rng = g, p_src = src_of [], p_dst = fresh_writer\<rparr> of
        (Ok (cipher_c2s, cipher_s2c), p) \<Rightarrow>
          (case client_upload (ce_rng env) config uid cipher_c2s (p\<lparr>p_src := app\<rparr>) of
             (e, q) \<Rightarrow> Ok (e, wr_data (p_dst q)))
      | (Err e, p) \<Rightarrow> Err e
      | (Panic, p) \<Rightarrow> Panic)"

lemma client_run_wire:
  assumes "rng_ok (ce_rng env)" and "aead_ok (ce_aead env)" and "hkdf_ok (ce_hkdf env)"
    and "length uid = USER_ID_LEN" and "wf_addr target" and "src_ok app" and "src_fault app = None"
  obtains c key d f w where
    "client_run env config uid target app g = Ok (EndOfStream, uid @ be16 (of_nat (length d)) @ d @ w)"
    and "carries c w (src_data app)"
    and "\<And>A. A = ce_aead env \<Longrightarrow> GhostCipher_new A key = Ok c"
    and "(derive_key (ce_hkdf env) uid default_secret :: (ClientError, bytes) res) = Ok key"
    and "(derive_key (ce_hkdf env) uid default_secret :: (ServerError, bytes) res) = Ok key"
    and "GhostCipher_decrypt c d = Ok (frame_wire f)" and "length d < 65536"
    and "GhostFrame_decode (frame_wire f) = Ok f" and "gf_target f = target" and "gf_payload f = []"
proof -
  let ?p = "\<lparr>p_rng = g, p_src = src_of [], p_dst = fresh_writer\<rparr>"
  have "wr_limit (p_dst ?p) = None" by simp
  from client_handshake_sends [OF assms(1-5) this, of config] obtain c key d f t where
    h: "client_handshake env config uid target ?p =
       (Ok (c, c), ?p\<lparr>p_rng := t, p_dst := (p_dst ?p)\<lparr>wr_data := wr_data (p_dst ?p) @
          uid @ be16 (of_nat (length d)) @ d\<rparr>\<rparr>)"
    and k: "(derive_key (ce_hkdf env) uid default_secret :: (ClientError, bytes) res) = Ok key"
    and c: "GhostCipher_new (ce_aead env) key = Ok c" "cipher_ok c"
    and d: "GhostCipher_decrypt c d = Ok (frame_wire f)" "length d < 65536"
    and f: "GhostFrame_decode (frame_wire f) = Ok f" "gf_target f = target" "gf_payload f = []"
    by metis
  let ?q = "\<lparr>p_rng = t, p_src = app, p_dst = fresh_writer\<lparr>wr_data := uid @ be16 (of_nat (length d)) @ d\<rparr>\<rparr>"
  obtain w where w: "p_dst (snd (client_upload (ce_rng env) config uid c ?q)) =
      (p_dst ?q)\<lparr>wr_data := wr_data (p_dst ?q) @ w\<rparr>" "carries c w (src_data app)"
    "fst (client_upload (ce_rng env) config uid c ?q) = EndOfStream"
    using client_sending.sends_all [OF assms(1) c(2) assms(4), of ?q config] assms(6,7) by auto
  have "client_run env config uid target app g = Ok (EndOfStream, uid @ be16 (of_nat (length d)) @ d @ w)"
    using h w(1,3) by (simp add: client_run_def case_prod_beta)
  moreover have "(derive_key (ce_hkdf env) uid default_secret :: (ServerError, bytes) res) = Ok key"
    using k by (auto simp: derive_key_def split: option.splits)
  ultimately show thesis using w(2) c(1) k d f by (intro that) simp_all
qed

text \<open>A whole upload, from the handshake on. What the client sends for an allowed user (its greeting and the
  application's data), received by the server in any segments, makes the server resolve and connect to exactly
  the target the client asked for and write to it exactly what the application wrote.\<close>

theorem end_to_end_upload:
  assumes "rng_ok (ce_rng env)" and "aead_ok (ce_aead env)" and "hkdf_ok (ce_hkdf env)"
    and "length uid = USER_ID_LEN" and "wf_addr target" and "src_ok app" and "src_fault app = None"
    and "client_run env config uid target app g = Ok (e, wire)"
    and "env_aead senv = ce_aead env" and "env_hkdf senv = ce_hkdf env"
    and "hex_encode uid \<in> ss_allowed_users state"
    and "resolve_target senv target = Ok addr" and "env_connect senv addr = Ok remote"
    and "wr_limit (c_out remote) = None"
    and "src_data (c_in client) = wire" and "src_fault (c_in client) = None"
  shows "\<exists>key c client'. e = EndOfStream \<and>
     handle_connection_init senv state client = (Ok (uid, key, remote), client') \<and>
     GhostCipher_new (env_aead senv) key = Ok c \<and>
     fst (server_upload c \<lparr>p_rng = h, p_src = c_in client', p_dst = c_out remote\<rparr>) = EndOfStream \<and>
     wr_data (p_dst (snd (server_upload c \<lparr>p_rng = h, p_src = c_in client', p_dst = c_out remote\<rparr>))) =
       wr_data (c_out remote) @ src_data app"
proof -
  obtain c key d f w where
    r: "client_run env config uid target app g = Ok (EndOfStream, uid @ be16 (of_nat (length d)) @ d @ w)"
    and w: "carries c w (src_data app)" and c: "GhostCipher_new (env_aead senv) key = Ok c"
    and k: "(derive_key (env_hkdf senv) uid default_secret :: (ServerError, bytes) res) = Ok key"
    and d: "GhostCipher_decrypt c d = Ok (frame_wire f)" "length d < 65536"
    and f: "GhostFrame_decode (frame_wire f) = Ok f" "gf_target f = target" "gf_payload f = []"
    using client_run_wire [OF assms(1-7), of config g] assms(9,10) by metis
  have data: "src_data (c_in client) = uid @ be16 (of_nat (length d)) @ d @ w"
    using r assms(8,15) by simp
  obtain client' where i: "handle_connection_init senv state client =
       (Ok (uid, key, remote\<lparr>c_out := (c_out remote)\<lparr>wr_data := wr_data (c_out remote) @ gf_payload f\<rparr>\<rparr>), client')"
    "src_data (c_in client') = w" "src_fault (c_in client') = None"
    using init_accepts [OF data assms(4) d(2) assms(11) k c d(1) f(1) assms(12) [folded f(2)] assms(13,14)]
      assms(16) by metis
  let ?p = "\<lparr>p_rng = h, p_src = c_in client', p_dst = c_out remote\<rparr>"
  have "wr_limit (p_dst ?p) = None" using assms(14) by simp
  from server_upload_opens [OF this surjective_pairing, of c] carries_open [OF w] i(2,3)
  have "fst (server_upload c ?p) = EndOfStream"
    and "wr_data (p_dst (snd (server_upload c ?p))) = wr_data (c_out remote) @ src_data app"
    by (simp_all add: fault_of_def end_of_read_def)
  with i(1) f(3) c r assms(8) show ?thesis by auto
qed

definition example_wire :: bytes where
  "example_wire = (case client_run example_client_env ClientConfig_default example_uid (IpV4 (socket_v4 1 80))
     (src_of [[1, 2], [3]]) 0 of Ok (e, w) \<Rightarrow> w | _ \<Rightarrow> [])"

lemma example_libraries:
  "rng_ok (ce_rng example_client_env)" "aead_ok (ce_aead example_client_env)" "hkdf_ok (ce_hkdf example_client_env)"
  "env_aead example_env = ce_aead example_client_env" "env_hkdf example_env = ce_hkdf example_client_env"
  "resolve_target example_env (IpV4 (socket_v4 1 80)) = Ok (V4 (socket_v4 1 80))"
  "env_connect example_env (V4 (socket_v4 1 80)) = Ok (fresh_conn [[4], [5]])"
  by (simp_all add: example_client_env_def rng_ok_counter aead_ok_plain hkdf_ok_plain example_env_def)

lemma example_run: "\<exists>e. client_run example_client_env ClientConfig_default example_uid (IpV4 (socket_v4 1 80))
     (src_of [[1, 2], [3]]) 0 = Ok (e, example_wire)"
proof -
  have s: "src_ok (src_of [[1, 2], [3]])" and a: "wf_addr (IpV4 (socket_v4 1 80))" by (simp_all add: src_ok_def)
  obtain w where "client_run example_client_env ClientConfig_default example_uid (IpV4 (socket_v4 1 80))
     (src_of [[1, 2], [3]]) 0 = Ok (EndOfStream, w)"
    by (rule client_run_wire [OF example_libraries(1-3) length_example_uid a s]) auto
  then show ?thesis by (simp add: example_wire_def)
qed

theorem end_to_end_upload_witness:
  "\<exists>key c client'. handle_connection_init example_env (server_state ServerConfig_default)
       (fresh_conn [take 7 example_wire, drop 7 example_wire]) =
       (Ok (example_uid, key, fresh_conn [[4], [5]]), client') \<and>
     wr_data (p_dst (snd (server_upload c \<lparr>p_rng = (), p_src = c_in client', p_dst = fresh_writer\<rparr>))) = [1, 2, 3]"
proof -
  obtain e where r: "client_run example_client_env ClientConfig_default example_uid (IpV4 (socket_v4 1 80))
     (src_of [[1, 2], [3]]) 0 = Ok (e, example_wire)" using example_run by blast
  show ?thesis
    using end_to_end_upload [OF example_libraries(1-3) length_example_uid _ _ _ r example_libraries(4,5)
        example_uid_allowed example_libraries(6,7),
        of "fresh_conn [take 7 example_wire, drop 7 example_wire]" "()"]
    by (auto simp: src_ok_def)
qed

section \<open>What an observer learns\<close>

text \<open>
  The reader of a connection who has none of the configuration, only the libraries: the first bytes are the
  user id in clear, and the key is a function of it and of a constant of the code.
\<close>

definition observe :: "hkdf \<Rightarrow> aead \<Rightarrow> bytes \<Rightarrow> (TargetAddr \<times> bytes) option" where
  "observe H A wire =
     (case (derive_key H (take USER_ID_LEN wire) default_secret :: (unit, bytes) res) of
        Ok key \<Rightarrow>
          (case GhostCipher_new A key of
             Ok c \<Rightarrow>
               (let rest = drop USER_ID_LEN wire; n = unat (of_be16 (take 2 rest)) in
                case GhostCipher_decrypt c (take n (drop 2 rest)) of
                  Ok pt \<Rightarrow>
                    (case GhostFrame_decode pt of
                       Ok f \<Rightarrow> Some (gf_target f, fst (open_stream c UnexpectedEof (drop n (drop 2 rest))))
                     | _ \<Rightarrow> None)
                | _ \<Rightarrow> None)
           | _ \<Rightarrow> None)
      | _ \<Rightarrow> None)"

text \<open>C15: The tunnel is not confidential against anyone who sees it without the TLS layer. From the bytes of the
  connection alone an observer computes the key, and with it the target and everything the application sends:
  the key depends on the user id, which is sent first and in clear, and on a constant in the source, and on
  nothing that is secret or fresh.\<close>

theorem observer_reads_upload:
  assumes "rng_ok (ce_rng env)" and "aead_ok (ce_aead env)" and "hkdf_ok (ce_hkdf env)"
    and "length uid = USER_ID_LEN" and "wf_addr target" and "src_ok app" and "src_fault app = None"
    and "client_run env config uid target app g = Ok (e, wire)"
  shows "observe (ce_hkdf env) (ce_aead env) wire = Some (target, src_data app)"
proof -
  obtain c key d f w where
    r: "client_run env config uid target app g = Ok (EndOfStream, uid @ be16 (of_nat (length d)) @ d @ w)"
    and w: "carries c w (src_data app)" and c: "GhostCipher_new (ce_aead env) key = Ok c"
    and k: "(derive_key (ce_hkdf env) uid default_secret :: (ClientError, bytes) res) = Ok key"
    and d: "GhostCipher_decrypt c d = Ok (frame_wire f)" "length d < 65536"
    and f: "GhostFrame_decode (frame_wire f) = Ok f" "gf_target f = target"
    using client_run_wire [OF assms(1-7), of config g] by metis
  have "(derive_key (ce_hkdf env) uid default_secret :: (unit, bytes) res) = Ok key"
    using k by (auto simp: derive_key_def split: option.splits)
  moreover have "wire = uid @ be16 (of_nat (length d)) @ d @ w" using r assms(8) by simp
  ultimately show ?thesis
    using assms(4) c d f carries_open [OF w, of UnexpectedEof] by (simp add: observe_def Let_def)
qed

theorem observer_reads_upload_witness:
  "observe plain_hkdf plain_aead example_wire = Some (IpV4 (socket_v4 1 80), [1, 2, 3])"
proof -
  obtain e where r: "client_run example_client_env ClientConfig_default example_uid (IpV4 (socket_v4 1 80))
     (src_of [[1, 2], [3]]) 0 = Ok (e, example_wire)" using example_run by blast
  from observer_reads_upload [OF example_libraries(1-3) length_example_uid _ _ _ r] show ?thesis
    by (simp add: src_ok_def example_client_env_def)
qed

end
